(* ===== verification/Prelude.thy ===== *)
theory Prelude
  imports Main "HOL-Library.AList"
begin

text \<open>
  Shared vocabulary of the development: fallible computations as values of a sum type
  (Go's \<open>(value, error)\<close> pairs, of which exactly one side is meaningful), the loops the
  program writes over slices, record lookup by identifier, and the generic lemmas about them.
\<close>

named_theorems res_simps "inversion rules for fallible computations"
named_theorems lookup_simps "facts about lookups by identifier"

section \<open>Fallible computations\<close>

text \<open>\<open>if e != nil { return e }\<close> between two calls is \<open>rbind\<close>; a guard is \<open>check\<close>.\<close>

definition rbind :: "'e + 'a \<Rightarrow> ('a \<Rightarrow> 'e + 'b) \<Rightarrow> 'e + 'b" where
  "rbind m f = (case m of Inl e \<Rightarrow> Inl e | Inr x \<Rightarrow> f x)"

definition check :: "bool \<Rightarrow> 'e \<Rightarrow> 'e + unit" where
  "check b e = (if b then Inr () else Inl e)"

definition ok :: "'e + 'a \<Rightarrow> bool" where
  "ok m = (case m of Inl _ \<Rightarrow> False | Inr _ \<Rightarrow> True)"

lemma rbind_simps [simp]:
  "rbind (Inl e) f = Inl e"
  "rbind (Inr x) f = f x"
  by (simp_all add: rbind_def)

lemma ok_simps [simp]:
  "\<not> ok (Inl e)"
  "ok (Inr x)"
  by (simp_all add: ok_def)

lemma ok_iff: "ok m \<longleftrightarrow> (\<exists>x. m = Inr x)"
  by (cases m) auto

lemma ok_unit: "ok (m :: 'e + unit) \<longleftrightarrow> m = Inr ()"
  by (cases m) auto

lemma rbind_eq_Inr [res_simps]: "rbind m f = Inr y \<longleftrightarrow> (\<exists>x. m = Inr x \<and> f x = Inr y)"
  by (cases m) auto

lemma rbind_eq_Inl [res_simps]:
  "rbind m f = Inl e \<longleftrightarrow> m = Inl e \<or> (\<exists>x. m = Inr x \<and> f x = Inl e)"
  by (cases m) auto

lemma ok_rbind [res_simps]: "ok (rbind m f) \<longleftrightarrow> (\<exists>x. m = Inr x \<and> ok (f x))"
  by (cases m) auto

lemma check_eq_Inr [res_simps]: "check b e = Inr u \<longleftrightarrow> b"
  by (simp add: check_def)

lemma check_eq_Inl [res_simps]: "check b e = Inl e' \<longleftrightarrow> \<not> b \<and> e' = e"
  by (auto simp: check_def)

lemma ok_check [res_simps]: "ok (check b e) \<longleftrightarrow> b"
  by (simp add: check_def)

lemma check_True [simp]: "check True e = Inr ()"
  and check_False [simp]: "check False e = Inl e"
  by (simp_all add: check_def)

section \<open>Loops over slices\<close>

text \<open>A loop whose body may return an error: the first error ends it.\<close>

fun rall :: "('a \<Rightarrow> 'e + unit) \<Rightarrow> 'a list \<Rightarrow> 'e + unit" where
  "rall f [] = Inr ()"
| "rall f (x # xs) = rbind (f x) (\<lambda>_. rall f xs)"

text \<open>A loop that also threads a state.\<close>

fun rfold :: "('s \<Rightarrow> 'a \<Rightarrow> 'e + 's) \<Rightarrow> 's \<Rightarrow> 'a list \<Rightarrow> 'e + 's" where
  "rfold f s [] = Inr s"
| "rfold f s (x # xs) = rbind (f s x) (\<lambda>s'. rfold f s' xs)"

text \<open>A loop that computes a new value for each element.\<close>

fun rmap :: "('a \<Rightarrow> 'e + 'b) \<Rightarrow> 'a list \<Rightarrow> 'e + 'b list" where
  "rmap f [] = Inr []"
| "rmap f (x # xs) = rbind (f x) (\<lambda>y. rbind (rmap f xs) (\<lambda>ys. Inr (y # ys)))"

lemma rmap_Inr: "rmap f xs = Inr ys \<longleftrightarrow> list_all2 (\<lambda>x y. f x = Inr y) xs ys"
  by (induction xs arbitrary: ys) (auto simp: res_simps list_all2_Cons1)

lemma rall_eq_Inr [res_simps]: "rall f xs = Inr u \<longleftrightarrow> (\<forall>x \<in> set xs. f x = Inr ())"
  by (induction xs) (auto simp: res_simps)

lemma ok_rall [res_simps]: "ok (rall f xs) \<longleftrightarrow> (\<forall>x \<in> set xs. ok (f x))"
  by (induction xs) (auto simp: res_simps ok_iff)

lemma rall_append: "rall f (xs @ ys) = rbind (rall f xs) (\<lambda>_. rall f ys)"
proof (induction xs)
  case Nil
  show ?case by simp
next
  case (Cons x xs)
  show ?case by (cases "f x") (simp_all add: Cons.IH)
qed

text \<open>The error a failing loop returns is the one of the first element that fails.\<close>

lemma rall_first_error:
  "rall f xs = Inl e \<Longrightarrow>
     \<exists>ys x zs. xs = ys @ x # zs \<and> (\<forall>y \<in> set ys. f y = Inr ()) \<and> f x = Inl e"
proof (induction xs)
  case Nil
  then show ?case by simp
next
  case (Cons a xs)
  show ?case
  proof (cases "f a")
    case (Inl e')
    with Cons.prems show ?thesis by (intro exI [of _ "[]"]) simp
  next
    case (Inr u)
    with Cons obtain ys x zs where
      "xs = ys @ x # zs" "\<forall>y \<in> set ys. f y = Inr ()" "f x = Inl e"
      by auto
    with Inr show ?thesis by (intro exI [of _ "a # ys"]) simp
  qed
qed

lemma rfold_append:
  "rfold f s (xs @ ys) = rbind (rfold f s xs) (\<lambda>s'. rfold f s' ys)"
proof (induction xs arbitrary: s)
  case Nil
  show ?case by simp
next
  case (Cons x xs)
  show ?case by (cases "f s x") (simp_all add: Cons.IH)
qed

text \<open>An invariant kept by the body holds of the loop's result.\<close>

lemma rfold_invariant:
  assumes "rfold f s xs = Inr s'" and "P s"
    and "\<And>s x s'. x \<in> set xs \<Longrightarrow> P s \<Longrightarrow> f s x = Inr s' \<Longrightarrow> P s'"
  shows "P s'"
  using assms
proof (induction xs arbitrary: s)
  case Nil
  then show ?case by simp
next
  case (Cons x xs)
  from Cons.prems(1) obtain t where t: "f s x = Inr t" "rfold f t xs = Inr s'"
    by (auto simp: res_simps)
  have "P t"
    using Cons.prems(2,3) t(1) by auto
  with Cons.IH [OF t(2)] Cons.prems(3) show ?case by auto
qed

section \<open>Lookup by identifier\<close>

text \<open>The first element of a slice whose identifier is the given one.\<close>

definition find_id :: "('a \<Rightarrow> 'k) \<Rightarrow> 'k \<Rightarrow> 'a list \<Rightarrow> 'a option" where
  "find_id f k xs = find (\<lambda>x. f x = k) xs"

lemma find_id_Nil [simp]: "find_id f k [] = None"
  and find_id_Cons [simp]: "find_id f k (x # xs) = (if f x = k then Some x else find_id f k xs)"
  by (simp_all add: find_id_def)

lemma find_id_SomeD: "find_id f k xs = Some x \<Longrightarrow> x \<in> set xs \<and> f x = k"
  by (induction xs) (auto split: if_splits)

lemma find_id_None_iff [lookup_simps]: "find_id f k xs = None \<longleftrightarrow> k \<notin> f ` set xs"
  by (induction xs) (auto split: if_splits)

lemma find_id_Some_iff_mem: "(\<exists>x. find_id f k xs = Some x) \<longleftrightarrow> k \<in> f ` set xs"
  using find_id_None_iff [of f k xs] by (cases "find_id f k xs") auto

lemma find_id_append [lookup_simps]:
  "find_id f k (xs @ ys) = (case find_id f k xs of None \<Rightarrow> find_id f k ys | Some x \<Rightarrow> Some x)"
  by (induction xs) auto

lemma find_id_distinct:
  "distinct (map f xs) \<Longrightarrow> x \<in> set xs \<Longrightarrow> find_id f (f x) xs = Some x"
  by (induction xs) (auto simp: image_iff)

text \<open>Filtering by a predicate that holds of the first match keeps the lookup.\<close>

lemma find_id_filter:
  "find_id f k xs = Some x \<Longrightarrow> P x \<Longrightarrow> find_id f k (filter P xs) = Some x"
  by (induction xs) (auto split: if_splits)

lemma find_id_filter_agree:
  assumes "\<And>x. x \<in> set xs \<Longrightarrow> f x = k \<Longrightarrow> P x"
  shows "find_id f k (filter P xs) = find_id f k xs"
  using assms by (induction xs) auto

lemma find_id_map:
  "(\<And>x. x \<in> set xs \<Longrightarrow> f (g x) = f x) \<Longrightarrow> find_id f k (map g xs) = map_option g (find_id f k xs)"
  by (induction xs) auto

text \<open>The records of a slice as a partial function of their identifier.\<close>

definition by_id :: "('a \<Rightarrow> 'k) \<Rightarrow> 'a list \<Rightarrow> 'k \<Rightarrow> 'a option" where
  "by_id f xs = (\<lambda>k. find_id f k xs)"

lemma dom_by_id: "dom (by_id f xs) = f ` set xs"
  using find_id_Some_iff_mem [of f _ xs] by (auto simp: by_id_def dom_def)

lemma find_id_all2:
  assumes "list_all2 R xs ys" "\<And>x y. R x y \<Longrightarrow> f y = f x"
  shows "rel_option R (find_id f k xs) (find_id f k ys)"
  using assms by (induction rule: list_all2_induct) auto

section \<open>Association lists as Go maps\<close>

text \<open>Reading a Go map of strings: an absent key reads as the empty string.\<close>

definition item :: "('k \<times> string) list \<Rightarrow> 'k \<Rightarrow> string" where
  "item m k = (case map_of m k of None \<Rightarrow> [] | Some v \<Rightarrow> v)"


lemma dom_map_of_update: "dom (map_of (AList.update k v al)) = insert k (dom (map_of al))"
  by (auto simp: update_conv')

lemma map_of_update: "map_of (AList.update k v al) = (map_of al)(k \<mapsto> v)"
  by (simp add: update_conv')

end
