(* ===== verification/GoUtf8.thy ===== *)
theory GoUtf8
  imports Prelude
begin

text \<open>
  Go strings are byte sequences, and so is HOL's \<^typ>\<open>string\<close>: a \<^typ>\<open>char\<close> is a byte.
  The program ranges over strings by rune and encodes them as JSON; both decode UTF-8 with
  package unicode/utf8, which replaces each byte of an invalid sequence by U+FFFD. This theory
  holds that decoder and encoder and proves that they are inverse on Unicode scalar values.
\<close>

section \<open>Decoding and encoding one rune\<close>

abbreviation code :: "char \<Rightarrow> nat" where
  "code \<equiv> of_char"

abbreviation rune_error :: nat where
  "rune_error \<equiv> 65533"

definition cont_byte :: "nat \<Rightarrow> bool" where
  "cont_byte b \<longleftrightarrow> 128 \<le> b \<and> b \<le> 191"

text \<open>The range of the second byte depends on the first (no overlong forms, no surrogates).\<close>

definition second_lo :: "nat \<Rightarrow> nat" where
  "second_lo b = (if b = 224 then 160 else if b = 240 then 144 else 128)"

definition second_hi :: "nat \<Rightarrow> nat" where
  "second_hi b = (if b = 237 then 159 else if b = 244 then 143 else 191)"

text \<open>utf8.DecodeRuneInString: the rune and the number of bytes it takes.\<close>

definition decode_rune :: "string \<Rightarrow> nat \<times> nat" where
  "decode_rune s = (case s of
     [] \<Rightarrow> (rune_error, 0)
   | c0 # s1 \<Rightarrow>
      let b0 = code c0 in
      if b0 < 128 then (b0, 1)
      else if 194 \<le> b0 \<and> b0 \<le> 223 then
        (case s1 of
           c1 # _ \<Rightarrow> (if cont_byte (code c1) then ((b0 - 192) * 64 + (code c1 - 128), 2)
                       else (rune_error, 1))
         | _ \<Rightarrow> (rune_error, 1))
      else if 224 \<le> b0 \<and> b0 \<le> 239 then
        (case s1 of
           c1 # c2 # _ \<Rightarrow>
             (if second_lo b0 \<le> code c1 \<and> code c1 \<le> second_hi b0 \<and> cont_byte (code c2)
              then ((b0 - 224) * 4096 + (code c1 - 128) * 64 + (code c2 - 128), 3)
              else (rune_error, 1))
         | _ \<Rightarrow> (rune_error, 1))
      else if 240 \<le> b0 \<and> b0 \<le> 244 then
        (case s1 of
           c1 # c2 # c3 # _ \<Rightarrow>
             (if second_lo b0 \<le> code c1 \<and> code c1 \<le> second_hi b0
                 \<and> cont_byte (code c2) \<and> cont_byte (code c3)
              then ((b0 - 240) * 262144 + (code c1 - 128) * 4096 + (code c2 - 128) * 64
                      + (code c3 - 128), 4)
              else (rune_error, 1))
         | _ \<Rightarrow> (rune_error, 1))
      else (rune_error, 1))"

text \<open>A Unicode scalar value.\<close>

definition scalar :: "nat \<Rightarrow> bool" where
  "scalar r \<longleftrightarrow> r < 55296 \<or> 57344 \<le> r \<and> r \<le> 1114111"

definition encode_rune :: "nat \<Rightarrow> string" where
  "encode_rune r =
     (if r < 128 then [char_of r]
      else if r < 2048 then [char_of (192 + r div 64), char_of (128 + r mod 64)]
      else if \<not> scalar r then [char_of (239::nat), char_of (191::nat), char_of (189::nat)]
      else if r < 65536 then
        [char_of (224 + r div 4096), char_of (128 + r div 64 mod 64), char_of (128 + r mod 64)]
      else
        [char_of (240 + r div 262144), char_of (128 + r div 4096 mod 64),
         char_of (128 + r div 64 mod 64), char_of (128 + r mod 64)])"

lemma code_less: "code c < 256"
  using of_char_mod_256 [of c, where 'a = nat] by (metis mod_less_divisor zero_less_numeral)

lemma code_char_of [simp]: "code (char_of n) = n mod 256"
  by simp

lemma decode_rune_width: "s \<noteq> [] \<Longrightarrow> 1 \<le> snd (decode_rune s)"
  by (auto simp: decode_rune_def Let_def split: list.splits)

lemma decode_rune_width_le: "snd (decode_rune s) \<le> length s"
  by (auto simp: decode_rune_def Let_def split: list.splits)

lemma encode_rune_nonempty [simp]: "encode_rune r \<noteq> []"
  by (simp add: encode_rune_def)

lemma decode_ascii: "code c < 128 \<Longrightarrow> decode_rune (c # s) = (code c, 1)"
  by (simp add: decode_rune_def)

section \<open>Decoding what was encoded\<close>

text \<open>The bytes an encoding is made of, as numbers below 256.\<close>

lemma low6 [simp]: "cont_byte (128 + r mod 64)"
proof -
  have "r mod 64 < 64" by simp
  then show ?thesis unfolding cont_byte_def by linarith
qed

lemma low6_mod [simp]: "(128 + r mod 64) mod 256 = 128 + r mod (64 :: nat)"
proof -
  have "r mod 64 < 64" by simp
  then show ?thesis by (intro mod_less) linarith
qed

lemma decode_encode_2:
  assumes "128 \<le> r" "r < 2048"
  shows "decode_rune (encode_rune r @ s) = (r, 2)"
proof -
  have a: "(192 + r div 64) mod 256 = 192 + r div 64"
    using assms by simp
  have b: "194 \<le> 192 + r div 64" "192 + r div 64 \<le> 223" "\<not> 192 + r div 64 < 128"
    using assms by auto
  have "r div 64 * 64 + r mod 64 = r" by simp
  then show ?thesis
    using assms a b by (simp add: encode_rune_def decode_rune_def Let_def)
qed

lemma split_64_2: "r div 4096 * 4096 + r div 64 mod 64 * 64 + r mod 64 = (r :: nat)"
proof -
  have "r div 4096 = r div 64 div 64" by (simp add: div_mult2_eq [symmetric])
  then have "r div 4096 * 64 + r div 64 mod 64 = r div 64" by simp
  then have "(r div 4096 * 64 + r div 64 mod 64) * 64 + r mod 64 = r" by simp
  then show ?thesis by (simp add: algebra_simps)
qed

lemma decode_encode_3:
  assumes "2048 \<le> r" "r < 65536" "scalar r"
  shows "decode_rune (encode_rune r @ s) = (r, 3)"
proof -
  let ?q = "r div 4096" and ?m = "r div 64 mod 64"
  have a: "(224 + ?q) mod 256 = 224 + ?q"
    using assms by simp
  have q: "?q \<le> 15" using assms by simp
  have m: "?m < 64" by simp
  have b: "224 \<le> 224 + ?q" "224 + ?q \<le> 239" "\<not> 224 + ?q < 128" "\<not> 224 + ?q \<le> 223"
    using q by auto
  have r: "?q * 4096 + ?m * 64 + r mod 64 = r" by (rule split_64_2)
  have lo: "second_lo (224 + ?q) \<le> 128 + ?m"
  proof (cases "?q = 0")
    case True
    with r have "?m * 64 + r mod 64 = r" by simp
    moreover have "r mod 64 < 64" by simp
    ultimately have "32 \<le> ?m" using assms(1) by linarith
    with True show ?thesis by (simp add: second_lo_def)
  next
    case False
    with q show ?thesis by (simp add: second_lo_def)
  qed
  have hi: "128 + ?m \<le> second_hi (224 + ?q)"
  proof (cases "?q = 13")
    case True
    with r have "53248 + ?m * 64 + r mod 64 = r" by simp
    moreover have "r < 55296"
      using assms(3) True by (auto simp: scalar_def)
    ultimately have "?m < 32" by linarith
    with True show ?thesis by (simp add: second_hi_def)
  next
    case False
    with q m show ?thesis by (simp add: second_hi_def)
  qed
  show ?thesis
    using assms a b r lo hi by (simp add: encode_rune_def decode_rune_def Let_def)
qed

lemma decode_encode_4:
  assumes "65536 \<le> r" "scalar r"
  shows "decode_rune (encode_rune r @ s) = (r, 4)"
proof -
  let ?q = "r div 262144" and ?m = "r div 4096 mod 64" and ?n = "r div 64 mod 64"
  have bound: "r \<le> 1114111" using assms by (auto simp: scalar_def)
  then have q: "?q \<le> 4" by simp
  have a: "(240 + ?q) mod 256 = 240 + ?q" using q by simp
  have m: "?m < 64" by simp
  have b: "\<not> 240 + ?q < 128" "\<not> 240 + ?q \<le> 223" "\<not> 240 + ?q \<le> 239" "240 + ?q \<le> 244"
    using q by auto
  have q64: "?q = r div 4096 div 64" by (simp add: div_mult2_eq [symmetric])
  then have "?q * 64 + ?m = r div 4096" by simp
  then have "(?q * 64 + ?m) * 4096 + ?n * 64 + r mod 64 = r"
    using split_64_2 [of r] by simp
  then have r: "?q * 262144 + ?m * 4096 + ?n * 64 + r mod 64 = r"
    by (simp add: algebra_simps)
  have low: "?n * 64 + r mod 64 < 4096"
  proof -
    have "?n < 64" "r mod 64 < 64" by simp_all
    then show ?thesis by linarith
  qed
  have lo: "second_lo (240 + ?q) \<le> 128 + ?m"
  proof (cases "?q = 0")
    case True
    with r low have "16 \<le> ?m" using assms(1) by linarith
    with True show ?thesis by (simp add: second_lo_def)
  next
    case False
    with q show ?thesis by (simp add: second_lo_def)
  qed
  have hi: "128 + ?m \<le> second_hi (240 + ?q)"
  proof (cases "?q = 4")
    case True
    with r bound have "?m < 16" by linarith
    with True show ?thesis by (simp add: second_hi_def)
  next
    case False
    with q m show ?thesis by (simp add: second_hi_def)
  qed
  show ?thesis
    using assms a b r lo hi by (simp add: encode_rune_def decode_rune_def Let_def)
qed

lemma decode_encode:
  assumes "scalar r"
  shows "decode_rune (encode_rune r @ s) = (r, length (encode_rune r))"
proof -
  consider "r < 128" | "128 \<le> r" "r < 2048" | "2048 \<le> r" "r < 65536" | "65536 \<le> r"
    by linarith
  then show ?thesis
  proof cases
    case 1
    then show ?thesis by (simp add: encode_rune_def decode_rune_def)
  next
    case 2
    then show ?thesis using decode_encode_2 by (simp add: encode_rune_def)
  next
    case 3
    then show ?thesis using decode_encode_3 assms by (simp add: encode_rune_def)
  next
    case 4
    then show ?thesis using decode_encode_4 assms by (simp add: encode_rune_def)
  qed
qed

section \<open>Whole strings\<close>

text \<open>Ranging over a string: each rune with the bytes it was read from.\<close>

function rune_chunks :: "string \<Rightarrow> (nat \<times> string) list" where
  "rune_chunks s =
     (if s = [] then []
      else let w = snd (decode_rune s)
           in (fst (decode_rune s), take w s) # rune_chunks (drop w s))"
  by pat_completeness auto
termination
proof (relation "measure length", simp)
  fix s :: string and w
  assume "s \<noteq> []" and w: "w = snd (decode_rune s)"
  from decode_rune_width [OF this(1)] w \<open>s \<noteq> []\<close> show "(drop w s, s) \<in> measure length"
    by simp
qed

declare rune_chunks.simps [simp del]

lemma rune_chunks_Nil [simp]: "rune_chunks [] = []"
  by (simp add: rune_chunks.simps)

definition runes :: "string \<Rightarrow> nat list" where
  "runes s = map fst (rune_chunks s)"

definition encode_runes :: "nat list \<Rightarrow> string" where
  "encode_runes rs = concat (map encode_rune rs)"

lemma concat_rune_chunks: "concat (map snd (rune_chunks s)) = s"
proof (induction s rule: rune_chunks.induct)
  case (1 s)
  show ?case
  proof (cases "s = []")
    case False
    with 1 show ?thesis
      by (subst rune_chunks.simps) (simp add: Let_def)
  qed simp
qed

lemma rune_chunks_encode:
  "scalar r \<Longrightarrow> rune_chunks (encode_rune r @ s) = (r, encode_rune r) # rune_chunks s"
  by (subst rune_chunks.simps) (simp add: decode_encode Let_def)

lemma rune_chunks_ascii:
  "code c < 128 \<Longrightarrow> rune_chunks (c # s) = (code c, [c]) # rune_chunks s"
  by (subst rune_chunks.simps) (simp add: decode_ascii)

lemma runes_Nil [simp]: "runes [] = []"
  by (simp add: runes_def)

lemma runes_ascii: "code c < 128 \<Longrightarrow> runes (c # s) = code c # runes s"
  by (simp add: runes_def rune_chunks_ascii)

theorem runes_encode_runes: "\<forall>r \<in> set rs. scalar r \<Longrightarrow> runes (encode_runes rs) = rs"
  by (induction rs) (simp_all add: runes_def encode_runes_def rune_chunks_encode)

section \<open>Validity, and the replacement json.Marshal makes\<close>

text \<open>An invalid byte is decoded as U+FFFD of width 1; the encoded U+FFFD has width 3.\<close>

definition utf8_valid :: "string \<Rightarrow> bool" where
  "utf8_valid s = list_all (\<lambda>(r, b). r \<noteq> rune_error \<or> length b \<noteq> 1) (rune_chunks s)"

text \<open>encoding/json writes U+FFFD for each invalid byte of a string.\<close>

definition to_valid :: "string \<Rightarrow> string" where
  "to_valid s = encode_runes (runes s)"

lemma cont_code_char_of:
  "cont_byte (code c) \<Longrightarrow> char_of (128 + (code c - 128)) = c"
  by (simp add: cont_byte_def)

lemma char_of_code_plus: "k \<le> code c \<Longrightarrow> char_of (k + (code c - k)) = c"
  by simp

lemma decode_scalar: "scalar (fst (decode_rune s))"
proof -
  have "rune_error < 1114111" by simp
  show ?thesis
    by (auto simp: decode_rune_def Let_def scalar_def cont_byte_def second_lo_def second_hi_def
        split: list.splits if_splits)
qed

lemma runes_scalar: "r \<in> set (runes s) \<Longrightarrow> scalar r"
proof (induction s rule: rune_chunks.induct)
  case (1 s)
  show ?case
  proof (cases "s = []")
    case False
    with 1 show ?thesis
      by (auto simp: runes_def decode_scalar Let_def rune_chunks.simps [of s])
  qed (use 1 in \<open>simp add: runes_def\<close>)
qed

lemma runes_to_valid: "runes (to_valid s) = runes s"
  unfolding to_valid_def by (rule runes_encode_runes) (simp add: runes_scalar)

theorem to_valid_idem: "to_valid (to_valid s) = to_valid s"
  by (simp add: to_valid_def [of "to_valid s"] runes_to_valid) (simp add: to_valid_def)


section \<open>Encoding what was decoded\<close>

lemma six_bits:
  fixes a x :: nat
  assumes "x < 64"
  shows "(a * 64 + x) div 64 = a" "(a * 64 + x) mod 64 = x"
  using assms by simp_all

lemma encode_decode_2:
  assumes "194 \<le> b0" "b0 \<le> 223" "cont_byte b1"
  shows "encode_rune ((b0 - 192) * 64 + (b1 - 128)) = [char_of b0, char_of (b1 :: nat)]"
proof -
  let ?r = "(b0 - 192) * 64 + (b1 - 128)"
  have x: "b1 - 128 < 64" "128 + (b1 - 128) = b1" using assms by (auto simp: cont_byte_def)
  have "\<not> ?r < 128" "?r < 2048" using assms x by auto
  moreover have "?r div 64 = b0 - 192" "?r mod 64 = b1 - 128" by (simp_all only: six_bits [OF x(1)])
  ultimately show ?thesis using assms x by (simp add: encode_rune_def)
qed

lemma encode_decode_3:
  assumes "224 \<le> b0" "b0 \<le> 239" "second_lo b0 \<le> b1" "b1 \<le> second_hi b0" "cont_byte b2"
  shows "encode_rune ((b0 - 224) * 4096 + (b1 - 128) * 64 + (b2 - 128))
       = [char_of b0, char_of b1, char_of (b2 :: nat)]"
proof -
  let ?r = "(b0 - 224) * 4096 + (b1 - 128) * 64 + (b2 - 128)"
  let ?h = "(b0 - 224) * 64 + (b1 - 128)"
  have b1: "128 \<le> b1" "b1 \<le> 191"
    using assms(3,4) by (auto simp: second_lo_def second_hi_def split: if_splits)
  have x: "b2 - 128 < 64" "128 + (b2 - 128) = b2" using assms by (auto simp: cont_byte_def)
  have y: "b1 - 128 < 64" "128 + (b1 - 128) = b1" using b1 by auto
  have r: "?r = ?h * 64 + (b2 - 128)" by (simp add: algebra_simps)
  have d: "?r div 64 = ?h" "?r mod 64 = b2 - 128" by (simp_all only: r six_bits [OF x(1)])
  have "?r div 4096 = ?r div 64 div 64" by (simp add: div_mult2_eq [symmetric])
  also have "\<dots> = b0 - 224" by (simp only: d six_bits [OF y(1)])
  finally have e: "?r div 4096 = b0 - 224" .
  have f: "?h mod 64 = b1 - 128" by (simp only: six_bits [OF y(1)])
  have "32 \<le> ?h"
    using assms(1,3) y by (cases "b0 = 224") (auto simp: second_lo_def)
  then have ge: "\<not> ?r < 2048" using r by linarith
  have lt: "?r < 65536" using assms(2) x y by linarith
  have sc: "scalar ?r"
  proof (cases "b0 \<le> 237")
    case True
    then have "?r < 55296 \<or> 237 = b0 \<and> b1 \<le> 159"
      using assms(4) x y by (cases "b0 = 237") (auto simp: second_hi_def)
    moreover have "?r < 55296" if "237 = b0" "b1 \<le> 159" using that x y by linarith
    ultimately show ?thesis by (auto simp: scalar_def)
  next
    case False
    then have "14 \<le> b0 - 224" by simp
    then have "57344 \<le> ?r" by linarith
    with lt show ?thesis by (simp add: scalar_def)
  qed
  have "\<not> ?r < 128" using ge by linarith
  then have "encode_rune ?r = [char_of (224 + ?r div 4096), char_of (128 + ?r div 64 mod 64),
      char_of (128 + ?r mod 64)]"
    using ge lt sc by (simp only: encode_rune_def if_False if_True not_True_eq_False)
  also have "\<dots> = [char_of b0, char_of b1, char_of b2]"
    using assms(1) x y by (simp only: e d f) simp
  finally show ?thesis .
qed

lemma encode_decode_4:
  assumes "240 \<le> b0" "b0 \<le> 244" "second_lo b0 \<le> b1" "b1 \<le> second_hi b0"
    "cont_byte b2" "cont_byte b3"
  shows "encode_rune ((b0 - 240) * 262144 + (b1 - 128) * 4096 + (b2 - 128) * 64 + (b3 - 128))
       = [char_of b0, char_of b1, char_of b2, char_of (b3 :: nat)]"
proof -
  let ?r = "(b0 - 240) * 262144 + (b1 - 128) * 4096 + (b2 - 128) * 64 + (b3 - 128)"
  let ?g = "(b0 - 240) * 64 + (b1 - 128)"
  let ?h = "?g * 64 + (b2 - 128)"
  have b1: "128 \<le> b1" "b1 \<le> 191"
    using assms(3,4) by (auto simp: second_lo_def second_hi_def split: if_splits)
  have x: "b3 - 128 < 64" "128 + (b3 - 128) = b3" using assms by (auto simp: cont_byte_def)
  have y: "b2 - 128 < 64" "128 + (b2 - 128) = b2" using assms by (auto simp: cont_byte_def)
  have z: "b1 - 128 < 64" "128 + (b1 - 128) = b1" using b1 by auto
  have r: "?r = ?h * 64 + (b3 - 128)" by (simp add: algebra_simps)
  have d: "?r div 64 = ?h" "?r mod 64 = b3 - 128" by (simp_all only: r six_bits [OF x(1)])
  have "?r div 4096 = ?r div 64 div 64" by (simp add: div_mult2_eq [symmetric])
  also have "\<dots> = ?g" by (simp only: d six_bits [OF y(1)])
  finally have e: "?r div 4096 = ?g" .
  have "?r div 262144 = ?r div 4096 div 64" by (simp add: div_mult2_eq [symmetric])
  also have "\<dots> = b0 - 240" by (simp only: e six_bits [OF z(1)])
  finally have e': "?r div 262144 = b0 - 240" .
  have f: "?h mod 64 = b2 - 128" "?g mod 64 = b1 - 128"
    by (simp_all only: six_bits [OF y(1)] six_bits [OF z(1)])
  have "16 \<le> ?g"
    using assms(1,3) z by (cases "b0 = 240") (auto simp: second_lo_def)
  then have "16 * 64 * 64 \<le> ?r" using r by linarith
  then have ge: "\<not> ?r < 128" "\<not> ?r < 2048" "\<not> ?r < 65536" by linarith+
  have "?r \<le> 1114111"
  proof (cases "b0 = 244")
    case True
    then have "b1 \<le> 143" using assms(4) by (simp add: second_hi_def)
    with True x y z show ?thesis by linarith
  next
    case False
    then have "b0 - 240 \<le> 3" using assms(2) by simp
    with x y z show ?thesis by linarith
  qed
  then have sc: "scalar ?r" using ge by (auto simp: scalar_def)
  have "encode_rune ?r = [char_of (240 + ?r div 262144), char_of (128 + ?r div 4096 mod 64),
      char_of (128 + ?r div 64 mod 64), char_of (128 + ?r mod 64)]"
    using ge sc by (simp only: encode_rune_def if_False if_True not_True_eq_False)
  also have "\<dots> = [char_of b0, char_of b1, char_of b2, char_of b3]"
    using assms(1) x y z by (simp only: e e' d f) simp
  finally show ?thesis .
qed

lemma encode_decode:
  assumes "s \<noteq> []" and good: "\<not> (fst (decode_rune s) = rune_error \<and> snd (decode_rune s) = 1)"
  shows "encode_rune (fst (decode_rune s)) = take (snd (decode_rune s)) s"
proof -
  obtain c0 s1 where s: "s = c0 # s1" using assms(1) by (cases s) auto
  let ?b0 = "code c0"
  consider (one) "?b0 < 128" | (two) "194 \<le> ?b0" "?b0 \<le> 223"
    | (three) "224 \<le> ?b0" "?b0 \<le> 239" | (four) "240 \<le> ?b0" "?b0 \<le> 244"
    | (bad) "\<not> ?b0 < 128" "?b0 < 194 \<or> 244 < ?b0"
    by linarith
  then show ?thesis
  proof cases
    case one
    then show ?thesis by (simp add: s decode_ascii encode_rune_def)
  next
    case two
    with good obtain c1 s2 where "s1 = c1 # s2" "cont_byte (code c1)"
      by (auto simp: s decode_rune_def Let_def split: list.splits if_splits)
    with two show ?thesis
      using encode_decode_2 [OF two, of "code c1"] by (simp add: s decode_rune_def Let_def)
  next
    case three
    with good obtain c1 c2 s3 where s1: "s1 = c1 # c2 # s3" and
      c: "second_lo ?b0 \<le> code c1" "code c1 \<le> second_hi ?b0" "cont_byte (code c2)"
      by (auto simp: s decode_rune_def Let_def split: list.splits if_splits)
    with three show ?thesis
      using encode_decode_3 [OF three c] by (simp add: s decode_rune_def Let_def)
  next
    case four
    with good obtain c1 c2 c3 s4 where s1: "s1 = c1 # c2 # c3 # s4" and
      c: "second_lo ?b0 \<le> code c1" "code c1 \<le> second_hi ?b0" "cont_byte (code c2)"
        "cont_byte (code c3)"
      by (auto simp: s decode_rune_def Let_def split: list.splits if_splits)
    with four show ?thesis
      using encode_decode_4 [OF four c] by (simp add: s decode_rune_def Let_def)
  next
    case bad
    with good have False by (auto simp: s decode_rune_def Let_def)
    then show ?thesis ..
  qed
qed

theorem to_valid_id: "utf8_valid s \<Longrightarrow> to_valid s = s"
proof (induction s rule: rune_chunks.induct)
  case (1 s)
  show ?case
  proof (cases "s = []")
    case False
    let ?w = "snd (decode_rune s)"
    have ch: "rune_chunks s = (fst (decode_rune s), take ?w s) # rune_chunks (drop ?w s)"
      using False by (subst rune_chunks.simps) (simp add: Let_def)
    have "length (take ?w s) = ?w"
      using decode_rune_width_le [of s] by simp
    then have good: "\<not> (fst (decode_rune s) = rune_error \<and> ?w = 1)"
      and rest: "utf8_valid (drop ?w s)"
      using 1(2) by (auto simp: utf8_valid_def ch)
    have "to_valid s = encode_rune (fst (decode_rune s)) @ to_valid (drop ?w s)"
      by (simp add: to_valid_def encode_runes_def runes_def ch)
    also have "\<dots> = take ?w s @ drop ?w s"
      using encode_decode [OF False good] 1(1) [OF False refl rest] by simp
    finally show ?thesis by simp
  qed (simp add: to_valid_def encode_runes_def)
qed

lemma utf8_valid_encode: "scalar r \<Longrightarrow> utf8_valid (encode_rune r @ s) = utf8_valid s"
proof -
  assume "scalar r"
  moreover have "r = rune_error \<Longrightarrow> length (encode_rune r) = 3"
    by (simp add: encode_rune_def scalar_def)
  ultimately show ?thesis by (auto simp: utf8_valid_def rune_chunks_encode)
qed

lemma utf8_valid_Nil [simp]: "utf8_valid []"
  by (simp add: utf8_valid_def)

lemma utf8_valid_encode_runes: "\<forall>r \<in> set rs. scalar r \<Longrightarrow> utf8_valid (encode_runes rs)"
  by (induction rs) (simp_all add: encode_runes_def utf8_valid_encode)

lemma utf8_valid_to_valid: "utf8_valid (to_valid s)"
  unfolding to_valid_def by (rule utf8_valid_encode_runes) (simp add: runes_scalar)

theorem to_valid_fixpoint: "to_valid s = s \<longleftrightarrow> utf8_valid s"
  using to_valid_id utf8_valid_to_valid by metis

text \<open>ASCII strings are valid, and their runes are their bytes.\<close>

definition ascii :: "string \<Rightarrow> bool" where
  "ascii s = list_all (\<lambda>c. code c < 128) s"

lemma ascii_simps [simp]:
  "ascii []"
  "ascii (c # s) \<longleftrightarrow> code c < 128 \<and> ascii s"
  "ascii (s @ t) \<longleftrightarrow> ascii s \<and> ascii t"
  by (simp_all add: ascii_def)

lemma rune_chunks_of_ascii: "ascii s \<Longrightarrow> rune_chunks s = map (\<lambda>c. (code c, [c])) s"
  by (induction s) (simp_all add: rune_chunks_ascii)

lemma utf8_valid_ascii: "ascii s \<Longrightarrow> utf8_valid s"
  by (auto simp: utf8_valid_def rune_chunks_of_ascii list_all_iff ascii_def)

lemma runes_of_ascii: "ascii s \<Longrightarrow> runes s = map code s"
  by (simp add: runes_def rune_chunks_of_ascii o_def)

lemma utf8_valid_append: "utf8_valid a \<Longrightarrow> utf8_valid b \<Longrightarrow> utf8_valid (a @ b)"
proof -
  assume "utf8_valid a" "utf8_valid b"
  then have "a = to_valid a" "b = to_valid b" by (simp_all add: to_valid_id)
  then have "a @ b = encode_runes (runes a @ runes b)"
    by (simp add: to_valid_def encode_runes_def)
  moreover have "utf8_valid (encode_runes (runes a @ runes b))"
    by (rule utf8_valid_encode_runes) (auto simp: runes_scalar)
  ultimately show ?thesis by simp
qed

end
