(* ===== verification/GoStrings.thy ===== *)
theory GoStrings
  imports GoUtf8
begin

text \<open>
  The functions of Go's packages strings, strconv, encoding/hex and net that the program
  calls, as executable definitions on byte strings, with the facts the components use.
  \<open>strings.ToLower\<close> takes Unicode's case table for non-ASCII runes as a parameter.
\<close>

section \<open>Package strings\<close>

definition HasPrefix :: "string \<Rightarrow> string \<Rightarrow> bool" where
  "HasPrefix s p \<longleftrightarrow> take (length p) s = p"

definition TrimPrefix :: "string \<Rightarrow> string \<Rightarrow> string" where
  "TrimPrefix s p = (if HasPrefix s p then drop (length p) s else s)"

text \<open>\<open>strings.ContainsAny\<close>, called by the program with ASCII characters only.\<close>

definition ContainsAny :: "string \<Rightarrow> string \<Rightarrow> bool" where
  "ContainsAny s cs = list_ex (\<lambda>c. c \<in> set cs) s"

fun Contains :: "string \<Rightarrow> string \<Rightarrow> bool" where
  "Contains [] p \<longleftrightarrow> p = []"
| "Contains (c # s) p \<longleftrightarrow> HasPrefix (c # s) p \<or> Contains s p"

text \<open>unicode.IsSpace\<close>

definition IsSpace :: "nat \<Rightarrow> bool" where
  "IsSpace r \<longleftrightarrow> 9 \<le> r \<and> r \<le> 13 \<or> r \<in> set [32, 133, 160, 5760, 8232, 8233, 8239, 8287, 12288]
     \<or> 8192 \<le> r \<and> r \<le> 8202"

definition TrimSpace :: "string \<Rightarrow> string" where
  "TrimSpace s =
     (let sp = (\<lambda>(r, b). IsSpace r);
          left = dropWhile sp (rune_chunks s)
      in concat (map snd (rev (dropWhile sp (rev left)))))"

definition lower_ascii :: "nat \<Rightarrow> nat" where
  "lower_ascii r = (if 65 \<le> r \<and> r \<le> 90 then r + 32 else r)"

text \<open>\<open>unicode.ToLower\<close>: \<open>ul\<close> is the case table above ASCII.\<close>

definition lower_rune :: "(nat \<Rightarrow> nat) \<Rightarrow> nat \<Rightarrow> nat" where
  "lower_rune ul r = (if r < 128 then lower_ascii r else ul r)"

definition ToLower :: "(nat \<Rightarrow> nat) \<Rightarrow> string \<Rightarrow> string" where
  "ToLower ul s =
     (if ascii s then map (\<lambda>c. char_of (lower_ascii (code c))) s
      else encode_runes (map (lower_rune ul) (runes s)))"

text \<open>\<open>strings.Split\<close> with a separator of one byte; \<open>strings.Join\<close>.\<close>

fun Split :: "char \<Rightarrow> string \<Rightarrow> string list" where
  "Split c [] = [[]]"
| "Split c (x # s) =
     (if x = c then [] # Split c s
      else (case Split c s of [] \<Rightarrow> [[x]] | w # ws \<Rightarrow> (x # w) # ws))"

fun Join :: "string \<Rightarrow> string list \<Rightarrow> string" where
  "Join sep [] = []"
| "Join sep [w] = w"
| "Join sep (w # ws) = w @ sep @ Join sep ws"

text \<open>\<open>strings.ReplaceAll\<close> of one byte.\<close>

definition ReplaceByte :: "char \<Rightarrow> string \<Rightarrow> string \<Rightarrow> string" where
  "ReplaceByte c new s = concat (map (\<lambda>x. if x = c then new else [x]) s)"

section \<open>Package strconv\<close>

definition is_digit :: "char \<Rightarrow> bool" where
  "is_digit c \<longleftrightarrow> 48 \<le> code c \<and> code c \<le> 57"

fun nat_digits :: "nat \<Rightarrow> string" where
  "nat_digits n = (if n < 10 then [char_of (48 + n)]
     else nat_digits (n div 10) @ [char_of (48 + n mod 10)])"

declare nat_digits.simps [simp del]

definition Itoa :: "int \<Rightarrow> string" where
  "Itoa i = (if i < 0 then CHR ''-'' # nat_digits (nat (- i)) else nat_digits (nat i))"

fun read_digits :: "nat \<Rightarrow> string \<Rightarrow> nat option" where
  "read_digits n [] = Some n"
| "read_digits n (c # s) = (if is_digit c then read_digits (10 * n + (code c - 48)) s else None)"

text \<open>\<open>strconv.Atoi\<close>: an optional sign, decimal digits, within 64 bits.\<close>

definition Atoi :: "string \<Rightarrow> int option" where
  "Atoi s =
     (let neg = HasPrefix s ''-'';
          t = (if neg \<or> HasPrefix s ''+'' then drop 1 s else s)
      in if t = [] then None
         else (case read_digits 0 t of
             None \<Rightarrow> None
           | Some n \<Rightarrow>
               let i = (if neg then - int n else int n)
               in if - (2 ^ 63) \<le> i \<and> i < 2 ^ 63 then Some i else None))"

section \<open>Package encoding/hex\<close>

definition hex_digit :: "nat \<Rightarrow> char" where
  "hex_digit n = (if n < 10 then char_of (48 + n) else char_of (87 + n))"

definition EncodeToString :: "string \<Rightarrow> string" where
  "EncodeToString b = concat (map (\<lambda>c. [hex_digit (code c div 16), hex_digit (code c mod 16)]) b)"

definition hex_value :: "char \<Rightarrow> nat option" where
  "hex_value c =
     (let n = code c in
      if 48 \<le> n \<and> n \<le> 57 then Some (n - 48)
      else if 97 \<le> n \<and> n \<le> 102 then Some (n - 87)
      else if 65 \<le> n \<and> n \<le> 70 then Some (n - 55)
      else None)"

fun DecodeString :: "string \<Rightarrow> string option" where
  "DecodeString [] = Some []"
| "DecodeString [c] = None"
| "DecodeString (c # d # s) =
     (case (hex_value c, hex_value d, DecodeString s) of
        (Some h, Some l, Some b) \<Rightarrow> Some (char_of (h * 16 + l) # b)
      | _ \<Rightarrow> None)"

section \<open>Package net\<close>

definition JoinHostPort :: "string \<Rightarrow> string \<Rightarrow> string" where
  "JoinHostPort h p = (if CHR '':'' \<in> set h then ''['' @ h @ '']:'' @ p else h @ '':'' @ p)"

text \<open>
  \<open>net.ParseIP\<close>: an address is its 16 bytes, an IPv4 address in its IPv6-mapped form. An
  address with a zone is refused.
\<close>

type_synonym ip = "nat list"

fun ipv4_fields :: "string \<Rightarrow> nat \<Rightarrow> nat \<Rightarrow> nat list \<Rightarrow> bool \<Rightarrow> nat list option" where
  "ipv4_fields [] v len fields dot = (if length fields < 3 then None else Some (fields @ [v]))"
| "ipv4_fields (c # s) v len fields dot =
     (if is_digit c then
        (if len = 1 \<and> v = 0 then None
         else let v' = v * 10 + (code c - 48)
              in if v' > 255 then None else ipv4_fields s v' (Suc len) fields False)
      else if c = CHR ''.'' then
        (if dot \<or> s = [] then None
         else if length fields = 3 then None
         else ipv4_fields s 0 0 (fields @ [v]) True)
      else None)"

definition parse_ipv4 :: "string \<Rightarrow> nat list option" where
  "parse_ipv4 s = ipv4_fields s 0 0 [] True"

definition is_hex :: "char \<Rightarrow> bool" where
  "is_hex c \<longleftrightarrow> hex_value c \<noteq> None"

definition hex_number :: "string \<Rightarrow> nat" where
  "hex_number s = fold (\<lambda>c n. n * 16 + (case hex_value c of Some d \<Rightarrow> d | None \<Rightarrow> 0)) s 0"

text \<open>One hexadecimal group after another; the result is the bytes, the position of \<open>::\<close> and
  what is left of the input.\<close>

function ipv6_groups ::
  "string \<Rightarrow> nat list \<Rightarrow> nat option \<Rightarrow> (nat list \<times> nat option \<times> string) option" where
  "ipv6_groups s b ell =
     (if 16 \<le> length b then Some (b, ell, s)
      else
        let h = takeWhile is_hex s; r = dropWhile is_hex s; v = hex_number h in
        if h = [] \<or> 4 < length h then None
        else if HasPrefix r ''.'' then
          (if ell = None \<and> length b \<noteq> 12 \<or> 16 < length b + 4 then None
           else (case parse_ipv4 s of None \<Rightarrow> None | Some f \<Rightarrow> Some (b @ f, ell, [])))
        else
          let b' = b @ [v div 256, v mod 256] in
          (case r of
             [] \<Rightarrow> Some (b', ell, [])
           | c # t \<Rightarrow>
               if c \<noteq> CHR '':'' \<or> t = [] then None
               else if hd t = CHR '':'' then
                 (if ell \<noteq> None then None
                  else if tl t = [] then Some (b', Some (length b'), [])
                  else ipv6_groups (tl t) b' (Some (length b')))
               else ipv6_groups t b' ell))"
  by pat_completeness auto
termination
proof (relation "measure (\<lambda>(s, _, _). length s)", simp, goal_cases)
  case (1 s b ell h r v b' c t)
  then have "length (c # t) \<le> length s" by (metis length_dropWhile_le)
  then show ?case using 1 by (cases t) auto
next
  case (2 s b ell h r v b' c t)
  then have "length (c # t) \<le> length s" by (metis length_dropWhile_le)
  then show ?case by simp
qed

declare ipv6_groups.simps [simp del]

definition parse_ipv6 :: "string \<Rightarrow> nat list option" where
  "parse_ipv6 s =
     (let lead = HasPrefix s ''::''; t = (if lead then drop 2 s else s) in
      if lead \<and> t = [] then Some (replicate 16 0)
      else case ipv6_groups t [] (if lead then Some 0 else None) of
          None \<Rightarrow> None
        | Some (b, ell, rest) \<Rightarrow>
            if rest \<noteq> [] then None
            else if length b < 16 then
              (case ell of None \<Rightarrow> None
               | Some e \<Rightarrow> Some (take e b @ replicate (16 - length b) 0 @ drop e b))
            else if ell \<noteq> None then None else Some b)"

definition v4_in_6 :: "nat list \<Rightarrow> ip" where
  "v4_in_6 f = replicate 10 0 @ [255, 255] @ f"

definition ParseIP :: "string \<Rightarrow> ip option" where
  "ParseIP s =
     (case find (\<lambda>c. c \<in> set ''.:%'') s of
        None \<Rightarrow> None
      | Some c \<Rightarrow>
          if c = CHR ''.'' then map_option v4_in_6 (parse_ipv4 s)
          else if c = CHR '':'' \<and> CHR ''%'' \<notin> set s then parse_ipv6 s
          else None)"

definition To4 :: "ip \<Rightarrow> nat list option" where
  "To4 b = (if length b = 16 \<and> take 10 b = replicate 10 0 \<and> b ! 10 = 255 \<and> b ! 11 = 255
            then Some (drop 12 b) else None)"

definition IsLoopback :: "ip \<Rightarrow> bool" where
  "IsLoopback b = (case To4 b of Some f \<Rightarrow> hd f = 127 | None \<Rightarrow> b = replicate 15 0 @ [1])"

definition IsPrivate :: "ip \<Rightarrow> bool" where
  "IsPrivate b =
     (case To4 b of
        Some f \<Rightarrow> f ! 0 = 10 \<or> f ! 0 = 172 \<and> f ! 1 div 16 = 1 \<or> f ! 0 = 192 \<and> f ! 1 = 168
      | None \<Rightarrow> length b = 16 \<and> b ! 0 div 2 = 126)"

definition IsLinkLocalUnicast :: "ip \<Rightarrow> bool" where
  "IsLinkLocalUnicast b =
     (case To4 b of
        Some f \<Rightarrow> f ! 0 = 169 \<and> f ! 1 = 254
      | None \<Rightarrow> length b = 16 \<and> b ! 0 = 254 \<and> b ! 1 div 64 = 2)"

section \<open>Facts\<close>

lemma HasPrefix_append [simp]: "HasPrefix (p @ s) p"
  by (simp add: HasPrefix_def)

lemma TrimPrefix_append [simp]: "TrimPrefix (p @ s) p = s"
  by (simp add: TrimPrefix_def)

lemma HasPrefix_iff: "HasPrefix s p \<longleftrightarrow> (\<exists>t. s = p @ t)"
  unfolding HasPrefix_def by (metis append_eq_conv_conj append_take_drop_id)

lemma ContainsAny_simps [simp]:
  "\<not> ContainsAny [] cs"
  "ContainsAny (c # s) cs \<longleftrightarrow> c \<in> set cs \<or> ContainsAny s cs"
  "ContainsAny (s @ t) cs \<longleftrightarrow> ContainsAny s cs \<or> ContainsAny t cs"
  by (simp_all add: ContainsAny_def)

lemma ContainsAny_iff: "ContainsAny s cs \<longleftrightarrow> set s \<inter> set cs \<noteq> {}"
  by (auto simp: ContainsAny_def list_ex_iff)

lemma Split_nonempty [simp]: "Split c s \<noteq> []"
  by (induction s) (auto split: list.splits)

lemma Join_Split: "Join [c] (Split c s) = s"
proof (induction s)
  case (Cons x s)
  obtain w ws where "Split c s = w # ws" by (cases "Split c s") auto
  with Cons show ?case by (cases ws) auto
qed simp

lemma nat_digits_digits: "\<forall>c \<in> set (nat_digits n). is_digit c"
proof (induction n rule: nat_digits.induct)
  case (1 n)
  have "is_digit (char_of (48 + n mod 10))"
  proof -
    have "n mod 10 < 10" by simp
    then have "48 + n mod 10 \<le> 57" "(48 + n mod 10) mod 256 = 48 + n mod 10" by simp_all
    then show ?thesis by (simp add: is_digit_def)
  qed
  moreover have "n < 10 \<Longrightarrow> is_digit (char_of (48 + n))" by (simp add: is_digit_def)
  ultimately show ?case using 1 by (subst nat_digits.simps) auto
qed

lemma nat_digits_nonempty [simp]: "nat_digits n \<noteq> []"
  by (subst nat_digits.simps) simp

lemma read_digits_append:
  "read_digits n (s @ t) = (case read_digits n s of None \<Rightarrow> None | Some m \<Rightarrow> read_digits m t)"
  by (induction s arbitrary: n) auto

lemma read_nat_digits: "read_digits 0 (nat_digits n) = Some n"
proof (induction n rule: nat_digits.induct)
  case (1 n)
  have m: "n mod 10 < 10" by simp
  then have c: "(48 + n mod 10) mod 256 = 48 + n mod 10" by simp
  show ?case
  proof (cases "n < 10")
    case True
    then show ?thesis by (subst nat_digits.simps) (simp add: is_digit_def)
  next
    case False
    have "is_digit (char_of (48 + n mod 10))" using m c by (simp add: is_digit_def)
    moreover have "10 * (n div 10) + n mod 10 = n" by simp
    ultimately show ?thesis
      using 1 False c by (subst nat_digits.simps) (simp add: read_digits_append)
  qed
qed

lemma digit_not_sign: "is_digit c \<Longrightarrow> c \<noteq> CHR ''-'' \<and> c \<noteq> CHR ''+''"
  by (auto simp: is_digit_def)

theorem Atoi_Itoa:
  assumes "- (2 ^ 63) \<le> i" "i < 2 ^ 63"
  shows "Atoi (Itoa i) = Some i"
proof -
  obtain d ds where n: "nat_digits (nat \<bar>i\<bar>) = d # ds" by (cases "nat_digits (nat \<bar>i\<bar>)") auto
  then have "is_digit d" using nat_digits_digits [of "nat \<bar>i\<bar>"] by simp
  then have d: "d \<noteq> CHR ''-''" "d \<noteq> CHR ''+''" using digit_not_sign by auto
  have "read_digits 0 (d # ds) = Some (nat \<bar>i\<bar>)" using read_nat_digits [of "nat \<bar>i\<bar>"] n by simp
  with d n assms show ?thesis
    by (cases "i < 0") (auto simp: Atoi_def Itoa_def HasPrefix_def Let_def)
qed

lemma hex_value_digit: "n < 16 \<Longrightarrow> hex_value (hex_digit n) = Some n"
  by (simp add: hex_value_def hex_digit_def Let_def)

theorem Decode_Encode_hex: "DecodeString (EncodeToString b) = Some b"
proof (induction b)
  case (Cons c b)
  have "code c < 256" by (rule code_less)
  then have "code c div 16 < 16" by (simp add: less_mult_imp_div_less)
  moreover have "char_of (code c div 16 * 16 + code c mod 16) = c" by simp
  ultimately show ?case
    using Cons by (simp add: EncodeToString_def hex_value_digit)
qed (simp add: EncodeToString_def)

lemma length_EncodeToString: "length (EncodeToString b) = 2 * length b"
  by (induction b) (simp_all add: EncodeToString_def)

lemma EncodeToString_append: "EncodeToString (a @ b) = EncodeToString a @ EncodeToString b"
  by (simp add: EncodeToString_def)

lemma nat_digits_inj: "nat_digits m = nat_digits n \<longleftrightarrow> m = n"
  using read_nat_digits by (metis option.inject)

end
