(* ===== verification/GoPath.thy ===== *)
theory GoPath
  imports GoStrings
begin

text \<open>
  Package path's glob matcher, used for the patterns of ssh config \<open>Host\<close> lines, and the
  lexical functions of path/filepath on a Unix system. What the program relies on of
  path/filepath is the interface \<open>file_paths\<close>; its Unix instance is interpreted here.
\<close>

section \<open>path.Match\<close>

text \<open>
  A character (possibly escaped) of a character class. None is ErrBadPattern; the rest of a
  chunk that ends inside a class is an error too.
\<close>

definition get_esc :: "string \<Rightarrow> (nat \<times> string) option" where
  "get_esc chunk =
     (if chunk = [] \<or> hd chunk = CHR ''-'' \<or> hd chunk = CHR '']'' then None
      else
        let c = (if hd chunk = CHR 0x5C then tl chunk else chunk) in
        if c = [] then None
        else
          let r = fst (decode_rune c); n = snd (decode_rune c); rest = drop n c in
          if r = rune_error \<and> n = 1 \<or> rest = [] then None else Some (r, rest))"

lemma get_esc_length: "get_esc s = Some (r, t) \<Longrightarrow> length t < length s \<and> t \<noteq> []"
proof -
  assume a: "get_esc s = Some (r, t)"
  define c where "c = (if hd s = CHR 0x5C then tl s else s)"
  from a have s: "s \<noteq> []" "c \<noteq> []" "t = drop (snd (decode_rune c)) c" "t \<noteq> []"
    by (auto simp: get_esc_def Let_def c_def split: if_splits)
  moreover have "length c \<le> length s" by (auto simp: c_def)
  moreover have "1 \<le> snd (decode_rune c)" using s(2) by (rule decode_rune_width)
  ultimately show ?thesis by (cases c) auto
qed

text \<open>The ranges of a class up to its closing bracket: the rest, and whether \<open>r\<close> is in one.\<close>

function class_ranges :: "string \<Rightarrow> nat \<Rightarrow> nat \<Rightarrow> bool \<Rightarrow> (string \<times> bool) option" where
  "class_ranges chunk r nrange found =
     (if chunk \<noteq> [] \<and> hd chunk = CHR '']'' \<and> 0 < nrange then Some (tl chunk, found)
      else (case get_esc chunk of
          None \<Rightarrow> None
        | Some (lo, rest) \<Rightarrow>
            (if hd rest = CHR ''-'' then
               (case get_esc (tl rest) of
                  None \<Rightarrow> None
                | Some (hi, rest') \<Rightarrow> class_ranges rest' r (Suc nrange) (found \<or> lo \<le> r \<and> r \<le> hi))
             else class_ranges rest r (Suc nrange) (found \<or> lo \<le> r \<and> r \<le> lo))))"
  by pat_completeness auto
termination
  by (relation "measure (\<lambda>(chunk, _). length chunk)") (fastforce dest!: get_esc_length)+

declare class_ranges.simps [simp del]

lemma class_ranges_length:
  "class_ranges chunk r n b = Some (rest, m) \<Longrightarrow> length rest < length chunk"
proof (induction chunk r n b rule: class_ranges.induct)
  case (1 chunk r n b)
  show ?case
  proof (cases "chunk \<noteq> [] \<and> hd chunk = CHR '']'' \<and> 0 < n")
    case True
    with "1.prems" have "rest = tl chunk" by (simp add: class_ranges.simps [of chunk])
    with True show ?thesis by (cases chunk) auto
  next
    case False
    then obtain lo t where e: "get_esc chunk = Some (lo, t)"
      using "1.prems" by (auto simp: class_ranges.simps [of chunk] split: option.splits)
    note len = get_esc_length [OF e]
    show ?thesis
    proof (cases "hd t = CHR ''-''")
      case True
      then obtain hi t' where e': "get_esc (tl t) = Some (hi, t')"
        and rec: "class_ranges t' r (Suc n) (b \<or> lo \<le> r \<and> r \<le> hi) = Some (rest, m)"
        using "1.prems" False e by (auto simp: class_ranges.simps [of chunk] split: option.splits)
      have "length rest < length t'" by (rule "1.IH"(1) [OF False e refl True e' refl rec])
      moreover have "length t' < length (tl t)" using get_esc_length [OF e'] by blast
      ultimately have "length rest < length t - 1" by simp
      with len show ?thesis by arith
    next
      case nodash: False
      then have rec: "class_ranges t r (Suc n) (b \<or> lo \<le> r \<and> r \<le> lo) = Some (rest, m)"
        using "1.prems" False e by (auto simp: class_ranges.simps [of chunk])
      have "length rest < length t" by (rule "1.IH"(2) [OF False e refl nodash rec])
      with len show ?thesis by simp
    qed
  qed
qed

text \<open>
  Matching a chunk (no unescaped star) at the start of \<open>s\<close>. After a failed match the
  chunk is still checked for well-formedness. The result is None for a bad pattern, else
  \<open>Some None\<close> for no match and \<open>Some (Some rest)\<close> for a match.
\<close>

function match_chunk :: "string \<Rightarrow> string \<Rightarrow> bool \<Rightarrow> string option option" where
  "match_chunk chunk s failed =
     (if chunk = [] then Some (if failed then None else Some s)
      else
        let failed = (failed \<or> s = []);
            n = snd (decode_rune s);
            c = hd chunk
        in
        if c = CHR ''['' then
          (let neg = (tl chunk \<noteq> [] \<and> hd (tl chunk) = CHR ''^'');
               body = (if neg then tl (tl chunk) else tl chunk);
               r = (if failed then 0 else fst (decode_rune s))
           in case class_ranges body r 0 False of
               None \<Rightarrow> None
             | Some (rest, found) \<Rightarrow>
                 match_chunk rest (if failed then s else drop n s) (failed \<or> found = neg))
        else if c = CHR ''?'' then
          match_chunk (tl chunk) (if failed then s else drop n s)
            (failed \<or> hd s = CHR ''/'')
        else
          (let body = (if c = CHR 0x5C then tl chunk else chunk) in
           if body = [] then None
           else match_chunk (tl body) (if failed then s else tl s)
                  (failed \<or> hd body \<noteq> hd s)))"
  by pat_completeness auto
termination
proof (relation "measure (\<lambda>(chunk, _). length chunk)", goal_cases)
  case 1
  show ?case by simp
next
  case (2 chunk s failed x xa xb xc xd xe a xf xg)
  then show ?case
    by (cases chunk; cases "tl chunk") (auto dest!: class_ranges_length split: if_splits)
next
  case (3 chunk s failed x xa xb)
  then show ?case by (cases chunk) auto
next
  case (4 chunk s failed x xa xb xc)
  then show ?case by (cases chunk; cases "tl chunk") (auto split: if_splits)
qed

declare match_chunk.simps [simp del]

text \<open>The longest prefix of a pattern without a star outside a class.\<close>

fun chunk_length :: "string \<Rightarrow> bool \<Rightarrow> nat" where
  "chunk_length [] inrange = 0"
| "chunk_length (c # s) inrange =
     (if c = CHR 0x5C then (case s of [] \<Rightarrow> 1 | d # t \<Rightarrow> 2 + chunk_length t inrange)
      else if c = CHR ''['' then 1 + chunk_length s True
      else if c = CHR '']'' then 1 + chunk_length s False
      else if c = CHR ''*'' \<and> \<not> inrange then 0
      else 1 + chunk_length s inrange)"

definition scan_chunk :: "string \<Rightarrow> bool \<times> string \<times> string" where
  "scan_chunk p =
     (let q = dropWhile (\<lambda>c. c = CHR ''*'') p; n = chunk_length q False
      in (p \<noteq> [] \<and> hd p = CHR ''*'', take n q, drop n q))"

lemma scan_chunk_length:
  assumes "p \<noteq> []"
  shows "length (snd (snd (scan_chunk p))) < length p"
proof (cases "hd p = CHR ''*''")
  case True
  with assms obtain q where "p = CHR ''*'' # q" by (cases p) auto
  then have "length (dropWhile (\<lambda>c. c = CHR ''*'') p) < length p"
    by (simp add: length_dropWhile_le le_imp_less_Suc)
  then show ?thesis by (simp add: scan_chunk_def Let_def)
next
  case False
  with assms obtain c q where p: "p = c # q" "c \<noteq> CHR ''*''" by (cases p) auto
  then have "0 < chunk_length p False" by (auto split: list.splits)
  with p show ?thesis by (simp add: scan_chunk_def Let_def)
qed

text \<open>Trying a chunk after a star at every later position before a slash.\<close>

fun star_search :: "string \<Rightarrow> bool \<Rightarrow> string \<Rightarrow> string option option" where
  "star_search chunk final [] = Some None"
| "star_search chunk final (c # name) =
     (if c = CHR ''/'' then Some None
      else (case match_chunk chunk name False of
          None \<Rightarrow> None
        | Some None \<Rightarrow> star_search chunk final name
        | Some (Some t) \<Rightarrow>
            if final \<and> t \<noteq> [] then star_search chunk final name else Some (Some t)))"

text \<open>The check of the remaining pattern before a plain mismatch is returned.\<close>

function pattern_ok :: "string \<Rightarrow> bool" where
  "pattern_ok p =
     (if p = [] then True
      else match_chunk (fst (snd (scan_chunk p))) [] False \<noteq> None
           \<and> pattern_ok (snd (snd (scan_chunk p))))"
  by pat_completeness auto
termination
  by (relation "measure length") (auto simp: scan_chunk_length)

declare pattern_ok.simps [simp del]

function path_Match :: "string \<Rightarrow> string \<Rightarrow> bool option" where
  "path_Match p name =
     (if p = [] then Some (name = [])
      else
        let star = fst (scan_chunk p);
            chunk = fst (snd (scan_chunk p));
            rest = snd (snd (scan_chunk p));
            give_up = (if pattern_ok rest then Some False else None);
            search = (if star then star_search chunk (rest = []) name else Some None)
        in
        if star \<and> chunk = [] then Some (CHR ''/'' \<notin> set name)
        else (case match_chunk chunk name False of
            None \<Rightarrow> None
          | Some here \<Rightarrow>
              (case (if here \<noteq> None \<and> (the here = [] \<or> rest \<noteq> []) then Some here else search) of
                 None \<Rightarrow> None
               | Some None \<Rightarrow> give_up
               | Some (Some t) \<Rightarrow> path_Match rest t)))"
  by pat_completeness auto
termination
  by (relation "measure (\<lambda>(p, _). length p)") (auto simp: scan_chunk_length)

declare path_Match.simps [simp del]

text \<open>A name without special characters matches itself and nothing else.\<close>

lemma path_Match_Nil [simp]: "path_Match [] name = Some (name = [])"
  by (simp add: path_Match.simps)

lemma path_Match_star [simp]: "path_Match ''*'' name = Some (CHR ''/'' \<notin> set name)"
  by (simp add: path_Match.simps [of "''*''"] scan_chunk_def Let_def)

definition plain :: "string \<Rightarrow> bool" where
  "plain p \<longleftrightarrow> set p \<inter> {CHR ''*'', CHR ''?'', CHR ''['', CHR 0x5C} = {}"

lemma match_chunk_plain:
  "plain p \<Longrightarrow> match_chunk p s b =
     Some (if \<not> b \<and> HasPrefix s p then Some (drop (length p) s) else None)"
proof (induction p arbitrary: s b)
  case Nil
  then show ?case by (simp add: match_chunk.simps HasPrefix_def)
next
  case (Cons c p)
  then have c: "c \<noteq> CHR ''['' \<and> c \<noteq> CHR ''?'' \<and> c \<noteq> CHR 0x5C" and p: "plain p"
    by (auto simp: plain_def)
  show ?case
  proof (cases s)
    case Nil
    with c Cons.IH [OF p] show ?thesis by (simp add: match_chunk.simps [of "c # p"] HasPrefix_def)
  next
    case (Cons d t)
    with c Cons.IH [OF p] show ?thesis
      by (auto simp: match_chunk.simps [of "c # p"] HasPrefix_def Let_def)
  qed
qed

lemma chunk_length_plain: "plain p \<Longrightarrow> chunk_length p b = length p"
  by (induction p arbitrary: b) (auto simp: plain_def)

lemma scan_chunk_plain: "plain p \<Longrightarrow> scan_chunk p = (False, p, [])"
proof -
  assume p: "plain p"
  then have "dropWhile (\<lambda>c. c = CHR ''*'') p = p"
    by (cases p) (auto simp: plain_def)
  moreover have "p = [] \<or> hd p \<noteq> CHR ''*''" using p by (cases p) (auto simp: plain_def)
  ultimately show ?thesis using p by (auto simp: scan_chunk_def Let_def chunk_length_plain)
qed

lemma path_Match_plain: "plain p \<Longrightarrow> path_Match p name = Some (name = p)"
proof (cases "p = []")
  case False
  assume p: "plain p"
  have "HasPrefix name p \<and> drop (length p) name = [] \<longleftrightarrow> name = p"
    by (auto simp: HasPrefix_def)
  moreover have "pattern_ok []" by (simp add: pattern_ok.simps)
  ultimately show ?thesis
    using False p by (auto simp: path_Match.simps [of p] scan_chunk_plain match_chunk_plain Let_def)
qed simp

section \<open>Package path/filepath\<close>

text \<open>What the program relies on: cleaning and joining yield clean paths, and cleaning keeps
  a path absolute.\<close>

locale file_paths =
  fixes isabs :: "string \<Rightarrow> bool"
    and clean :: "string \<Rightarrow> string"
  assumes clean_idem: "clean (clean p) = clean p"
    and clean_isabs: "isabs p \<Longrightarrow> isabs (clean p)"
begin

definition canonical :: "string \<Rightarrow> bool" where
  "canonical p \<longleftrightarrow> isabs p \<and> clean p = p"

lemma canonical_clean: "isabs p \<Longrightarrow> canonical (clean p)"
  by (simp add: canonical_def clean_idem clean_isabs)

end

subsection \<open>Unix\<close>

definition unix_IsAbs :: "string \<Rightarrow> bool" where
  "unix_IsAbs p \<longleftrightarrow> HasPrefix p ''/''"

text \<open>One path element on the stack of those kept so far, the latest first.\<close>

fun clean_step :: "bool \<Rightarrow> string list \<Rightarrow> string \<Rightarrow> string list" where
  "clean_step rooted st w =
     (if w = [] \<or> w = ''.'' then st
      else if w = ''..'' then
        (case st of
           [] \<Rightarrow> if rooted then [] else [''..'']
         | v # vs \<Rightarrow> if v = ''..'' then w # st else vs)
      else w # st)"

definition unix_Clean :: "string \<Rightarrow> string" where
  "unix_Clean p =
     (let rooted = HasPrefix p ''/'';
          ws = rev (foldl (clean_step rooted) [] (Split CHR ''/'' p));
          body = Join ''/'' ws
      in if rooted then CHR ''/'' # body else if body = [] then ''.'' else body)"

definition unix_Join :: "string \<Rightarrow> string \<Rightarrow> string" where
  "unix_Join a b =
     (if a = [] \<and> b = [] then []
      else if a = [] then unix_Clean b
      else if b = [] then unix_Clean a
      else unix_Clean (a @ ''/'' @ b))"

text \<open>
  Cleaning yields a stack of proper elements on top of \<open>..\<close> elements (none when rooted);
  such a stack is rebuilt unchanged when the path is cleaned again.
\<close>

fun stack_ok :: "bool \<Rightarrow> string list \<Rightarrow> bool" where
  "stack_ok rooted [] \<longleftrightarrow> True"
| "stack_ok rooted (w # st) \<longleftrightarrow>
     w \<noteq> [] \<and> w \<noteq> ''.'' \<and> CHR ''/'' \<notin> set w \<and> stack_ok rooted st \<and>
     (w = ''..'' \<longrightarrow> \<not> rooted \<and> (st = [] \<or> hd st = ''..''))"

lemma Split_no_sep: "w \<in> set (Split c s) \<Longrightarrow> c \<notin> set w"
proof (induction s arbitrary: w)
  case (Cons x s)
  then show ?case by (cases "Split c s") (auto split: if_splits)
qed simp

lemma Split_append: "c \<notin> set w \<Longrightarrow> Split c (w @ c # s) = w # Split c s"
  by (induction w) auto

lemma Split_word: "c \<notin> set w \<Longrightarrow> Split c w = [w]"
  by (induction w) auto

lemma Split_Join: "ws \<noteq> [] \<Longrightarrow> \<forall>w \<in> set ws. c \<notin> set w \<Longrightarrow> Split c (Join [c] ws) = ws"
proof (induction "[c]" ws rule: Join.induct)
  case (3 w v ws)
  then show ?case by (simp add: Split_append)
qed (auto simp: Split_word)

lemma clean_step_ok:
  "stack_ok rooted st \<Longrightarrow> CHR ''/'' \<notin> set w \<Longrightarrow> stack_ok rooted (clean_step rooted st w)"
  by (cases st) auto

lemma clean_fold_ok:
  "stack_ok rooted st \<Longrightarrow> \<forall>w \<in> set ws. CHR ''/'' \<notin> set w \<Longrightarrow>
   stack_ok rooted (foldl (clean_step rooted) st ws)"
  by (induction ws arbitrary: st) (simp_all add: clean_step_ok del: clean_step.simps)

lemma stack_ok_step: "stack_ok rooted (w # st) \<Longrightarrow> clean_step rooted st w = w # st"
  by (cases st) auto

lemma clean_fold_rev: "stack_ok rooted st \<Longrightarrow> foldl (clean_step rooted) [] (rev st) = st"
  by (induction st) (auto simp: stack_ok_step simp del: clean_step.simps)

lemma stack_ok_words: "stack_ok rooted st \<Longrightarrow> w \<in> set st \<Longrightarrow> w \<noteq> [] \<and> CHR ''/'' \<notin> set w"
  by (induction st) auto

definition clean_body :: "bool \<Rightarrow> string \<Rightarrow> string list" where
  "clean_body rooted p = foldl (clean_step rooted) [] (Split CHR ''/'' p)"

lemma clean_body_ok: "stack_ok rooted (clean_body rooted p)"
  unfolding clean_body_def by (rule clean_fold_ok) (auto dest: Split_no_sep)

lemma clean_body_Join:
  assumes "stack_ok rooted st" "st \<noteq> []"
  shows "clean_body rooted (Join ''/'' (rev st)) = st"
proof -
  have "Split CHR ''/'' (Join ''/'' (rev st)) = rev st"
    using assms by (intro Split_Join) (auto dest: stack_ok_words)
  then show ?thesis using assms(1) by (simp add: clean_body_def clean_fold_rev)
qed

lemma Join_Nil_iff: "\<forall>w \<in> set ws. w \<noteq> [] \<Longrightarrow> Join sep ws = [] \<longleftrightarrow> ws = []"
  by (cases "(sep, ws)" rule: Join.cases) auto

lemma Join_hd: "ws \<noteq> [] \<Longrightarrow> hd ws \<noteq> [] \<Longrightarrow> hd (Join sep ws) = hd (hd ws)"
  by (cases "(sep, ws)" rule: Join.cases) auto

lemma Join_not_rooted:
  assumes "stack_ok rooted st"
  shows "\<not> HasPrefix (Join ''/'' (rev st)) ''/''"
proof (cases "st = []")
  case False
  then have l: "last st \<noteq> []" "CHR ''/'' \<notin> set (last st)"
    using stack_ok_words [OF assms] last_in_set by blast+
  have "hd (Join ''/'' (rev st)) = hd (last st)"
    using False l Join_hd [of "rev st" "''/''"] by (simp add: hd_rev)
  moreover have "hd (last st) \<noteq> CHR ''/''" using l by (cases "last st") auto
  ultimately show ?thesis by (cases "Join ''/'' (rev st)") (auto simp: HasPrefix_def)
qed (simp add: HasPrefix_def)

lemma unix_Clean_alt:
  "unix_Clean p =
     (let rooted = HasPrefix p ''/''; st = clean_body rooted p in
      if rooted then CHR ''/'' # Join ''/'' (rev st)
      else if st = [] then ''.'' else Join ''/'' (rev st))"
proof -
  have "Join ''/'' (rev (clean_body r p)) = [] \<longleftrightarrow> clean_body r p = []" for r
    using Join_Nil_iff [of "rev (clean_body r p)" "''/''"] stack_ok_words [OF clean_body_ok [of r p]]
    by auto
  then show ?thesis by (simp add: unix_Clean_def clean_body_def Let_def)
qed

lemma clean_body_slash: "clean_body True (CHR ''/'' # s) = clean_body True s"
  by (simp add: clean_body_def)

lemma HasPrefix_slash: "HasPrefix (CHR ''/'' # s) ''/''"
  by (simp add: HasPrefix_def)

theorem unix_Clean_idem: "unix_Clean (unix_Clean p) = unix_Clean p"
proof (cases "HasPrefix p ''/''")
  case True
  let ?st = "clean_body True p"
  have c: "unix_Clean p = CHR ''/'' # Join ''/'' (rev ?st)"
    using True by (simp add: unix_Clean_alt Let_def)
  have "clean_body True (Join ''/'' (rev ?st)) = ?st"
  proof (cases "?st = []")
    case True
    then show ?thesis by (simp add: clean_body_def)
  next
    case False
    then show ?thesis by (rule clean_body_Join [OF clean_body_ok])
  qed
  then show ?thesis
    by (simp add: c unix_Clean_alt [of "CHR ''/'' # _"] HasPrefix_slash clean_body_slash)
next
  case False
  let ?st = "clean_body False p"
  show ?thesis
  proof (cases "?st = []")
    case True
    then have "unix_Clean p = ''.''" using False by (simp add: unix_Clean_alt Let_def)
    then show ?thesis by (simp add: unix_Clean_alt HasPrefix_def clean_body_def)
  next
    case nonempty: False
    then have c: "unix_Clean p = Join ''/'' (rev ?st)"
      using False by (simp add: unix_Clean_alt Let_def)
    show ?thesis
      using Join_not_rooted [OF clean_body_ok [of False p]] clean_body_Join [OF clean_body_ok nonempty] nonempty
      by (simp add: c unix_Clean_alt [of "Join _ _"] Let_def)
  qed
qed

lemma unix_Clean_isabs: "unix_IsAbs p \<Longrightarrow> unix_IsAbs (unix_Clean p)"
  by (simp add: unix_IsAbs_def unix_Clean_alt Let_def HasPrefix_slash)

lemma Split_snoc: "Split c (a @ c # b) = Split c a @ Split c b"
proof (induction a)
  case (Cons x a)
  obtain w ws where "Split c a = w # ws" by (cases "Split c a") auto
  with Cons show ?case by auto
qed simp

lemma Join_snoc: "ws \<noteq> [] \<Longrightarrow> Join sep (ws @ [w]) = Join sep ws @ sep @ w"
proof (induction sep ws rule: Join.induct)
  case (3 sep v x xs)
  then show ?case by simp
qed simp_all

text \<open>A proper name joined to a clean absolute path.\<close>

lemma unix_Join_name:
  assumes "unix_IsAbs r" "unix_Clean r = r" "w \<noteq> []" "w \<noteq> ''.''" "w \<noteq> ''..''" "CHR ''/'' \<notin> set w"
  shows "unix_Join r w = (if r = ''/'' then ''/'' @ w else r @ ''/'' @ w)"
proof -
  obtain t where r: "r = CHR ''/'' # t" using assms(1) by (auto simp: unix_IsAbs_def HasPrefix_iff)
  let ?st = "clean_body True r"
  have rr: "r = CHR ''/'' # Join ''/'' (rev ?st)"
    using assms(2) by (simp add: unix_Clean_alt [of r] Let_def) (simp add: r HasPrefix_slash)
  have "clean_body True (r @ ''/'' @ w) = w # ?st"
    using assms(3-6) by (simp add: clean_body_def Split_snoc Split_word)
  moreover have "HasPrefix (r @ ''/'' @ w) ''/''" by (simp add: r HasPrefix_slash)
  ultimately have "unix_Clean (r @ ''/'' @ w) = CHR ''/'' # Join ''/'' (rev ?st @ [w])"
    by (simp only: unix_Clean_alt Let_def if_True rev.simps)
  moreover have "Join ''/'' (rev ?st @ [w]) = (if ?st = [] then w else Join ''/'' (rev ?st) @ ''/'' @ w)"
    using Join_snoc [of "rev ?st" "''/''" w] by simp
  moreover have "r = ''/'' \<longleftrightarrow> ?st = []"
  proof
    assume "r = ''/''"
    with rr have "Join ''/'' (rev ?st) = []" by simp
    then show "?st = []" using Join_Nil_iff [of "rev ?st" "''/''"] stack_ok_words [OF clean_body_ok] by auto
  next
    assume "?st = []"
    with rr show "r = ''/''" by simp
  qed
  moreover have "unix_Join r w = unix_Clean (r @ ''/'' @ w)"
    using assms(3) r by (simp add: unix_Join_def)
  ultimately show ?thesis using rr by (metis append_Cons append_Nil)
qed

lemma unix_Join_canonical:
  assumes "unix_IsAbs r" "unix_Clean r = r" "w \<noteq> []" "w \<noteq> ''.''" "w \<noteq> ''..''" "CHR ''/'' \<notin> set w"
  shows "unix_IsAbs (unix_Join r w)" "unix_Clean (unix_Join r w) = unix_Join r w" "unix_Join r w \<noteq> ''/''"
proof -
  obtain t where r: "r = CHR ''/'' # t" using assms(1) by (auto simp: unix_IsAbs_def HasPrefix_iff)
  have j: "unix_Join r w = unix_Clean (r @ ''/'' @ w)" using assms(3) r by (simp add: unix_Join_def)
  then show "unix_Clean (unix_Join r w) = unix_Join r w" by (simp add: unix_Clean_idem)
  show "unix_IsAbs (unix_Join r w)" unfolding j by (rule unix_Clean_isabs) (simp add: r unix_IsAbs_def HasPrefix_slash)
  show "unix_Join r w \<noteq> ''/''" using unix_Join_name [OF assms] assms(3) by (auto simp: r)
qed

interpretation unix_paths: file_paths unix_IsAbs unix_Clean
  by unfold_locales (simp_all add: unix_Clean_idem unix_Clean_isabs)

end
