(* ===== verification/Errors.thy ===== *)
theory Errors
  imports GoPath
begin

text \<open>
  The errors the program returns, grouped by the package that makes them, one constructor for
  each place that makes one; a constructor's argument is what the message names. An error that
  the code wraps with \<open>fmt.Errorf("%s: %w", name, e)\<close> is \<open>Named\<close>; \<open>Ext\<close> is an error of a library
  or of the operating system, passed on.
\<close>

datatype model_err =
    BadHost | BadHostType | NoKeyID | SelfJump | BadFingerprint
  | BadTunnel | BadService | BadServiceURL | BadServicePort
  | HostNotFound string | KeyNotFound | TunnelNotFound | JumpLoop

datatype db_err =
    BadKey | DuplicateHost | NoRecord string | NoRecordToDelete | DBFailure | DBTooNew | NoLocalValue

datatype key_err =
    BadPath | NoHomeDir | NotAbsolute | KeyUnreadable | KeyNotRegular | KeyEncrypted | KeyFormat

datatype config_err =
    ConfigNotFound | ConfigUnreadable | ConfigNotRegular | UnclosedQuote nat | LineTooLong
  | UnsupportedConfig string | AlreadyRegistered string | AliasesMissing
  | JumpNotRegistered string string | JumpConflict | ExistingJumpConflict

datatype share_err =
    NothingSelected | JumpKeyMissing string string | UnusableKey string
  | BundleTooLarge | BadExecutable | MergeConflict | BundleDecode | BundleFormat
  | BundleKeyData | BundleKeyFormat | KeyFileConflict | PersonalKeyConflict | OtherSourceConflict
  | BadSharingIdentity | BadFeedRequest | FeedNotFound | BadSourceURL | SourceNotLocal
  | BadSyncInfo | SourceUnreachable | SourceStatus int | SyncTooLarge | BadSignature | SyncMismatch
  | SyncBadID | SyncPersonalConflict | SyncNewKey | BadURL | NoSharedKeys | JSONDecode

datatype net_err =
    NoRoute | DeadlineExceeded | Canceled
  | FingerprintMismatch string | NoKnownHosts | BadKnownHosts | UnknownHost string
  | HostKeyRejected string
  | ShuttingDown | TunnelBusy | BindFailed | TunnelNotRunning | KeepAliveTimeout

datatype web_err =
    NotOneObject | UnknownCollection | StopBeforeEdit | StopBeforeDelete | TunnelChoice | BadLinkID
  | BackupFormat | BackupBadID | BackupConflict string | UnknownBackupAction
  | UnknownAction | ServiceNotFound | TunnelChanged | BrowserFailed | NothingToImport
  | SubscriptionNotFound | UnknownSyncAction
  | UploadSize | UploadFolder | UploadFolderBad | UploadFolderAccess | UploadSave | UploadEmpty
  | ConfigFormat | HostsFormat
  | EditorKind | EditorNotRegular | EditorUnreadable | EditorNotText | EditorContent
  | EditorCreate | EditorWrite | EditorReplace

datatype app_err =
    ContainerOnly | BadHTTPPort | BadDataDir | PortInUse | HealthFailed

datatype err =
    ModelErr model_err
  | DbErr db_err
  | KeyErr key_err
  | ConfigErr config_err
  | ShareErr share_err
  | NetErr net_err
  | WebErr web_err
  | AppErr app_err
  | Named string err
  | Ext string

type_synonym 'a res = "err + 'a"

end
