(* ===== verification/Model.thy ===== *)
theory Model
  imports Errors
begin

text \<open>
  internal/model: the records the program keeps, their validation, lookup by identifier and the
  jump-host chain of a host. \<open>net/url\<close>'s parser is a parameter \<open>up\<close> (its accepted language
  differs between Go releases); \<open>Hostname\<close> and \<open>Port\<close> of a parsed URL are modelled.
  \<open>Chain\<close> is proved equal to an abstract route relation bounded at 16 hops.
\<close>

section \<open>Records\<close>

record key =
  kID :: string
  kName :: string
  kPath :: string

record host =
  hID :: string
  hName :: string
  hEnvironment :: string
  hType :: string
  hAddress :: string
  hPort :: int
  hUsername :: string
  hKeyID :: string
  hJumpID :: string
  hDescription :: string
  hFingerprint :: string

record tunnel =
  tID :: string
  tName :: string
  tLocalHost :: string
  tLocalPort :: int
  tRemoteHost :: string
  tRemotePort :: int
  tHostID :: string
  tAutoReconnect :: bool
  tDescription :: string

record service =
  sID :: string
  sName :: string
  sEnvironment :: string
  sTunnelID :: string
  sURL :: string
  sDescription :: string

record history =
  yID :: string
  yHostID :: string
  yHostName :: string
  yKind :: string
  yStatus :: string
  yError :: string
  yAt :: string

record settings =
  KnownHosts :: string
  SSHConfig :: string

record team_source =
  tsURL :: string
  tsFeed :: string
  tsPublicKey :: string

text \<open>\<open>Items\<close> maps \<open>kind/id\<close> to \<open>current\<close> or \<open>missing\<close>, as an association list.\<close>

record team_subscription =
  Source :: team_source
  Items :: "(string \<times> string) list"
  LastSync :: string
  SubError :: string
  Paused :: bool

record state =
  Team :: "team_subscription list"
  Hosts :: "host list"
  Keys :: "key list"
  Tunnels :: "tunnel list"
  Services :: "service list"
  History :: "history list"
  Settings :: settings

definition empty_settings :: settings where
  "empty_settings = \<lparr>KnownHosts = [], SSHConfig = []\<rparr>"

definition empty_state :: state where
  "empty_state = \<lparr>Team = [], Hosts = [], Keys = [], Tunnels = [], Services = [], History = [],
     Settings = empty_settings\<rparr>"

section \<open>Field validation\<close>

definition Env :: "string \<Rightarrow> bool" where
  "Env s \<longleftrightarrow> s = ''LOCAL'' \<or> s = ''DEV'' \<or> s = ''STG'' \<or> s = ''PROD''"

definition Port :: "int \<Rightarrow> bool" where
  "Port p \<longleftrightarrow> 0 < p \<and> p \<le> 65535"

text \<open>The characters of a host name: the loop of \<open>Address\<close> ranges over runes, and a rune passes
  exactly if it is one of these ASCII bytes.\<close>

definition host_char :: "char \<Rightarrow> bool" where
  "host_char c \<longleftrightarrow>
     (let n = code c in 97 \<le> n \<and> n \<le> 122 \<or> 65 \<le> n \<and> n \<le> 90 \<or> 48 \<le> n \<and> n \<le> 57)
     \<or> c = CHR ''.'' \<or> c = CHR ''-'' \<or> c = CHR ''_''"

definition Address :: "string \<Rightarrow> bool" where
  "Address s \<longleftrightarrow>
     (if s = [] \<or> 253 < length s
         \<or> ContainsAny s ('' '' @ [CHR 0x09, CHR 0x0D, CHR 0x0A] @ ''/'' @ [CHR 0x5C] @ ''@?#%'')
      then False
      else if ParseIP s \<noteq> None then True
      else list_all host_char s)"

definition Name :: "string \<Rightarrow> bool" where
  "Name s \<longleftrightarrow> TrimSpace s \<noteq> [] \<and> length s \<le> 160
     \<and> \<not> ContainsAny s [CHR 0x00, CHR 0x0D, CHR 0x0A]"

definition ValidateHost :: "host \<Rightarrow> unit res" where
  "ValidateHost h =
     rbind (check (Name (hName h) \<and> Env (hEnvironment h) \<and> Address (hAddress h) \<and> Port (hPort h)
              \<and> Name (hUsername h)
              \<and> \<not> ContainsAny (hUsername h) ('' '' @ [CHR 0x09] @ ''@/'' @ [CHR 0x5C])) (ModelErr BadHost))
     (\<lambda>_. rbind (check (hType h = ''Bastion'' \<or> hType h = ''Server'' \<or> hType h = ''Database''
              \<or> hType h = ''Other'') (ModelErr BadHostType))
     (\<lambda>_. rbind (check (hKeyID h \<noteq> []) (ModelErr NoKeyID))
     (\<lambda>_. rbind (check (\<not> (hID h \<noteq> [] \<and> hJumpID h = hID h)) (ModelErr SelfJump))
     (\<lambda>_. check (\<not> (hFingerprint h \<noteq> [] \<and>
              (\<not> HasPrefix (hFingerprint h) ''SHA256:'' \<or> length (hFingerprint h) \<noteq> 50)))
            (ModelErr BadFingerprint)))))"

definition ValidateTunnel :: "tunnel \<Rightarrow> unit res" where
  "ValidateTunnel t =
     check (Name (tName t) \<and> tLocalHost t = ''127.0.0.1'' \<and> Port (tLocalPort t)
            \<and> Address (tRemoteHost t) \<and> Port (tRemotePort t) \<and> tHostID t \<noteq> []) (ModelErr BadTunnel)"

text \<open>A parsed URL, and the two accessors of net/url the program calls.\<close>

record url =
  uScheme :: string
  uOpaque :: string
  uHasUser :: bool
  uHost :: string
  uPath :: string
  uRawQuery :: string
  uFragment :: string

definition last_colon :: "string \<Rightarrow> (string \<times> string) option" where
  "last_colon s =
     (if CHR '':'' \<in> set s
      then Some (rev (tl (dropWhile (\<lambda>c. c \<noteq> CHR '':'') (rev s))),
                 rev (takeWhile (\<lambda>c. c \<noteq> CHR '':'') (rev s)))
      else None)"

definition split_host_port :: "string \<Rightarrow> string \<times> string" where
  "split_host_port hp =
     (let (h, p) = (case last_colon hp of
            Some (a, b) \<Rightarrow> if list_all is_digit b then (a, b) else (hp, [])
          | None \<Rightarrow> (hp, []))
      in (if h \<noteq> [] \<and> hd h = CHR ''['' \<and> last h = CHR '']'' \<and> 2 \<le> length h
          then butlast (tl h) else h, p))"

definition Hostname :: "url \<Rightarrow> string" where
  "Hostname u = fst (split_host_port (uHost u))"

definition url_Port :: "url \<Rightarrow> string" where
  "url_Port u = snd (split_host_port (uHost u))"

definition service_url_ok :: "(string \<Rightarrow> url option) \<Rightarrow> string \<Rightarrow> bool" where
  "service_url_ok up raw \<longleftrightarrow>
     (case up raw of
        None \<Rightarrow> False
      | Some u \<Rightarrow> \<not> uHasUser u \<and> uOpaque u = [] \<and> (uScheme u = ''http'' \<or> uScheme u = ''https'')
          \<and> Hostname u = ''127.0.0.1'' \<and> \<not> ContainsAny raw [CHR 0x0D, CHR 0x0A, CHR 0x00])"

definition effective_port :: "url \<Rightarrow> string" where
  "effective_port u =
     (if url_Port u = [] then (if uScheme u = ''https'' then ''443'' else ''80'') else url_Port u)"

definition ValidateService :: "(string \<Rightarrow> url option) \<Rightarrow> service \<Rightarrow> tunnel \<Rightarrow> unit res" where
  "ValidateService up s t =
     rbind (check (Name (sName s) \<and> Env (sEnvironment s) \<and> sTunnelID s \<noteq> []) (ModelErr BadService))
     (\<lambda>_. rbind (check (service_url_ok up (sURL s)) (ModelErr BadServiceURL))
     (\<lambda>_. case up (sURL s) of
            None \<Rightarrow> Inl (ModelErr BadServiceURL)
          | Some u \<Rightarrow> check (effective_port u = Itoa (tLocalPort t)) (ModelErr BadServicePort)))"

section \<open>Lookup\<close>

definition State_Host :: "state \<Rightarrow> string \<Rightarrow> host res" where
  "State_Host s i = (case find_id hID i (Hosts s) of Some h \<Rightarrow> Inr h | None \<Rightarrow> Inl (ModelErr (HostNotFound i)))"

definition State_Key :: "state \<Rightarrow> string \<Rightarrow> key res" where
  "State_Key s i = (case find_id kID i (Keys s) of Some k \<Rightarrow> Inr k | None \<Rightarrow> Inl (ModelErr KeyNotFound))"

definition State_Tunnel :: "state \<Rightarrow> string \<Rightarrow> tunnel res" where
  "State_Tunnel s i = (case find_id tID i (Tunnels s) of Some t \<Rightarrow> Inr t | None \<Rightarrow> Inl (ModelErr TunnelNotFound))"

text \<open>The loop of \<open>Chain\<close>: \<open>seen\<close> is the visited set, \<open>out\<close> the route so far.\<close>

function chain_loop :: "state \<Rightarrow> string \<Rightarrow> string list \<Rightarrow> host list \<Rightarrow> host list res" where
  "chain_loop s i seen out =
     (if i = [] then Inr out
      else if i \<in> set seen \<or> 16 \<le> length out then Inl (ModelErr JumpLoop)
      else (case State_Host s i of
          Inl e \<Rightarrow> Inl e
        | Inr h \<Rightarrow> chain_loop s (hJumpID h) (i # seen) (h # out)))"
  by pat_completeness auto
termination
  by (relation "measure (\<lambda>(s, i, seen, out). 16 - length out)") auto

declare chain_loop.simps [simp del]

definition Chain :: "state \<Rightarrow> string \<Rightarrow> host list res" where
  "Chain s i = chain_loop s i [] []"

section \<open>Lookup facts\<close>

lemma State_Host_Inr: "State_Host s i = Inr h \<longleftrightarrow> find_id hID i (Hosts s) = Some h"
  by (simp add: State_Host_def split: option.splits)

lemma State_Host_Inl: "State_Host s i = Inl e \<longleftrightarrow> i \<notin> hID ` set (Hosts s) \<and> e = ModelErr (HostNotFound i)"
  by (auto simp: State_Host_def lookup_simps split: option.splits dest: find_id_SomeD)

lemma State_HostD: "State_Host s i = Inr h \<Longrightarrow> h \<in> set (Hosts s) \<and> hID h = i"
  by (auto simp: State_Host_Inr dest: find_id_SomeD)

lemma State_Key_Inr: "State_Key s i = Inr k \<longleftrightarrow> find_id kID i (Keys s) = Some k"
  by (simp add: State_Key_def split: option.splits)

lemma State_KeyD: "State_Key s i = Inr k \<Longrightarrow> k \<in> set (Keys s) \<and> kID k = i"
  by (auto simp: State_Key_Inr dest: find_id_SomeD)

lemma ok_State_Key: "ok (State_Key s i) \<longleftrightarrow> i \<in> kID ` set (Keys s)"
  by (auto simp: State_Key_def lookup_simps split: option.splits dest: find_id_SomeD)

lemma ok_State_Host: "ok (State_Host s i) \<longleftrightarrow> i \<in> hID ` set (Hosts s)"
  by (auto simp: State_Host_def lookup_simps split: option.splits dest: find_id_SomeD)

lemma State_Tunnel_Inr: "State_Tunnel s i = Inr t \<longleftrightarrow> find_id tID i (Tunnels s) = Some t"
  by (simp add: State_Tunnel_def split: option.splits)

lemma State_TunnelD: "State_Tunnel s i = Inr t \<Longrightarrow> t \<in> set (Tunnels s) \<and> tID t = i"
  by (auto simp: State_Tunnel_Inr dest: find_id_SomeD)

section \<open>Routes: the specification of Chain\<close>

text \<open>
  \<open>route s i hs\<close>: following jump identifiers from \<open>i\<close> to a host without one visits exactly
  \<open>hs\<close>, in connection order (the entry point first, the host \<open>i\<close> last).
\<close>

inductive route :: "state \<Rightarrow> string \<Rightarrow> host list \<Rightarrow> bool" for s where
  route_end: "route s [] []"
| route_hop: "i \<noteq> [] \<Longrightarrow> State_Host s i = Inr h \<Longrightarrow> route s (hJumpID h) hs \<Longrightarrow> route s i (hs @ [h])"

inductive_cases route_NilE: "route s [] hs"
inductive_cases route_hopE: "route s i hs"
inductive_simps route_Nil_iff [simp]: "route s [] hs"

lemma route_det: "route s i hs \<Longrightarrow> route s i hs' \<Longrightarrow> hs = hs'"
proof (induction arbitrary: hs' rule: route.induct)
  case route_end
  then show ?case by simp
next
  case (route_hop i h hs)
  from route_hop.prems show ?case
  proof (cases rule: route.cases)
    case (route_hop h' hs'')
    with \<open>State_Host s i = Inr h\<close> have "h' = h" by simp
    with route_hop route_hop.IH show ?thesis by simp
  qed (use route_hop.hyps in simp)
qed

lemma route_ids: "route s i hs \<Longrightarrow> h \<in> set hs \<Longrightarrow> State_Host s (hID h) = Inr h \<and> hID h \<noteq> []"
  by (induction rule: route.induct) (auto dest: State_HostD)

text \<open>Every hop's own route is a prefix of the route.\<close>

lemma route_prefix: "route s i hs \<Longrightarrow> h \<in> set hs \<Longrightarrow> \<exists>p q. hs = p @ q \<and> p \<noteq> [] \<and> last p = h \<and> route s (hID h) p"
proof (induction rule: route.induct)
  case (route_hop i h' hs)
  show ?case
  proof (cases "h = h'")
    case True
    with route_hop have "route s (hID h) (hs @ [h'])"
      by (auto dest: State_HostD intro: route.route_hop)
    with True show ?thesis by (intro exI [of _ "hs @ [h']"] exI [of _ "[]"]) simp
  next
    case False
    with route_hop obtain p q where "hs = p @ q" "p \<noteq> []" "last p = h" "route s (hID h) p"
      by auto
    then show ?thesis by (intro exI [of _ p] exI [of _ "q @ [h']"]) simp
  qed
qed simp

lemma route_distinct: "route s i hs \<Longrightarrow> distinct (map hID hs)"
proof (induction rule: route.induct)
  case (route_hop i h hs)
  have "hID h \<notin> hID ` set hs"
  proof
    assume "hID h \<in> hID ` set hs"
    then obtain g where g: "g \<in> set hs" "hID g = hID h" by auto
    with route_prefix [OF route_hop.hyps(3)] obtain p q where
      p: "hs = p @ q" "route s (hID h) p" by metis
    have "route s (hID h) (hs @ [h])"
      using route_hop.hyps by (auto dest: State_HostD intro: route.route_hop)
    from route_det [OF this p(2)] p(1) show False by simp
  qed
  with route_hop.IH show ?case by simp
qed simp

lemma route_last: "route s i hs \<Longrightarrow> i \<noteq> [] \<Longrightarrow> hs \<noteq> [] \<and> hID (last hs) = i"
  by (erule route.cases) (auto dest: State_HostD)

text \<open>In a route, each host jumps over the one before it and the first jumps over none.\<close>

fun linked :: "string \<Rightarrow> host list \<Rightarrow> bool" where
  "linked prev [] \<longleftrightarrow> True"
| "linked prev (h # hs) \<longleftrightarrow> hJumpID h = prev \<and> linked (hID h) hs"

lemma linked_snoc:
  "linked prev (hs @ [h]) \<longleftrightarrow> linked prev hs \<and> hJumpID h = (if hs = [] then prev else hID (last hs))"
  by (induction hs arbitrary: prev) auto

lemma route_linked: "route s i hs \<Longrightarrow> linked [] hs"
proof (induction rule: route.induct)
  case (route_hop i h hs)
  then show ?case
    using route_last [OF route_hop.hyps(3)] by (cases "hJumpID h = []") (auto simp: linked_snoc)
qed simp

section \<open>Chain computes the bounded route\<close>

lemma chain_loop_sound:
  "chain_loop s i seen out = Inr r \<Longrightarrow> length out \<le> 16 \<Longrightarrow>
     \<exists>hs. route s i hs \<and> r = hs @ out \<and> length r \<le> 16"
proof (induction s i seen out rule: chain_loop.induct)
  case (1 s i seen out)
  show ?case
  proof (cases "i = []")
    case True
    with "1.prems" show ?thesis by (auto simp: chain_loop.simps [of s "[]"])
  next
    case False
    with "1.prems" obtain h where h: "State_Host s i = Inr h" "\<not> (i \<in> set seen \<or> 16 \<le> length out)"
      and rec: "chain_loop s (hJumpID h) (i # seen) (h # out) = Inr r"
      by (auto simp: chain_loop.simps [of s i] split: if_splits sum.splits)
    then obtain hs where "route s (hJumpID h) hs" "r = hs @ h # out" "length r \<le> 16"
      using "1.IH" [OF False h(2) h(1) rec] by auto
    with False h show ?thesis by (intro exI [of _ "hs @ [h]"]) (auto intro: route_hop)
  qed
qed

lemma chain_loop_complete:
  "route s i hs \<Longrightarrow> length hs + length out \<le> 16 \<Longrightarrow> set seen \<inter> hID ` set hs = {} \<Longrightarrow>
     chain_loop s i seen out = Inr (hs @ out)"
proof (induction arbitrary: seen out rule: route.induct)
  case route_end
  then show ?case by (simp add: chain_loop.simps)
next
  case (route_hop i h hs)
  have "route s i (hs @ [h])" using route_hop.hyps by (rule route.route_hop)
  from route_distinct [OF this] have d: "hID h \<notin> hID ` set hs" by simp
  have i: "hID h = i" using route_hop.hyps(2) by (auto dest: State_HostD)
  have "chain_loop s (hJumpID h) (i # seen) (h # out) = Inr (hs @ h # out)"
    using route_hop.prems d i by (intro route_hop.IH) auto
  moreover have "i \<notin> set seen" using route_hop.prems i by auto
  ultimately show ?case
    using route_hop by (simp add: chain_loop.simps [of s i])
qed

lemma Chain_iff_route: "Chain s i = Inr hs \<longleftrightarrow> route s i hs \<and> length hs \<le> 16"
proof
  assume "Chain s i = Inr hs"
  from chain_loop_sound [OF this [unfolded Chain_def]] show "route s i hs \<and> length hs \<le> 16" by auto
next
  assume "route s i hs \<and> length hs \<le> 16"
  then show "Chain s i = Inr hs"
    using chain_loop_complete [of s i hs "[]" "[]"] by (simp add: Chain_def)
qed

lemma Chain_last: "Chain s i = Inr hs \<Longrightarrow> i \<noteq> [] \<Longrightarrow> hs \<noteq> [] \<and> hID (last hs) = i"
  by (auto simp: Chain_iff_route dest: route_last)

lemma Chain_linked: "Chain s i = Inr hs \<Longrightarrow> linked [] hs"
  by (auto simp: Chain_iff_route dest: route_linked)

lemma Chain_hosts: "Chain s i = Inr hs \<Longrightarrow> set hs \<subseteq> set (Hosts s)"
  by (auto simp: Chain_iff_route dest: route_ids State_HostD)

lemma Chain_Nil [simp]: "Chain s [] = Inr []"
  by (simp add: Chain_def chain_loop.simps)

text \<open>The errors a chain can end with.\<close>

lemma chain_loop_error:
  "chain_loop s i seen out = Inl e \<Longrightarrow> e = (ModelErr JumpLoop) \<or> (\<exists>j. e = ModelErr (HostNotFound j) \<and> j \<notin> hID ` set (Hosts s))"
proof (induction s i seen out rule: chain_loop.induct)
  case (1 s i seen out)
  then show ?case
    by (auto simp: chain_loop.simps [of s i] State_Host_Inl split: if_splits sum.splits)
qed

text \<open>A route only depends on the lookups it makes.\<close>

lemma route_mono:
  assumes "route s i hs" and "\<And>h. h \<in> set hs \<Longrightarrow> State_Host s' (hID h) = Inr h"
  shows "route s' i hs"
  using assms
proof (induction rule: route.induct)
  case (route_hop i h hs)
  have "State_Host s' i = Inr h"
    using route_hop.prems [of h] route_hop.hyps(2) by (auto dest: State_HostD)
  with route_hop show ?case by (auto intro: route.route_hop)
qed (simp add: route_end)

section \<open>What validation guarantees\<close>

text \<open>An accepted address holds only letters, digits and \<open>. - _ :\<close>, so it cannot carry
  whitespace, quotes or a path into a configuration file.\<close>

definition addr_char :: "char \<Rightarrow> bool" where
  "addr_char c \<longleftrightarrow> host_char c \<or> c = CHR '':''"

lemma digit_host_char: "is_digit c \<Longrightarrow> addr_char c"
  by (simp add: is_digit_def addr_char_def host_char_def Let_def)

lemma hex_host_char: "is_hex c \<Longrightarrow> addr_char c"
  by (auto simp: is_hex_def hex_value_def addr_char_def host_char_def Let_def split: if_splits)

lemma ipv4_fields_chars: "ipv4_fields s v l f d = Some r \<Longrightarrow> list_all addr_char s"
  by (induction s v l f d rule: ipv4_fields.induct)
    (auto simp: digit_host_char Let_def addr_char_def [of "CHR ''.''"] host_char_def split: if_splits)

lemma ipv6_groups_chars:
  "ipv6_groups s b ell = Some (b', ell', []) \<Longrightarrow> list_all addr_char s"
proof (induction s b ell rule: ipv6_groups.induct)
  case (1 s b ell)
  show ?case
  proof (cases "16 \<le> length b")
    case True
    with "1.prems" show ?thesis by (simp add: ipv6_groups.simps [of s])
  next
    case False
    let ?h = "takeWhile is_hex s" and ?r = "dropWhile is_hex s"
    have h: "list_all addr_char ?h"
      by (auto simp: list_all_iff hex_host_char dest: set_takeWhileD)
    have colon: "addr_char CHR '':''" by (simp add: addr_char_def)
    show ?thesis
    proof (cases "HasPrefix ?r ''.''")
      case True
      with "1.prems" False obtain f where "parse_ipv4 s = Some f"
        by (auto simp: ipv6_groups.simps [of s] Let_def split: if_splits option.splits)
      then show ?thesis unfolding parse_ipv4_def by (rule ipv4_fields_chars)
    next
      case nodot: False
      have "list_all addr_char ?r"
      proof (cases ?r)
        case (Cons c t)
        note IH = "1.IH" [OF False refl refl refl _ nodot refl Cons]
        show ?thesis
          using "1.prems" False nodot Cons IH colon
          by (cases t) (auto simp: ipv6_groups.simps [of s] Let_def split: if_splits)
      next
        case Nil
        then show ?thesis unfolding Nil by simp
      qed
      with h have "list_all addr_char (?h @ ?r)" by (simp only: list_all_append simp_thms)
      then show ?thesis by simp
    qed
  qed
qed

lemma ParseIP_chars: "ParseIP s = Some b \<Longrightarrow> list_all addr_char s"
proof -
  assume a: "ParseIP s = Some b"
  then obtain c where c: "find (\<lambda>c. c \<in> set ''.:%'') s = Some c"
    by (auto simp: ParseIP_def split: option.splits)
  consider (v4) f where "parse_ipv4 s = Some f" | (v6) "parse_ipv6 s = Some b"
    using a c by (auto simp: ParseIP_def split: if_splits)
  then show ?thesis
  proof cases
    case v4
    then show ?thesis unfolding parse_ipv4_def by (rule ipv4_fields_chars)
  next
    case v6
    have colon: "addr_char CHR '':''" by (simp add: addr_char_def)
    define t where "t = (if HasPrefix s ''::'' then drop 2 s else s)"
    have "list_all addr_char t"
      using v6 by (auto simp: parse_ipv6_def Let_def t_def split: if_splits option.splits prod.splits
          dest!: ipv6_groups_chars)
    then show ?thesis
      using colon by (auto simp: t_def HasPrefix_iff split: if_splits)
  qed
qed

lemma Address_chars: "Address s \<Longrightarrow> s \<noteq> [] \<and> length s \<le> 253 \<and> list_all addr_char s"
  using ParseIP_chars [of s]
  by (cases "ParseIP s") (auto simp: Address_def list_all_iff addr_char_def split: if_splits)

lemma ValidateHost_ok:
  "ValidateHost h = Inr u \<longleftrightarrow>
     Name (hName h) \<and> Env (hEnvironment h) \<and> Address (hAddress h) \<and> Port (hPort h)
     \<and> Name (hUsername h) \<and> \<not> ContainsAny (hUsername h) ('' '' @ [CHR 0x09] @ ''@/'' @ [CHR 0x5C])
     \<and> hType h \<in> {''Bastion'', ''Server'', ''Database'', ''Other''} \<and> hKeyID h \<noteq> []
     \<and> (hID h = [] \<or> hJumpID h \<noteq> hID h)
     \<and> (hFingerprint h = [] \<or> HasPrefix (hFingerprint h) ''SHA256:'' \<and> length (hFingerprint h) = 50)"
  by (auto simp: ValidateHost_def res_simps)

lemma ValidateTunnel_ok:
  "ValidateTunnel t = Inr u \<longleftrightarrow>
     Name (tName t) \<and> tLocalHost t = ''127.0.0.1'' \<and> Port (tLocalPort t)
     \<and> Address (tRemoteHost t) \<and> Port (tRemotePort t) \<and> tHostID t \<noteq> []"
  by (simp add: ValidateTunnel_def res_simps)

lemma ValidateService_ok:
  "ValidateService up s t = Inr x \<longleftrightarrow>
     Name (sName s) \<and> Env (sEnvironment s) \<and> sTunnelID s \<noteq> [] \<and> service_url_ok up (sURL s) \<and>
     (\<exists>u. up (sURL s) = Some u \<and> effective_port u = Itoa (tLocalPort t))"
  by (auto simp: ValidateService_def res_simps service_url_ok_def split: option.splits)

section \<open>Valid records: the specification of the checks\<close>

text \<open>
  What the checks are for, said without them: a name has something to read in it and stays on one
  line, an address is an IP literal or made of plain host characters, a tunnel listens on loopback
  only, and a service is a plain web address on the loopback port of its tunnel.
\<close>

definition valid_name :: "string \<Rightarrow> bool" where
  "valid_name s \<longleftrightarrow> (\<exists>r \<in> set (runes s). \<not> IsSpace r) \<and> length s \<le> 160
     \<and> CHR 0x00 \<notin> set s \<and> CHR 0x0D \<notin> set s \<and> CHR 0x0A \<notin> set s"

definition valid_address :: "string \<Rightarrow> bool" where
  "valid_address s \<longleftrightarrow> s \<noteq> [] \<and> length s \<le> 253
     \<and> (ParseIP s \<noteq> None
        \<or> set s \<subseteq> set ''abcdefghijklmnopqrstuvwxyzABCDEFGHIJKLMNOPQRSTUVWXYZ0123456789.-_'')"

definition valid_key :: "key \<Rightarrow> bool" where
  "valid_key k \<longleftrightarrow> valid_name (kName k) \<and> kPath k \<noteq> []"

definition valid_host :: "host \<Rightarrow> bool" where
  "valid_host h \<longleftrightarrow> valid_name (hName h) \<and> hEnvironment h \<in> {''LOCAL'', ''DEV'', ''STG'', ''PROD''}
     \<and> hType h \<in> {''Bastion'', ''Server'', ''Database'', ''Other''}
     \<and> valid_address (hAddress h) \<and> hPort h \<in> {1..65535}
     \<and> valid_name (hUsername h) \<and> set (hUsername h) \<inter> {CHR '' '', CHR 0x09, CHR ''@'', CHR ''/'', CHR 0x5C} = {}
     \<and> hKeyID h \<noteq> [] \<and> (hJumpID h = [] \<or> hJumpID h \<noteq> hID h)
     \<and> (hFingerprint h = [] \<or> (\<exists>f. hFingerprint h = ''SHA256:'' @ f \<and> length f = 43))"

definition valid_tunnel :: "tunnel \<Rightarrow> bool" where
  "valid_tunnel t \<longleftrightarrow> valid_name (tName t) \<and> tLocalHost t = ''127.0.0.1'' \<and> tLocalPort t \<in> {1..65535}
     \<and> valid_address (tRemoteHost t) \<and> tRemotePort t \<in> {1..65535} \<and> tHostID t \<noteq> []"

definition valid_service :: "(string \<Rightarrow> url option) \<Rightarrow> service \<Rightarrow> tunnel \<Rightarrow> bool" where
  "valid_service up v t \<longleftrightarrow> valid_name (sName v) \<and> sEnvironment v \<in> {''LOCAL'', ''DEV'', ''STG'', ''PROD''}
     \<and> sTunnelID v \<noteq> [] \<and> CHR 0x00 \<notin> set (sURL v) \<and> CHR 0x0D \<notin> set (sURL v) \<and> CHR 0x0A \<notin> set (sURL v)
     \<and> (\<exists>u. up (sURL v) = Some u \<and> uScheme u \<in> {''http'', ''https''} \<and> \<not> uHasUser u \<and> uOpaque u = []
        \<and> Hostname u = ''127.0.0.1''
        \<and> (url_Port u = Itoa (tLocalPort t)
           \<or> url_Port u = [] \<and> tLocalPort t = (if uScheme u = ''https'' then 443 else 80)))"

lemma Env_valid: "Env e \<longleftrightarrow> e \<in> {''LOCAL'', ''DEV'', ''STG'', ''PROD''}"
  by (simp add: Env_def)

lemma Port_valid: "Port p \<longleftrightarrow> p \<in> {1..65535}"
  by (auto simp: Port_def)

lemma rune_chunk_nonempty: "(r, b) \<in> set (rune_chunks s) \<Longrightarrow> b \<noteq> []"
proof (induction s rule: rune_chunks.induct)
  case (1 s)
  show ?case
  proof (cases "s = []")
    case False
    with "1.prems" "1.IH" [OF False] decode_rune_width [OF False] show ?thesis
      by (subst (asm) rune_chunks.simps) (auto simp: Let_def split: prod.splits)
  qed (use "1.prems" in simp)
qed

lemma TrimSpace_Nil: "TrimSpace s = [] \<longleftrightarrow> (\<forall>r \<in> set (runes s). IsSpace r)"
proof -
  let ?sp = "\<lambda>(r, b :: string). IsSpace r"
  have d: "dropWhile ?sp (rev (dropWhile ?sp cs)) = [] \<longleftrightarrow> (\<forall>c \<in> set cs. ?sp c)" for cs
  proof (cases "\<forall>c \<in> set cs. ?sp c")
    case False
    then have "dropWhile ?sp cs \<noteq> []" by simp
    with hd_dropWhile [OF this] have "\<exists>c \<in> set (dropWhile ?sp cs). \<not> ?sp c" by (intro bexI [of _ "hd (dropWhile ?sp cs)"]) auto
    with False show ?thesis by (simp only: dropWhile_eq_Nil_conv set_rev) blast
  qed (auto dest!: set_dropWhileD)
  have e: "concat (map snd cs) = [] \<longleftrightarrow> cs = []" if "set cs \<subseteq> set (rune_chunks s)" for cs
    using that by (cases cs) (auto dest: rune_chunk_nonempty)
  have "TrimSpace s = [] \<longleftrightarrow> rev (dropWhile ?sp (rev (dropWhile ?sp (rune_chunks s)))) = []"
    unfolding TrimSpace_def Let_def by (rule e) (auto dest!: set_dropWhileD)
  also have "\<dots> \<longleftrightarrow> dropWhile ?sp (rev (dropWhile ?sp (rune_chunks s))) = []" by (rule rev_is_Nil_conv)
  also have "\<dots> \<longleftrightarrow> (\<forall>r \<in> set (runes s). IsSpace r)" unfolding d by (auto simp: runes_def)
  finally show ?thesis .
qed

lemma Name_valid: "Name s \<longleftrightarrow> valid_name s"
  by (auto simp: Name_def valid_name_def TrimSpace_Nil ContainsAny_iff)

lemma host_char_codes:
  "map code ''abcdefghijklmnopqrstuvwxyzABCDEFGHIJKLMNOPQRSTUVWXYZ0123456789.-_'' =
     [97..<123] @ [65..<91] @ [48..<58] @ [46, 45, 95]"
  by (simp add: upt_rec_numeral)

lemma host_chars:
  "host_char c \<longleftrightarrow> c \<in> set ''abcdefghijklmnopqrstuvwxyzABCDEFGHIJKLMNOPQRSTUVWXYZ0123456789.-_''"
proof -
  let ?cs = "''abcdefghijklmnopqrstuvwxyzABCDEFGHIJKLMNOPQRSTUVWXYZ0123456789.-_''"
  have "c \<in> set ?cs \<longleftrightarrow> code c \<in> code ` set ?cs"
    by (rule inj_image_mem_iff [symmetric]) (rule inj_of_char)
  also have "code ` set ?cs = set (map code ?cs)" by (rule set_map [symmetric])
  also have "code c \<in> \<dots> \<longleftrightarrow> host_char c"
  proof -
    have "c = CHR ''.'' \<longleftrightarrow> code c = code CHR ''.''" "c = CHR ''-'' \<longleftrightarrow> code c = code CHR ''-''"
      "c = CHR ''_'' \<longleftrightarrow> code c = code CHR ''_''" by (simp_all only: of_char_eq_iff)
    moreover have "code CHR ''.'' = 46" "code CHR ''-'' = 45" "code CHR ''_'' = 95" by simp_all
    ultimately have "host_char c \<longleftrightarrow> code c \<in> {97..<123} \<union> {65..<91} \<union> {48..<58} \<union> {46, 45, 95}"
      unfolding host_char_def Let_def by auto
    then show ?thesis by (simp only: host_char_codes set_append set_upt list.set Un_assoc)
  qed
  finally show ?thesis by (rule sym)
qed

lemma host_chars_all:
  "list_all host_char s \<longleftrightarrow> set s \<subseteq> set ''abcdefghijklmnopqrstuvwxyzABCDEFGHIJKLMNOPQRSTUVWXYZ0123456789.-_''"
  unfolding list_all_iff subset_eq host_chars ..

lemma addr_chars_plain:
  "list_all addr_char s \<Longrightarrow> \<not> ContainsAny s ('' '' @ [CHR 0x09, CHR 0x0D, CHR 0x0A] @ ''/'' @ [CHR 0x5C] @ ''@?#%'')"
  by (induction s) (auto simp: addr_char_def host_char_def Let_def)

lemma Address_valid: "Address s \<longleftrightarrow> valid_address s"
proof -
  have "list_all addr_char s" if "ParseIP s \<noteq> None \<or> list_all host_char s"
    using that ParseIP_chars by (auto simp: list_all_iff addr_char_def)
  with addr_chars_plain [of s] show ?thesis
    unfolding Address_def valid_address_def host_chars_all [symmetric] by (auto simp del: append.simps)
qed

lemma plain_user:
  "\<not> ContainsAny s ('' '' @ [CHR 0x09] @ ''@/'' @ [CHR 0x5C]) \<longleftrightarrow>
     set s \<inter> {CHR '' '', CHR 0x09, CHR ''@'', CHR ''/'', CHR 0x5C} = {}"
  by (simp add: ContainsAny_iff)

lemma ValidateHost_valid: "ok (ValidateHost h) \<longleftrightarrow> valid_host h"
proof -
  have "hID h = [] \<or> hJumpID h \<noteq> hID h \<longleftrightarrow> hJumpID h = [] \<or> hJumpID h \<noteq> hID h" by auto
  moreover have "HasPrefix f ''SHA256:'' \<and> length f = 50 \<longleftrightarrow> (\<exists>t. f = ''SHA256:'' @ t \<and> length t = 43)" for f
    by (auto simp: HasPrefix_iff)
  ultimately show ?thesis
    unfolding ok_unit ValidateHost_ok valid_host_def Name_valid Env_valid Address_valid Port_valid plain_user
    by (simp only: conj_ac)
qed

lemma ValidateTunnel_valid: "ok (ValidateTunnel t) \<longleftrightarrow> valid_tunnel t"
  by (simp add: ok_unit ValidateTunnel_ok valid_tunnel_def Name_valid Address_valid Port_valid)

lemma Itoa_inj: "Itoa i = Itoa j \<longleftrightarrow> i = j"
proof -
  have "CHR ''-'' # x \<noteq> nat_digits n" for x n
    using nat_digits_digits [of n] by (cases "nat_digits n") (auto simp: is_digit_def)
  then show ?thesis by (auto simp: Itoa_def nat_digits_inj dest: sym)
qed

lemma Itoa_web: "Itoa 80 = ''80''" "Itoa 443 = ''443''"
  by code_simp+

lemma effective_port_iff:
  "effective_port u = Itoa p \<longleftrightarrow>
     url_Port u = Itoa p \<or> url_Port u = [] \<and> p = (if uScheme u = ''https'' then 443 else 80)"
proof -
  have "Itoa p \<noteq> []" by (simp add: Itoa_def)
  then show ?thesis
    using Itoa_inj [of p 443] Itoa_inj [of p 80] unfolding Itoa_web effective_port_def by auto
qed

lemma ValidateService_valid: "ok (ValidateService up v t) \<longleftrightarrow> valid_service up v t"
  unfolding ok_unit ValidateService_ok valid_service_def service_url_ok_def effective_port_iff
    Name_valid Env_valid
  by (cases "up (sURL v)") (auto simp: ContainsAny_iff)

end
