(* ===== verification/Database.thy ===== *)
theory Database
  imports Model "HOL-Library.Char_ord" "HOL-Library.List_Lexorder" "HOL-Library.Multiset"
begin

text \<open>
  internal/database: the SQLite store. A table is the list of its rows in rowid order, a row the
  value of its \<open>id\<close> column and the record its JSON column decodes to. Which SQL statements
  succeed is a parameter \<open>q\<close>. encoding/json keeps every field of the program's records but
  replaces invalid UTF-8 in strings by U+FFFD (\<open>to_valid\<close>); byte slices are kept.
\<close>

section \<open>Identifiers\<close>

text \<open>\<open>ID\<close>: 16 bytes of crypto/rand in hexadecimal. \<open>rnd n\<close> are the bytes of the n-th call.\<close>

definition ID :: "(nat \<Rightarrow> string) \<Rightarrow> nat \<Rightarrow> string" where
  "ID rnd n = EncodeToString (rnd n)"

lemma length_ID: "length (rnd n) = 16 \<Longrightarrow> length (ID rnd n) = 32"
  by (simp add: ID_def length_EncodeToString)

lemma ID_inj: "ID rnd m = ID rnd n \<longleftrightarrow> rnd m = rnd n"
  using Decode_Encode_hex by (metis ID_def option.inject)

section \<open>JSON columns\<close>

definition json_key :: "key \<Rightarrow> key" where
  "json_key k = \<lparr>kID = to_valid (kID k), kName = to_valid (kName k), kPath = to_valid (kPath k)\<rparr>"

definition json_host :: "host \<Rightarrow> host" where
  "json_host h = \<lparr>hID = to_valid (hID h), hName = to_valid (hName h),
     hEnvironment = to_valid (hEnvironment h), hType = to_valid (hType h),
     hAddress = to_valid (hAddress h), hPort = hPort h, hUsername = to_valid (hUsername h),
     hKeyID = to_valid (hKeyID h), hJumpID = to_valid (hJumpID h),
     hDescription = to_valid (hDescription h), hFingerprint = to_valid (hFingerprint h)\<rparr>"

definition json_tunnel :: "tunnel \<Rightarrow> tunnel" where
  "json_tunnel t = \<lparr>tID = to_valid (tID t), tName = to_valid (tName t),
     tLocalHost = to_valid (tLocalHost t), tLocalPort = tLocalPort t,
     tRemoteHost = to_valid (tRemoteHost t), tRemotePort = tRemotePort t,
     tHostID = to_valid (tHostID t), tAutoReconnect = tAutoReconnect t,
     tDescription = to_valid (tDescription t)\<rparr>"

definition json_service :: "service \<Rightarrow> service" where
  "json_service v = \<lparr>sID = to_valid (sID v), sName = to_valid (sName v),
     sEnvironment = to_valid (sEnvironment v), sTunnelID = to_valid (sTunnelID v),
     sURL = to_valid (sURL v), sDescription = to_valid (sDescription v)\<rparr>"

definition json_history :: "history \<Rightarrow> history" where
  "json_history y = \<lparr>yID = to_valid (yID y), yHostID = to_valid (yHostID y),
     yHostName = to_valid (yHostName y), yKind = to_valid (yKind y), yStatus = to_valid (yStatus y),
     yError = to_valid (yError y), yAt = to_valid (yAt y)\<rparr>"

definition json_settings :: "settings \<Rightarrow> settings" where
  "json_settings g = \<lparr>KnownHosts = to_valid (KnownHosts g), SSHConfig = to_valid (SSHConfig g)\<rparr>"

definition json_source :: "team_source \<Rightarrow> team_source" where
  "json_source t = \<lparr>tsURL = to_valid (tsURL t), tsFeed = to_valid (tsFeed t),
     tsPublicKey = tsPublicKey t\<rparr>"

definition json_team :: "team_subscription \<Rightarrow> team_subscription" where
  "json_team t = \<lparr>Source = json_source (Source t),
     Items = map (\<lambda>(k, v). (to_valid k, to_valid v)) (Items t),
     LastSync = to_valid (LastSync t), SubError = to_valid (SubError t), Paused = Paused t\<rparr>"

section \<open>The database file\<close>

type_synonym 'a rows = "(string \<times> 'a) list"

record db =
  dbVersion :: int
  dbTables :: "string list"
  dHosts :: "host rows"
  dKeys :: "key rows"
  dTunnels :: "tunnel rows"
  dServices :: "service rows"
  dHistory :: "history rows"
  dSettings :: "settings rows"
  dTeam :: "team_subscription rows"
  dLocal :: "string rows"

text \<open>SQL statements that may fail: \<open>Insert t i\<close> is the i-th insert into \<open>t\<close>.\<close>

datatype stmt = Pragma | Migrate nat | CountSettings | InsertDefaults
  | Read string | Begin | DeleteAll string | Insert string nat | Commit
  | LocalSelect string | LocalInsert string | HistoryInsert | HistoryTrim

definition fresh_db :: db where
  "fresh_db = \<lparr>dbVersion = 0, dbTables = [], dHosts = [], dKeys = [], dTunnels = [],
     dServices = [], dHistory = [], dSettings = [], dTeam = [], dLocal = []\<rparr>"

definition migration_001 :: "string list" where
  "migration_001 = [''hosts'', ''ssh_keys'', ''tunnels'', ''services'', ''connection_history'',
     ''settings'']"

definition migration_002 :: "string list" where
  "migration_002 = [''team_sources'', ''local_metadata'']"

text \<open>A migration's transaction: CREATE TABLE fails for a table that exists.\<close>

definition migrate :: "(stmt \<Rightarrow> bool) \<Rightarrow> nat \<Rightarrow> string list \<Rightarrow> db \<Rightarrow> db res" where
  "migrate q v ts d =
     rbind (check (q (Migrate v) \<and> list_all (\<lambda>t. t \<notin> set (dbTables d)) ts) (DbErr DBFailure))
       (\<lambda>_. Inr (d\<lparr>dbTables := dbTables d @ ts, dbVersion := int v\<rparr>))"

definition Open :: "(stmt \<Rightarrow> bool) \<Rightarrow> settings \<Rightarrow> db \<Rightarrow> db res" where
  "Open q defaults d =
     rbind (check (q Pragma) (DbErr DBFailure))
     (\<lambda>_. let version = dbVersion d in
       rbind (check (\<not> version > 2) (DbErr DBTooNew))
     (\<lambda>_. rbind (if version < 1 then migrate q 1 migration_001 d else Inr d)
     (\<lambda>d1. rbind (if version < 2 then migrate q 2 migration_002 d1 else Inr d1)
     (\<lambda>d2. rbind (check (q CountSettings) (DbErr DBFailure))
     (\<lambda>_. if dSettings d2 = []
           then rbind (check (q InsertDefaults) (DbErr DBFailure))
             (\<lambda>_. Inr (d2\<lparr>dSettings := [(''global'', json_settings defaults)]\<rparr>))
           else Inr d2)))))"

section \<open>Reading\<close>

text \<open>\<open>sort.Slice\<close> by descending \<open>At\<close>; rows of equal \<open>At\<close> keep their order here, which
  \<open>sort.Slice\<close> does not promise and no lemma uses.\<close>

definition sort_history :: "history list \<Rightarrow> history list" where
  "sort_history ys = rev (sort_key yAt (rev ys))"

definition load :: "db \<Rightarrow> state" where
  "load d = \<lparr>Team = map snd (dTeam d), Hosts = map snd (dHosts d), Keys = map snd (dKeys d),
     Tunnels = map snd (dTunnels d), Services = map snd (dServices d),
     History = sort_history (map snd (dHistory d)),
     Settings = (case dSettings d of [] \<Rightarrow> empty_settings | r # _ \<Rightarrow> snd r)\<rparr>"

definition read_order :: "string list" where
  "read_order = [''team_sources'', ''hosts'', ''ssh_keys'', ''tunnels'', ''services'',
     ''connection_history'', ''settings'']"

definition Snapshot :: "(stmt \<Rightarrow> bool) \<Rightarrow> db \<Rightarrow> state res" where
  "Snapshot q d = rbind (rall (\<lambda>t. check (q (Read t)) (DbErr DBFailure)) read_order) (\<lambda>_. Inr (load d))"

section \<open>Validation of a whole state\<close>

definition validate_host_in :: "state \<Rightarrow> string list \<Rightarrow> host \<Rightarrow> string list res" where
  "validate_host_in s names h =
     rbind (ValidateHost h)
     (\<lambda>_. rbind (check (hName h \<notin> set names) (DbErr DuplicateHost))
     (\<lambda>_. rbind (State_Key s (hKeyID h))
     (\<lambda>_. rbind (Chain s (hID h))
     (\<lambda>_. Inr (hName h # names)))))"

definition Validate :: "(string \<Rightarrow> url option) \<Rightarrow> state \<Rightarrow> unit res" where
  "Validate up s =
     rbind (rall (\<lambda>k. check (Name (kName k) \<and> kPath k \<noteq> []) (DbErr BadKey)) (Keys s))
     (\<lambda>_. rbind (rfold (validate_host_in s) [] (Hosts s))
     (\<lambda>_. rbind (rall (\<lambda>t. rbind (ValidateTunnel t) (\<lambda>_. rbind (State_Host s (tHostID t)) (\<lambda>_. Inr ())))
              (Tunnels s))
     (\<lambda>_. rall (\<lambda>v. rbind (State_Tunnel s (sTunnelID v)) (ValidateService up v)) (Services s))))"

text \<open>What a valid state is, said without the checks and their order.\<close>

definition well_formed :: "(string \<Rightarrow> url option) \<Rightarrow> state \<Rightarrow> bool" where
  "well_formed up s \<longleftrightarrow>
     (\<forall>k \<in> set (Keys s). valid_key k) \<and>
     distinct (map hName (Hosts s)) \<and>
     (\<forall>h \<in> set (Hosts s). valid_host h \<and> hKeyID h \<in> kID ` set (Keys s)
        \<and> (\<exists>hs. route s (hID h) hs \<and> length hs \<le> 16)) \<and>
     (\<forall>t \<in> set (Tunnels s). valid_tunnel t \<and> tHostID t \<in> hID ` set (Hosts s)) \<and>
     (\<forall>v \<in> set (Services s). \<exists>t. find_id tID (sTunnelID v) (Tunnels s) = Some t \<and> valid_service up v t)"

text \<open>The same over the checks of the records.\<close>

lemma well_formed_checks:
  "well_formed up s \<longleftrightarrow>
     (\<forall>k \<in> set (Keys s). Name (kName k) \<and> kPath k \<noteq> []) \<and>
     distinct (map hName (Hosts s)) \<and>
     (\<forall>h \<in> set (Hosts s). ok (ValidateHost h) \<and> hKeyID h \<in> kID ` set (Keys s)
        \<and> (\<exists>hs. route s (hID h) hs \<and> length hs \<le> 16)) \<and>
     (\<forall>t \<in> set (Tunnels s). ok (ValidateTunnel t) \<and> tHostID t \<in> hID ` set (Hosts s)) \<and>
     (\<forall>v \<in> set (Services s). \<exists>t. State_Tunnel s (sTunnelID v) = Inr t \<and> ok (ValidateService up v t))"
  by (simp only: well_formed_def valid_key_def Name_valid ValidateHost_valid ValidateTunnel_valid
      ValidateService_valid State_Tunnel_Inr)

lemma validate_host_in_Inr:
  "validate_host_in s names h = Inr names' \<longleftrightarrow>
     names' = hName h # names \<and> ok (ValidateHost h) \<and> hName h \<notin> set names \<and>
     hKeyID h \<in> kID ` set (Keys s) \<and> (\<exists>hs. route s (hID h) hs \<and> length hs \<le> 16)"
proof -
  have "hKeyID h \<in> kID ` set (Keys s) \<longleftrightarrow> (\<exists>k. State_Key s (hKeyID h) = Inr k)"
    by (simp only: ok_State_Key [symmetric] ok_iff)
  then show ?thesis
    by (auto simp: validate_host_in_def res_simps ok_iff Chain_iff_route)
qed

lemma validate_hosts_Inr:
  "(\<exists>r. rfold (validate_host_in s) names hs = Inr r) \<longleftrightarrow>
     distinct (map hName hs) \<and> set (map hName hs) \<inter> set names = {} \<and>
     (\<forall>h \<in> set hs. ok (ValidateHost h) \<and> hKeyID h \<in> kID ` set (Keys s)
        \<and> (\<exists>r. route s (hID h) r \<and> length r \<le> 16))"
proof (induction hs arbitrary: names)
  case Nil
  show ?case by simp
next
  case (Cons h hs)
  have "(\<exists>r. rfold (validate_host_in s) names (h # hs) = Inr r) \<longleftrightarrow>
      (\<exists>names'. validate_host_in s names h = Inr names' \<and>
         (\<exists>r. rfold (validate_host_in s) names' hs = Inr r))"
    by (auto simp: res_simps)
  then show ?case by (simp only: validate_host_in_Inr Cons.IH) auto
qed

theorem Validate_iff: "Validate up s = Inr () \<longleftrightarrow> well_formed up s"
proof -
  have k: "rall (\<lambda>k. check (Name (kName k) \<and> kPath k \<noteq> []) (DbErr BadKey)) (Keys s) = Inr u \<longleftrightarrow>
      (\<forall>k \<in> set (Keys s). Name (kName k) \<and> kPath k \<noteq> [])" for u
    by (simp add: res_simps)
  have t: "rall (\<lambda>t. rbind (ValidateTunnel t) (\<lambda>_. rbind (State_Host s (tHostID t)) (\<lambda>_. Inr ())))
      (Tunnels s) = Inr u \<longleftrightarrow>
      (\<forall>t \<in> set (Tunnels s). ok (ValidateTunnel t) \<and> tHostID t \<in> hID ` set (Hosts s))" for u
    by (simp add: res_simps ok_State_Host [symmetric] ok_iff)
  have v: "rall (\<lambda>v. rbind (State_Tunnel s (sTunnelID v)) (ValidateService up v)) (Services s) = Inr () \<longleftrightarrow>
      (\<forall>v \<in> set (Services s). \<exists>t. State_Tunnel s (sTunnelID v) = Inr t \<and> ok (ValidateService up v t))"
    by (simp add: res_simps ok_unit)
  show ?thesis
    unfolding Validate_def rbind_eq_Inr k t v well_formed_checks
    using validate_hosts_Inr [of s "[]" "Hosts s"] by auto
qed

section \<open>Writing\<close>

text \<open>\<open>write\<close>: the table is emptied and filled again, one insert per record.\<close>

definition write_rows :: "(stmt \<Rightarrow> bool) \<Rightarrow> string \<Rightarrow> ('a \<Rightarrow> string) \<Rightarrow> ('a \<Rightarrow> 'a) \<Rightarrow> 'a list \<Rightarrow> 'a rows res" where
  "write_rows q tbl idf json vs =
     rbind (check (q (DeleteAll tbl)) (DbErr DBFailure))
     (\<lambda>_. rbind (rall (\<lambda>i. check (q (Insert tbl i)) (DbErr DBFailure)) [0..<length vs])
     (\<lambda>_. Inr (map (\<lambda>v. (idf v, json v)) vs)))"

definition write_state :: "(stmt \<Rightarrow> bool) \<Rightarrow> state \<Rightarrow> db \<Rightarrow> db res" where
  "write_state q s d =
     rbind (write_rows q ''hosts'' hID json_host (Hosts s))
     (\<lambda>hs. rbind (write_rows q ''ssh_keys'' kID json_key (Keys s))
     (\<lambda>ks. rbind (write_rows q ''tunnels'' tID json_tunnel (Tunnels s))
     (\<lambda>ts. rbind (write_rows q ''services'' sID json_service (Services s))
     (\<lambda>vs. rbind (write_rows q ''settings'' (\<lambda>_. ''global'') json_settings [Settings s])
     (\<lambda>gs. rbind (write_rows q ''team_sources'' (\<lambda>t. tsFeed (Source t)) json_team (Team s))
     (\<lambda>ms. Inr (d\<lparr>dHosts := hs, dKeys := ks, dTunnels := ts, dServices := vs,
                 dSettings := gs, dTeam := ms\<rparr>)))))))"

text \<open>
  \<open>Update\<close>: read, change, validate and write in one transaction. The result is the error (or
  none) and the database afterwards; the deferred \<open>Rollback\<close> discards a failed transaction.
\<close>

definition Update :: "(string \<Rightarrow> url option) \<Rightarrow> (stmt \<Rightarrow> bool) \<Rightarrow> (state \<Rightarrow> state res) \<Rightarrow> db \<Rightarrow> unit res \<times> db" where
  "Update up q fn d =
     (case rbind (Snapshot q d)
        (\<lambda>s. rbind (fn s)
        (\<lambda>s'. rbind (Validate up s')
        (\<lambda>_. rbind (check (q Begin) (DbErr DBFailure))
        (\<lambda>_. rbind (write_state q s' d)
        (\<lambda>d'. rbind (check (q Commit) (DbErr DBFailure))
        (\<lambda>_. Inr d'))))))
      of Inl e \<Rightarrow> (Inl e, d)
       | Inr d' \<Rightarrow> (Inr (), d'))"

section \<open>Local metadata and connection history\<close>

definition LocalValue ::
  "(stmt \<Rightarrow> bool) \<Rightarrow> string \<Rightarrow> string res option \<Rightarrow> db \<Rightarrow> string res \<times> db" where
  "LocalValue q i create d =
     (if \<not> q (LocalSelect i) then (Inl (DbErr DBFailure), d)
      else case map_of (dLocal d) i of
        Some v \<Rightarrow> (Inr v, d)
      | None \<Rightarrow>
          (case create of
             None \<Rightarrow> (Inl (DbErr NoLocalValue), d)
           | Some (Inl e) \<Rightarrow> (Inl e, d)
           | Some (Inr v) \<Rightarrow>
               if q (LocalInsert i) then (Inr v, d\<lparr>dLocal := dLocal d @ [(i, v)]\<rparr>)
               else (Inl (DbErr DBFailure), d)))"

text \<open>\<open>Record\<close>: one row for a connection attempt, then all but the newest 200 rows are deleted.
  \<open>at\<close> is the time as RFC3339Nano, \<open>msg\<close> the error's text.\<close>

definition history_limit :: nat where
  "history_limit = 200"

definition history_entry :: "string \<Rightarrow> string \<Rightarrow> host \<Rightarrow> string \<Rightarrow> string option \<Rightarrow> history" where
  "history_entry i at h kind err =
     \<lparr>yID = i, yHostID = hID h, yHostName = hName h, yKind = kind,
      yStatus = (case err of None \<Rightarrow> ''connected'' | Some _ \<Rightarrow> ''error''),
      yError = (case err of None \<Rightarrow> [] | Some m \<Rightarrow> m), yAt = at\<rparr>"

definition Record :: "(stmt \<Rightarrow> bool) \<Rightarrow> string \<Rightarrow> string \<Rightarrow> host \<Rightarrow> string \<Rightarrow> string option \<Rightarrow> db \<Rightarrow> db" where
  "Record q i at h kind err d =
     (let rows = (if q HistoryInsert
             then dHistory d @ [(i, json_history (history_entry i at h kind err))] else dHistory d)
      in d\<lparr>dHistory := (if q HistoryTrim then drop (length rows - history_limit) rows else rows)\<rparr>)"

section \<open>Slices of records\<close>

fun replace_first :: "('a \<Rightarrow> string) \<Rightarrow> string \<Rightarrow> 'a \<Rightarrow> 'a list \<Rightarrow> 'a list option" where
  "replace_first f i v [] = None"
| "replace_first f i v (x # xs) =
     (if f x = i then Some (v # xs) else map_option ((#) x) (replace_first f i v xs))"

definition Replace :: "'a list \<Rightarrow> string \<Rightarrow> 'a \<Rightarrow> ('a \<Rightarrow> string) \<Rightarrow> 'a list res" where
  "Replace xs i v getID =
     (if i = [] then Inr (xs @ [v])
      else case replace_first getID i v xs of Some ys \<Rightarrow> Inr ys | None \<Rightarrow> Inl (DbErr (NoRecord i)))"

fun delete_first :: "('a \<Rightarrow> string) \<Rightarrow> string \<Rightarrow> 'a list \<Rightarrow> 'a list option" where
  "delete_first f i [] = None"
| "delete_first f i (x # xs) =
     (if f x = i then Some xs else map_option ((#) x) (delete_first f i xs))"

definition Delete :: "'a list \<Rightarrow> string \<Rightarrow> ('a \<Rightarrow> string) \<Rightarrow> 'a list res" where
  "Delete xs i getID =
     (case delete_first getID i xs of Some ys \<Rightarrow> Inr ys | None \<Rightarrow> Inl (DbErr NoRecordToDelete))"


section \<open>Facts about slices\<close>

lemma replace_first_append:
  "f x = i \<Longrightarrow> i \<notin> f ` set a \<Longrightarrow> replace_first f i v (a @ x # b) = Some (a @ v # b)"
  by (induction a) auto

lemma replace_first_SomeD:
  "replace_first f i v xs = Some ys \<Longrightarrow>
     \<exists>a x b. xs = a @ x # b \<and> f x = i \<and> i \<notin> f ` set a \<and> ys = a @ v # b"
proof (induction xs arbitrary: ys)
  case (Cons y xs)
  show ?case
  proof (cases "f y = i")
    case True
    with Cons.prems show ?thesis by (intro exI [of _ "[]"]) auto
  next
    case False
    with Cons.prems obtain zs where "replace_first f i v xs = Some zs" "ys = y # zs" by auto
    with Cons.IH obtain a x b where
      "xs = a @ x # b" "f x = i" "i \<notin> f ` set a" "zs = a @ v # b" by blast
    with False \<open>ys = y # zs\<close> show ?thesis by (intro exI [of _ "y # a"]) auto
  qed
qed simp

lemma replace_first_Some:
  "replace_first f i v xs = Some ys \<longleftrightarrow>
     (\<exists>a x b. xs = a @ x # b \<and> f x = i \<and> i \<notin> f ` set a \<and> ys = a @ v # b)"
proof
  assume "replace_first f i v xs = Some ys"
  then show "\<exists>a x b. xs = a @ x # b \<and> f x = i \<and> i \<notin> f ` set a \<and> ys = a @ v # b"
    by (rule replace_first_SomeD)
next
  assume "\<exists>a x b. xs = a @ x # b \<and> f x = i \<and> i \<notin> f ` set a \<and> ys = a @ v # b"
  then show "replace_first f i v xs = Some ys" by (auto simp: replace_first_append)
qed

lemma delete_first_append:
  "f x = i \<Longrightarrow> i \<notin> f ` set a \<Longrightarrow> delete_first f i (a @ x # b) = Some (a @ b)"
  by (induction a) auto

lemma delete_first_SomeD:
  "delete_first f i xs = Some ys \<Longrightarrow>
     \<exists>a x b. xs = a @ x # b \<and> f x = i \<and> i \<notin> f ` set a \<and> ys = a @ b"
proof (induction xs arbitrary: ys)
  case (Cons y xs)
  show ?case
  proof (cases "f y = i")
    case True
    with Cons.prems show ?thesis by (intro exI [of _ "[]"]) auto
  next
    case False
    with Cons.prems obtain zs where "delete_first f i xs = Some zs" "ys = y # zs" by auto
    with Cons.IH obtain a x b where
      "xs = a @ x # b" "f x = i" "i \<notin> f ` set a" "zs = a @ b" by blast
    with False \<open>ys = y # zs\<close> show ?thesis by (intro exI [of _ "y # a"]) auto
  qed
qed simp

lemma delete_first_Some:
  "delete_first f i xs = Some ys \<longleftrightarrow>
     (\<exists>a x b. xs = a @ x # b \<and> f x = i \<and> i \<notin> f ` set a \<and> ys = a @ b)"
proof
  assume "delete_first f i xs = Some ys"
  then show "\<exists>a x b. xs = a @ x # b \<and> f x = i \<and> i \<notin> f ` set a \<and> ys = a @ b"
    by (rule delete_first_SomeD)
next
  assume "\<exists>a x b. xs = a @ x # b \<and> f x = i \<and> i \<notin> f ` set a \<and> ys = a @ b"
  then show "delete_first f i xs = Some ys" by (auto simp: delete_first_append)
qed

lemma replace_first_None: "replace_first f i v xs = None \<longleftrightarrow> i \<notin> f ` set xs"
  by (induction xs) auto

lemma delete_first_None: "delete_first f i xs = None \<longleftrightarrow> i \<notin> f ` set xs"
  by (induction xs) auto

lemma Replace_Inr:
  "Replace xs i v f = Inr ys \<longleftrightarrow>
     (if i = [] then ys = xs @ [v]
      else \<exists>a x b. xs = a @ x # b \<and> f x = i \<and> i \<notin> f ` set a \<and> ys = a @ v # b)"
  by (auto simp: Replace_def replace_first_Some [symmetric] split: option.splits)

lemma Delete_Inr:
  "Delete xs i f = Inr ys \<longleftrightarrow> (\<exists>a x b. xs = a @ x # b \<and> f x = i \<and> i \<notin> f ` set a \<and> ys = a @ b)"
  by (auto simp: Delete_def delete_first_Some [symmetric] split: option.splits)

lemma find_id_Replace:
  assumes "Replace xs i v f = Inr ys" "f v = i" "i \<noteq> []"
  shows "find_id f j ys = (if j = i then Some v else find_id f j xs)"
proof -
  obtain a x b where xs: "xs = a @ x # b" "f x = i" "i \<notin> f ` set a" "ys = a @ v # b"
    using assms by (auto simp: Replace_Inr)
  moreover have "find_id f i a = None" using xs(3) by (simp add: lookup_simps)
  ultimately show ?thesis using assms(2) by (auto simp: find_id_append split: option.splits)
qed

section \<open>Facts about the JSON columns\<close>

definition json_state :: "state \<Rightarrow> state" where
  "json_state s = s\<lparr>Team := map json_team (Team s), Hosts := map json_host (Hosts s),
     Keys := map json_key (Keys s), Tunnels := map json_tunnel (Tunnels s),
     Services := map json_service (Services s), Settings := json_settings (Settings s)\<rparr>"

text \<open>A state whose strings are valid UTF-8 survives storage unchanged.\<close>

definition utf8_clean :: "state \<Rightarrow> bool" where
  "utf8_clean s \<longleftrightarrow> json_state s = s"

lemma json_idem [simp]:
  "json_key (json_key k) = json_key k"
  "json_host (json_host h) = json_host h"
  "json_tunnel (json_tunnel t) = json_tunnel t"
  "json_service (json_service v) = json_service v"
  "json_settings (json_settings g) = json_settings g"
  "json_source (json_source c) = json_source c"
  "json_team (json_team m) = json_team m"
  by (simp_all add: json_key_def json_host_def json_tunnel_def json_service_def json_settings_def
      json_source_def json_team_def to_valid_idem case_prod_beta)

lemma json_state_clean: "utf8_clean (json_state s)"
  by (simp add: utf8_clean_def json_state_def)

definition utf8_host :: "host \<Rightarrow> bool" where
  "utf8_host h = list_all utf8_valid [hID h, hName h, hEnvironment h, hType h, hAddress h,
     hUsername h, hKeyID h, hJumpID h, hDescription h, hFingerprint h]"

lemma json_host_id: "json_host h = h \<longleftrightarrow> utf8_host h"
  by (cases h) (simp add: json_host_def utf8_host_def to_valid_fixpoint)

lemma json_state_simps [simp]:
  "Team (json_state s) = map json_team (Team s)"
  "Hosts (json_state s) = map json_host (Hosts s)"
  "Keys (json_state s) = map json_key (Keys s)"
  "Tunnels (json_state s) = map json_tunnel (Tunnels s)"
  "Services (json_state s) = map json_service (Services s)"
  "Settings (json_state s) = json_settings (Settings s)"
  "History (json_state s) = History s"
  by (simp_all add: json_state_def)

section \<open>Well-formedness ignores what validation does not read\<close>

lemma State_Host_cong: "Hosts s = Hosts s' \<Longrightarrow> State_Host s = State_Host s'"
  by (simp add: State_Host_def fun_eq_iff)

lemma route_cong: "Hosts s = Hosts s' \<Longrightarrow> route s i hs \<longleftrightarrow> route s' i hs"
  using route_mono [of s i hs s'] route_mono [of s' i hs s] route_ids State_Host_cong [of s s']
  by metis

lemma well_formed_cong:
  assumes "Hosts s = Hosts s'" "Keys s = Keys s'" "Tunnels s = Tunnels s'" "Services s = Services s'"
  shows "well_formed up s \<longleftrightarrow> well_formed up s'"
proof -
  have "State_Tunnel s = State_Tunnel s'" using assms(3) by (simp add: State_Tunnel_def fun_eq_iff)
  then show ?thesis
    using assms route_cong [OF assms(1)] by (simp add: well_formed_checks)
qed

section \<open>The transaction\<close>

lemma write_rows_Inr:
  "write_rows q tbl f j vs = Inr r \<Longrightarrow> r = map (\<lambda>v. (f v, j v)) vs"
  by (auto simp: write_rows_def res_simps)

lemma write_state_Inr:
  assumes "write_state q s d = Inr d'"
  shows "load d' = (json_state s)\<lparr>History := History (load d)\<rparr>" "dLocal d' = dLocal d"
    "dHistory d' = dHistory d" "dbVersion d' = dbVersion d" "dbTables d' = dbTables d"
  using assms
  by (auto simp: write_state_def rbind_eq_Inr load_def json_state_def o_def dest!: write_rows_Inr)

lemma Update_Inl: "Update up q fn d = (Inl e, d') \<Longrightarrow> d' = d"
  by (auto simp: Update_def split: sum.splits)

lemma Update_Inr:
  assumes "Update up q fn d = (Inr u, d')"
  shows "\<exists>s. fn (load d) = Inr s \<and> well_formed up s \<and> write_state q s d = Inr d'"
  using assms
  by (auto simp: Update_def Snapshot_def rbind_eq_Inr check_eq_Inr Validate_iff split: sum.splits)

text \<open>
  The contract every component relies on: a failed update leaves the store as it was, a
  successful one leaves the record the change computed, accepted by validation and encoded.
\<close>

definition config :: "state \<Rightarrow> state" where
  "config s = s\<lparr>History := []\<rparr>"

locale txn_store =
  fixes update :: "(state \<Rightarrow> state res) \<Rightarrow> 'd \<Rightarrow> unit res \<times> 'd"
    and view :: "'d \<Rightarrow> state"
    and good :: "state \<Rightarrow> bool"
    and stored :: "state \<Rightarrow> state"
  assumes failed: "update fn d = (Inl e, d') \<Longrightarrow> d' = d"
    and committed: "update fn d = (Inr u, d') \<Longrightarrow>
      \<exists>s. fn (view d) = Inr s \<and> good s \<and> config (view d') = config (stored s)"
begin

text \<open>An invariant of the configuration that a change keeps is kept by its transaction.\<close>

lemma update_invariant:
  assumes P: "P (config (view d))"
    and step: "\<And>s. fn (view d) = Inr s \<Longrightarrow> good s \<Longrightarrow> P (config (stored s))"
  shows "P (config (view (snd (update fn d))))"
proof (cases "update fn d")
  case (Pair r d')
  show ?thesis
  proof (cases r)
    case (Inl e)
    with Pair failed have "d' = d" by blast
    with Pair P show ?thesis by simp
  next
    case (Inr u)
    with Pair committed obtain s where "fn (view d) = Inr s" "good s"
      "config (view d') = config (stored s)" by blast
    with Pair step show ?thesis by simp
  qed
qed

end

interpretation sqlite: txn_store "Update up q" load "well_formed up" json_state for up q
proof
  fix fn d e d'
  show "Update up q fn d = (Inl e, d') \<Longrightarrow> d' = d" by (rule Update_Inl)
next
  fix fn d u d'
  assume "Update up q fn d = (Inr u, d')"
  from Update_Inr [OF this] show "\<exists>s. fn (load d) = Inr s \<and> well_formed up s \<and>
      config (load d') = config (json_state s)"
    by (auto simp: config_def write_state_Inr(1))
qed

text \<open>A run of transactions, each with its own outcome of the statements and tolerated if it fails.\<close>

definition updates :: "(string \<Rightarrow> url option) \<Rightarrow> ((stmt \<Rightarrow> bool) \<times> (state \<Rightarrow> state res)) list \<Rightarrow> db \<Rightarrow> db" where
  "updates up us d = fold (\<lambda>(q, fn) d. snd (Update up q fn d)) us d"

lemma updates_invariant:
  assumes "P (config (load d))"
    and "\<And>q fn d s. (q, fn) \<in> set us \<Longrightarrow> P (config (load d)) \<Longrightarrow> fn (load d) = Inr s \<Longrightarrow> well_formed up s \<Longrightarrow>
      P (config (json_state s))"
  shows "P (config (load (updates up us d)))"
  using assms
proof (induction us arbitrary: d)
  case (Cons u us)
  obtain q fn where u: "u = (q, fn)" by (cases u)
  have "P (config (load (snd (Update up q fn d))))"
  proof (rule sqlite.update_invariant [where P = P])
    show "P (config (load d))" by (rule Cons.prems(1))
    show "P (config (json_state s))" if "fn (load d) = Inr s" "well_formed up s" for s
      using Cons.prems(2) [of q fn d s] Cons.prems(1) that by (simp add: u)
  qed
  then have "P (config (load (updates up us (snd (Update up q fn d)))))"
  proof (rule Cons.IH)
    show "P (config (json_state s))"
      if "(q', g) \<in> set us" "P (config (load e))" "g (load e) = Inr s" "well_formed up s" for q' g e s
      using Cons.prems(2) [of q' g e s] that by simp
  qed
  then show ?case by (simp add: updates_def u)
qed (simp add: updates_def)

lemma well_formed_config: "well_formed up (config s) \<longleftrightarrow> well_formed up s"
  by (rule well_formed_cong) (simp_all add: config_def)

text \<open>A store that holds a valid configuration keeps holding one.\<close>

lemma Update_well_formed:
  assumes "well_formed up (load d)"
    and "\<And>s. fn (load d) = Inr s \<Longrightarrow> utf8_clean s"
  shows "well_formed up (load (snd (Update up q fn d)))"
proof -
  have "well_formed up (config (load (snd (Update up q fn d))))"
  proof (rule sqlite.update_invariant)
    show "well_formed up (config (load d))" using assms(1) by (simp add: well_formed_config)
    fix s
    assume "fn (load d) = Inr s" "well_formed up s"
    with assms(2) show "well_formed up (config (json_state s))"
      by (simp add: well_formed_config utf8_clean_def)
  qed
  then show ?thesis by (simp add: well_formed_config)
qed

text \<open>What a store holds is what JSON columns decode to.\<close>

lemma Update_keeps_text:
  assumes "utf8_clean (load d)"
  shows "utf8_clean (load (snd (Update up q fn d)))"
proof (cases "Update up q fn d")
  case (Pair r d')
  show ?thesis
  proof (cases r)
    case (Inl e)
    with Pair Update_Inl assms show ?thesis by fastforce
  next
    case (Inr u)
    with Pair Update_Inr obtain s where "write_state q s d = Inr d'" by blast
    from write_state_Inr(1) [OF this] Pair show ?thesis by (simp add: utf8_clean_def json_state_def)
  qed
qed

section \<open>History, local values, migrations\<close>

lemma sort_history_mset: "mset (sort_history ys) = mset ys"
  by (simp add: sort_history_def mset_sort)

lemma sort_history_sorted: "sorted_wrt (\<lambda>a b. yAt b \<le> yAt a) (sort_history ys)"
proof -
  have "sorted (map yAt (sort_key yAt (rev ys)))" by simp
  then have "sorted_wrt (\<lambda>a b. yAt a \<le> yAt b) (sort_key yAt (rev ys))"
    by (simp add: sorted_wrt_map)
  then show ?thesis by (simp add: sort_history_def sorted_wrt_rev)
qed

lemma drop_trim: "drop (length (drop (length xs - n) xs @ [y]) - n) (drop (length xs - n) xs @ [y])
    = drop (length (xs @ [y]) - n) (xs @ [y])"
  by (cases "n \<le> length xs") (auto simp: drop_append Suc_diff_le)

text \<open>Any number of attempts leaves the newest 200 rows, oldest first.\<close>

lemma Record_fold:
  assumes "\<And>st. q st" and "length (dHistory d) \<le> history_limit"
  shows "dHistory (fold (\<lambda>(i, at, h, kind, err). Record q i at h kind err) as d) =
    (let rows = dHistory d @
         map (\<lambda>(i, at, h, kind, err). (i, json_history (history_entry i at h kind err))) as
     in drop (length rows - history_limit) rows)"
proof (induction as rule: rev_induct)
  case Nil
  then show ?case using assms(2) by simp
next
  case (snoc a as)
  obtain i at h kind err where a: "a = (i, at, h, kind, err)" by (cases a)
  let ?rows = "dHistory d @
    map (\<lambda>(i, at, h, kind, err). (i, json_history (history_entry i at h kind err))) as"
  let ?row = "(i, json_history (history_entry i at h kind err))"
  have step: "dHistory (Record q i at h kind err d0) =
      drop (length (dHistory d0 @ [?row]) - history_limit) (dHistory d0 @ [?row])" for d0
    using assms(1) by (simp only: Record_def Let_def if_True) simp
  have "fold (\<lambda>(i, at, h, kind, err). Record q i at h kind err) (as @ [a]) d =
      Record q i at h kind err (fold (\<lambda>(i, at, h, kind, err). Record q i at h kind err) as d)"
    by (simp add: a)
  then have "dHistory (fold (\<lambda>(i, at, h, kind, err). Record q i at h kind err) (as @ [a]) d) =
      drop (length (drop (length ?rows - history_limit) ?rows @ [?row]) - history_limit)
        (drop (length ?rows - history_limit) ?rows @ [?row])"
    using step snoc.IH [unfolded Let_def] by metis
  also have "\<dots> = drop (length (?rows @ [?row]) - history_limit) (?rows @ [?row])"
    by (rule drop_trim)
  finally show ?case by (simp add: a Let_def)
qed

lemma LocalValue_stable:
  assumes "LocalValue q i c d = (Inr v, d')" "q (LocalSelect i)"
  shows "LocalValue q i c' d' = (Inr v, d')"
  using assms by (auto simp: LocalValue_def map_add_def split: option.splits sum.splits if_splits)

lemma LocalValue_frame:
  assumes "LocalValue q i c d = (r, d')"
  shows "load d' = load d" "j \<noteq> i \<Longrightarrow> map_of (dLocal d') j = map_of (dLocal d) j"
    "map_of (dLocal d) i = Some v \<Longrightarrow> map_of (dLocal d') i = Some v"
  using assms
  by (auto simp: LocalValue_def load_def map_add_def split: option.splits sum.splits if_splits)

lemma Open_Inr:
  assumes "Open q g d = Inr d'" "0 \<le> dbVersion d"
  shows "dbVersion d' = 2" "dSettings d' \<noteq> []" "dHosts d' = dHosts d" "dKeys d' = dKeys d"
    "dTunnels d' = dTunnels d" "dServices d' = dServices d" "dTeam d' = dTeam d"
    "dHistory d' = dHistory d" "dLocal d' = dLocal d"
    "dSettings d \<noteq> [] \<Longrightarrow> dSettings d' = dSettings d"
  using assms
  by (auto simp: Open_def Let_def migrate_def res_simps split: if_splits)

lemma Open_settled:
  assumes "dbVersion d = 2" "dSettings d \<noteq> []" "q Pragma" "q CountSettings"
  shows "Open q g d = Inr d"
  using assms by (simp add: Open_def)

end
