(* ===== verification/PlatformKey.thy ===== *)
theory PlatformKey
  imports Database
begin

text \<open>
  internal/platform's \<open>Path\<close> and internal/key. The operating system enters as the user's home
  directory and the path functions (interface \<open>file_paths\<close>, with its Unix instance); the file
  system is a function from paths to files. golang.org/x/crypto/ssh's key parser is the
  parameter \<open>pk\<close>, its variant for encrypted keys \<open>pkp\<close>.
\<close>

section \<open>platform.Path\<close>

record os =
  HomeDir :: "string option"
  os_IsAbs :: "string \<Rightarrow> bool"
  os_Clean :: "string \<Rightarrow> string"
  os_Join :: "string \<Rightarrow> string \<Rightarrow> string"

definition unix_os :: "string option \<Rightarrow> os" where
  "unix_os home = \<lparr>HomeDir = home, os_IsAbs = unix_IsAbs, os_Clean = unix_Clean, os_Join = unix_Join\<rparr>"

definition expand_home :: "os \<Rightarrow> string \<Rightarrow> string res" where
  "expand_home os raw =
     (if HasPrefix raw ''~/'' \<or> HasPrefix raw [CHR ''~'', CHR 0x5C] then
        (case HomeDir os of None \<Rightarrow> Inl (KeyErr NoHomeDir) | Some home \<Rightarrow> Inr (os_Join os home (drop 2 raw)))
      else Inr raw)"

definition Path :: "os \<Rightarrow> string \<Rightarrow> string res" where
  "Path os raw =
     rbind (check (\<not> ContainsAny raw [CHR 0x00, CHR 0x0D, CHR 0x0A]) (KeyErr BadPath))
     (\<lambda>_. rbind (expand_home os raw)
     (\<lambda>p. rbind (check (os_IsAbs os p) (KeyErr NotAbsolute))
     (\<lambda>_. Inr (os_Clean os p))))"

lemma Path_Inr:
  "Path os raw = Inr p \<longleftrightarrow>
     \<not> ContainsAny raw [CHR 0x00, CHR 0x0D, CHR 0x0A] \<and>
     (\<exists>r. expand_home os raw = Inr r \<and> os_IsAbs os r \<and> p = os_Clean os r)"
  by (auto simp: Path_def res_simps)

text \<open>Any system whose path functions keep the contract yields canonical paths.\<close>

context file_paths begin

lemma Path_canonical:
  "os_IsAbs os = isabs \<Longrightarrow> os_Clean os = clean \<Longrightarrow> Path os raw = Inr p \<Longrightarrow> canonical p"
  by (metis Path_Inr canonical_clean)

end

lemma unix_Path_canonical:
  assumes "Path (unix_os home) raw = Inr p"
  shows "unix_IsAbs p" "unix_Clean p = p"
  using unix_paths.Path_canonical [OF _ _ assms]
  by (simp_all add: unix_os_def unix_paths.canonical_def)

text \<open>Cleaning brings in no character but separators and dots.\<close>

lemma Split_chars: "w \<in> set (Split c s) \<Longrightarrow> set w \<subseteq> set s"
proof (induction s arbitrary: w)
  case (Cons x s)
  obtain v vs where "Split c s = v # vs" by (cases "Split c s") auto
  with Cons show ?case by (fastforce split: if_splits)
qed simp

lemma clean_step_subset: "w \<in> set (clean_step r st x) \<Longrightarrow> w \<in> set st \<or> w = x"
  by (cases st) (auto split: if_splits)

lemma clean_fold_subset: "w \<in> set (foldl (clean_step r) st ws) \<Longrightarrow> w \<in> set st \<or> w \<in> set ws"
  by (induction ws arbitrary: st) (auto dest: clean_step_subset simp del: clean_step.simps)

lemma Join_chars: "set (Join sep ws) \<subseteq> set sep \<union> (\<Union>w \<in> set ws. set w)"
  by (induction sep ws rule: Join.induct) auto

lemma unix_Clean_chars: "set (unix_Clean p) \<subseteq> {CHR ''/'', CHR ''.''} \<union> set p"
proof -
  have "set (Join ''/'' (rev (foldl (clean_step r) [] (Split CHR ''/'' p)))) \<subseteq> {CHR ''/''} \<union> set p" for r
    using Join_chars [of "''/''" "rev (foldl (clean_step r) [] (Split CHR ''/'' p))"]
      clean_fold_subset [of _ r "[]" "Split CHR ''/'' p"] Split_chars [of _ "CHR ''/''" p]
    by fastforce
  then show ?thesis unfolding unix_Clean_def Let_def by auto
qed

lemma unix_Join_chars: "set (unix_Join a b) \<subseteq> {CHR ''/'', CHR ''.''} \<union> set a \<union> set b"
  using unix_Clean_chars [of a] unix_Clean_chars [of b] unix_Clean_chars [of "a @ ''/'' @ b"]
  by (auto simp: unix_Join_def)

lemma unix_Path_chars:
  assumes "Path (unix_os home) raw = Inr p"
    and "\<And>h. home = Some h \<Longrightarrow> \<not> ContainsAny h [CHR 0x00, CHR 0x0D, CHR 0x0A]"
  shows "\<not> ContainsAny p [CHR 0x00, CHR 0x0D, CHR 0x0A]"
proof -
  let ?bad = "set [CHR 0x00, CHR 0x0D, CHR 0x0A]"
  obtain r where r: "set raw \<inter> ?bad = {}" "expand_home (unix_os home) raw = Inr r" "p = unix_Clean r"
    using assms(1) by (auto simp: Path_Inr ContainsAny_iff unix_os_def)
  have "set r \<inter> ?bad = {}"
  proof (cases "expand_home (unix_os home) raw = Inr raw")
    case True
    with r show ?thesis by simp
  next
    case False
    with r(2) obtain h where h: "home = Some h" "r = unix_Join h (drop 2 raw)"
      by (auto simp: expand_home_def unix_os_def split: if_splits option.splits)
    have "set h \<inter> ?bad = {}" using assms(2) [OF h(1)] by (simp add: ContainsAny_iff)
    then show ?thesis
      using unix_Join_chars [of h "drop 2 raw"] r(1) set_drop_subset [of 2 raw] h(2) by auto
  qed
  then show ?thesis using unix_Clean_chars [of r] r(3) by (auto simp: ContainsAny_iff)
qed

section \<open>Files and keys\<close>

record file_info =
  fRegular :: bool
  fSize :: nat
  fContent :: string
  fReadOk :: bool

type_synonym fs = "string \<Rightarrow> file_info option"

definition key_Read :: "os \<Rightarrow> fs \<Rightarrow> string \<Rightarrow> string res" where
  "key_Read os fs path =
     rbind (Path os path)
     (\<lambda>p. case fs p of
        None \<Rightarrow> Inl (KeyErr KeyUnreadable)
      | Some f \<Rightarrow>
          rbind (check (fRegular f \<and> fSize f \<le> 1024 * 1024) (KeyErr KeyNotRegular))
          (\<lambda>_. rbind (check (fReadOk f) (KeyErr KeyUnreadable))
          (\<lambda>_. Inr (take (1024 * 1024 + 1) (fContent f)))))"

text \<open>What \<open>ssh.ParsePrivateKey\<close> answers.\<close>

datatype 's key_parse = ParsedKey 's | MissingPassphrase | NotAKey

definition Signer ::
  "os \<Rightarrow> fs \<Rightarrow> (string \<Rightarrow> 's key_parse) \<Rightarrow> (string \<Rightarrow> string \<Rightarrow> 's res) \<Rightarrow>
   (string \<Rightarrow> string res) option \<Rightarrow> string \<Rightarrow> 's res" where
  "Signer os fs pk pkp provider path =
     rbind (key_Read os fs path)
     (\<lambda>b. case pk b of
        MissingPassphrase \<Rightarrow>
          (case provider of
             None \<Rightarrow> Inl (KeyErr KeyEncrypted)
           | Some passphrase \<Rightarrow> rbind (passphrase path) (\<lambda>pass. pkp b pass))
      | NotAKey \<Rightarrow> Inl (KeyErr KeyFormat)
      | ParsedKey s \<Rightarrow> Inr s)"

definition key_Validate :: "os \<Rightarrow> fs \<Rightarrow> (string \<Rightarrow> 's key_parse) \<Rightarrow> string \<Rightarrow> unit res" where
  "key_Validate os fs pk path = rbind (Signer os fs pk (\<lambda>_ _. Inl (KeyErr KeyEncrypted)) None path) (\<lambda>_. Inr ())"

lemma key_Validate_ok:
  "key_Validate os fs pk path = Inr () \<longleftrightarrow>
     (\<exists>b s. key_Read os fs path = Inr b \<and> pk b = ParsedKey s)"
proof (cases "key_Read os fs path")
  case (Inr b)
  then show ?thesis by (cases "pk b") (simp_all add: key_Validate_def Signer_def)
qed (simp add: key_Validate_def Signer_def)

lemma key_Read_bound: "key_Read os fs path = Inr b \<Longrightarrow> length b \<le> 1024 * 1024 + 1"
  by (auto simp: key_Read_def res_simps split: option.splits)

end
