(* ===== verification/SshParse.thy ===== *)
theory SshParse
  imports PlatformKey
begin

text \<open>
  internal/sshconfig/parser.go: the tokenizer, the pattern matcher of \<open>Host\<close> lines and the
  parser that turns an OpenSSH configuration into import candidates. \<open>ul\<close> is Unicode's
  lower-case table above ASCII. Warnings are a datatype, one constructor per message.
\<close>

section \<open>Data\<close>

datatype warning =
    NoValue nat
  | MatchSkipped
  | IncludeSkipped
  | BadPort
  | NeedUserAndIdentity
  | TokensUnsupported
  | BadJump
  | DirectiveSkipped string
  | MatchInFile

record candidate =
  cAlias :: string
  cAddress :: string
  cPort :: int
  cUsername :: string
  cIdentityFile :: string
  cJumps :: "string list"
  cWarnings :: "warning list"
  cValid :: bool

record preview =
  pHosts :: "candidate list"
  pWarnings :: "warning list"

record directive =
  dPatterns :: "string list"
  dKey :: string
  dValues :: "string list"
  dLine :: nat

section \<open>Tokens\<close>

definition flush :: "string \<Rightarrow> string list \<Rightarrow> string list" where
  "flush b out = (if b \<noteq> [] then out @ [b] else out)"

text \<open>The loop over a line's runes: the open quote, the token being built, the tokens so far.
  None is the unclosed quote.\<close>

fun tokens_loop :: "nat list \<Rightarrow> nat option \<Rightarrow> string \<Rightarrow> string list \<Rightarrow> string list option" where
  "tokens_loop [] (Some q) b out = None"
| "tokens_loop [] None b out = Some (flush b out)"
| "tokens_loop (c # cs) (Some q) b out =
     (if c = q then tokens_loop cs None b out
      else tokens_loop cs (Some q) (b @ encode_rune c) out)"
| "tokens_loop (c # cs) None b out =
     (if c = 34 \<or> c = 39 then tokens_loop cs (Some c) b out
      else if c = 35 then Some (flush b out)
      else if c = 32 \<or> c = 9 \<or> c = 61 then tokens_loop cs None [] (flush b out)
      else tokens_loop cs None (b @ encode_rune c) out)"

definition tokens :: "string \<Rightarrow> string list option" where
  "tokens line = tokens_loop (runes line) None [] []"

section \<open>Host patterns\<close>

fun matches_loop :: "(nat \<Rightarrow> nat) \<Rightarrow> string list \<Rightarrow> string \<Rightarrow> bool \<Rightarrow> bool" where
  "matches_loop ul [] alias matched = matched"
| "matches_loop ul (p # ps) alias matched =
     (let negative = HasPrefix p ''!'';
          q = TrimPrefix p ''!'';
          hit = (path_Match (ToLower ul q) (ToLower ul alias) = Some True)
      in if hit \<and> negative then False else matches_loop ul ps alias (matched \<or> hit))"

definition matches :: "(nat \<Rightarrow> nat) \<Rightarrow> string list \<Rightarrow> string \<Rightarrow> bool" where
  "matches ul patterns alias = matches_loop ul patterns alias False"

section \<open>Lines\<close>

text \<open>
  The input is cut at 2 MiB; \<open>bufio.Scanner\<close> yields its lines without the newline and one
  carriage return, and gives up at a line that fills its 128 KiB buffer.
\<close>

definition max_config :: nat where
  "max_config = 2 * 1024 * 1024"

definition max_line :: nat where
  "max_line = 128 * 1024"

definition raw_lines :: "string \<Rightarrow> string list" where
  "raw_lines s = (let ws = Split CHR 0x0A s in if last ws = [] then butlast ws else ws)"

definition drop_cr :: "string \<Rightarrow> string" where
  "drop_cr w = (if w \<noteq> [] \<and> last w = CHR 0x0D then butlast w else w)"

definition scan_lines :: "string \<Rightarrow> string list" where
  "scan_lines s = map drop_cr (takeWhile (\<lambda>w. length w < max_line) (raw_lines s))"

definition scan_failed :: "string \<Rightarrow> bool" where
  "scan_failed s \<longleftrightarrow> (\<exists>w \<in> set (raw_lines s). max_line \<le> length w)"

section \<open>The directives of a file\<close>

record parse_state =
  psPatterns :: "string list"
  psDirectives :: "directive list"
  psAliases :: "string list"
  psInMatch :: bool
  psWarnings :: "warning list"

definition parse_init :: parse_state where
  "parse_init = \<lparr>psPatterns = [''*''], psDirectives = [], psAliases = [], psInMatch = False,
     psWarnings = []\<rparr>"

text \<open>The aliases of a \<open>Host\<close> line: names without wildcards not seen before.\<close>

fun add_aliases :: "string list \<Rightarrow> string list \<Rightarrow> string list" where
  "add_aliases al [] = al"
| "add_aliases al (a # as) =
     add_aliases (if \<not> ContainsAny a ''*?![]'' \<and> a \<notin> set al then al @ [a] else al) as"

definition do_host :: "string \<Rightarrow> string list \<Rightarrow> parse_state \<Rightarrow> parse_state" where
  "do_host key values st =
     (if key = ''host''
      then st\<lparr>psPatterns := values, psInMatch := False, psAliases := add_aliases (psAliases st) values\<rparr>
      else st)"

definition do_match :: "string \<Rightarrow> parse_state \<Rightarrow> parse_state" where
  "do_match key st =
     (if key = ''match'' then st\<lparr>psInMatch := True, psWarnings := psWarnings st @ [MatchSkipped]\<rparr>
      else st)"

definition do_include :: "string \<Rightarrow> parse_state \<Rightarrow> parse_state" where
  "do_include key st =
     (if key = ''include'' then st\<lparr>psWarnings := psWarnings st @ [IncludeSkipped]\<rparr> else st)"

definition do_directive :: "nat \<Rightarrow> string \<Rightarrow> string list \<Rightarrow> parse_state \<Rightarrow> parse_state" where
  "do_directive n key values st =
     (if psInMatch st \<or> key = ''host'' \<or> key = ''match'' then st
      else st\<lparr>psDirectives := psDirectives st @
        [\<lparr>dPatterns = psPatterns st, dKey = key, dValues = values, dLine = n\<rparr>]\<rparr>)"

definition byte_order_mark :: string where
  "byte_order_mark = [CHR 0xEF, CHR 0xBB, CHR 0xBF]"

definition parse_parts :: "(nat \<Rightarrow> nat) \<Rightarrow> nat \<Rightarrow> string list \<Rightarrow> parse_state \<Rightarrow> parse_state" where
  "parse_parts ul n parts st =
     (case parts of
        [] \<Rightarrow> st
      | p # values \<Rightarrow>
          let key = ToLower ul p in
          if values = [] then st\<lparr>psWarnings := psWarnings st @ [NoValue n]\<rparr>
          else do_directive n key values (do_include key (do_match key (do_host key values st))))"

definition parse_line :: "(nat \<Rightarrow> nat) \<Rightarrow> parse_state \<Rightarrow> nat \<times> string \<Rightarrow> parse_state res" where
  "parse_line ul st nl =
     (case nl of (n, raw) \<Rightarrow>
        (case tokens (if n = 1 then TrimPrefix raw byte_order_mark else raw) of
           None \<Rightarrow> Inl (ConfigErr (UnclosedQuote n))
         | Some parts \<Rightarrow> Inr (parse_parts ul n parts st)))"

definition parse_directives :: "(nat \<Rightarrow> nat) \<Rightarrow> string \<Rightarrow> parse_state res" where
  "parse_directives ul input =
     (let s = take max_config input; ls = scan_lines s in
      rbind (rfold (parse_line ul) parse_init (zip [1..<Suc (length ls)] ls))
      (\<lambda>st. rbind (check (\<not> scan_failed s) (ConfigErr LineTooLong))
      (\<lambda>_. Inr st)))"

section \<open>Candidates\<close>

text \<open>The value of each keyword for an alias: the first matching directive wins.\<close>

definition values_for :: "(nat \<Rightarrow> nat) \<Rightarrow> directive list \<Rightarrow> string \<Rightarrow> (string \<Rightarrow> string option)" where
  "values_for ul ds alias =
     foldl (\<lambda>m d. if \<not> matches ul (dPatterns d) alias then m
                  else if m (dKey d) \<noteq> None then m
                  else m(dKey d \<mapsto> Join '' '' (dValues d))) Map.empty ds"

definition value_of :: "(string \<Rightarrow> string option) \<Rightarrow> string \<Rightarrow> string" where
  "value_of m k = (case m k of None \<Rightarrow> [] | Some v \<Rightarrow> v)"

definition set_port :: "string \<Rightarrow> candidate \<Rightarrow> candidate" where
  "set_port v c =
     (if v = [] then c
      else case Atoi v of
          None \<Rightarrow> c\<lparr>cWarnings := cWarnings c @ [BadPort], cValid := False\<rparr>
        | Some p \<Rightarrow>
            if p < 1 \<or> p > 65535 then c\<lparr>cWarnings := cWarnings c @ [BadPort], cValid := False\<rparr>
            else c\<lparr>cPort := p\<rparr>)"

definition reject :: "bool \<Rightarrow> warning \<Rightarrow> candidate \<Rightarrow> candidate" where
  "reject b w c = (if b then c\<lparr>cWarnings := cWarnings c @ [w], cValid := False\<rparr> else c)"

definition bad_hop :: "string \<Rightarrow> bool" where
  "bad_hop hop \<longleftrightarrow> hop = [] \<or> ContainsAny hop (''@: /'' @ [CHR 0x5C])"

definition add_hop :: "candidate \<Rightarrow> string \<Rightarrow> candidate" where
  "add_hop c raw =
     (let hop = TrimSpace raw; c' = reject (bad_hop hop) BadJump c
      in c'\<lparr>cJumps := cJumps c' @ [hop]\<rparr>)"

definition set_jumps :: "string \<Rightarrow> candidate \<Rightarrow> candidate" where
  "set_jumps j c = (if j \<noteq> [] \<and> j \<noteq> ''none'' then foldl add_hop c (Split CHR '','' j) else c)"

definition unsupported_keys :: "string list" where
  "unsupported_keys = [''proxycommand'', ''localforward'', ''remoteforward'', ''dynamicforward'',
     ''certificatefile'', ''identityagent'', ''include'']"

definition fatal_keys :: "string list" where
  "fatal_keys = [''proxycommand'', ''certificatefile'', ''identityagent'', ''include'']"

definition check_unsupported :: "(string \<Rightarrow> string option) \<Rightarrow> candidate \<Rightarrow> string \<Rightarrow> candidate" where
  "check_unsupported m c k =
     (let v = value_of m k in
      if v \<noteq> [] \<and> v \<noteq> ''none'' then
        c\<lparr>cWarnings := cWarnings c @ [DirectiveSkipped k],
          cValid := (if k \<in> set fatal_keys then False else cValid c)\<rparr>
      else c)"

definition first_candidate :: "(string \<Rightarrow> string option) \<Rightarrow> string \<Rightarrow> candidate" where
  "first_candidate m alias =
     \<lparr>cAlias = alias,
      cAddress = (if value_of m ''hostname'' = [] then alias else value_of m ''hostname''),
      cPort = 22, cUsername = value_of m ''user'', cIdentityFile = value_of m ''identityfile'',
      cJumps = [], cWarnings = [], cValid = True\<rparr>"

definition make_candidate :: "(nat \<Rightarrow> nat) \<Rightarrow> parse_state \<Rightarrow> string \<Rightarrow> candidate" where
  "make_candidate ul st alias =
     (let m = values_for ul (psDirectives st) alias;
          c1 = set_port (value_of m ''port'') (first_candidate m alias);
          c2 = reject (cUsername c1 = [] \<or> cIdentityFile c1 = []) NeedUserAndIdentity c1;
          c3 = reject (Contains (cIdentityFile c2) ''%'' \<or> Contains (cAddress c2) ''%''
                       \<or> Contains (cIdentityFile c2) ''${'') TokensUnsupported c2;
          c4 = set_jumps (value_of m ''proxyjump'') c3;
          c5 = foldl (check_unsupported m) c4 unsupported_keys
      in reject (MatchSkipped \<in> set (psWarnings st)) MatchInFile c5)"

definition Parse :: "(nat \<Rightarrow> nat) \<Rightarrow> string \<Rightarrow> preview res" where
  "Parse ul input =
     rbind (parse_directives ul input)
     (\<lambda>st. Inr \<lparr>pHosts = map (make_candidate ul st) (psAliases st), pWarnings = psWarnings st\<rparr>)"

section \<open>Facts about tokens\<close>

text \<open>Words that need no quoting are read back from the line that joins them.\<close>

definition plain_word :: "string \<Rightarrow> bool" where
  "plain_word w \<longleftrightarrow> w \<noteq> [] \<and> utf8_valid w \<and> set (runes w) \<inter> {34, 39, 35, 32, 9, 61} = {}"

lemma tokens_loop_plain:
  "set rs \<inter> {34, 39, 35, 32, 9, 61} = {} \<Longrightarrow>
     tokens_loop (rs @ cs) None b out = tokens_loop cs None (b @ encode_runes rs) out"
  by (induction rs arbitrary: b) (auto simp: encode_runes_def)

lemma tokens_loop_quoted:
  "q \<notin> set rs \<Longrightarrow>
     tokens_loop (rs @ cs) (Some q) b out = tokens_loop cs (Some q) (b @ encode_runes rs) out"
  by (induction rs arbitrary: b) (auto simp: encode_runes_def)

lemma encode_runes_runes: "utf8_valid w \<Longrightarrow> encode_runes (runes w) = w"
  using to_valid_id by (simp add: to_valid_def)

lemma encode_runes_append: "encode_runes (a @ b) = encode_runes a @ encode_runes b"
  by (simp add: encode_runes_def)

lemma runes_append_valid:
  assumes "utf8_valid w"
  shows "runes (w @ s) = runes w @ runes s"
proof -
  have "\<forall>r \<in> set rs. scalar r \<Longrightarrow> runes (encode_runes rs @ s) = rs @ runes s" for rs
    by (induction rs) (simp_all add: encode_runes_def runes_def rune_chunks_encode)
  from this [of "runes w"] show ?thesis
    using encode_runes_runes [OF assms] runes_scalar by auto
qed

lemma flush_nonempty [simp]: "b \<noteq> [] \<Longrightarrow> flush b out = out @ [b]"
  by (simp add: flush_def)

lemma tokens_join:
  assumes "\<forall>w \<in> set ws. plain_word w"
  shows "tokens_loop (runes (Join '' '' ws)) None [] out = Some (out @ ws)"
  using assms
proof (induction "'' ''" ws arbitrary: out rule: Join.induct)
  case 1
  show ?case by (simp add: flush_def)
next
  case (2 w)
  then have w: "utf8_valid w" "set (runes w) \<inter> {34, 39, 35, 32, 9, 61} = {}" "w \<noteq> []"
    by (auto simp: plain_word_def)
  have "tokens_loop (runes w @ []) None [] out = tokens_loop [] None ([] @ encode_runes (runes w)) out"
    by (rule tokens_loop_plain [OF w(2)])
  with w show ?case by (simp add: encode_runes_runes)
next
  case (3 w v ws)
  then have w: "utf8_valid w" "set (runes w) \<inter> {34, 39, 35, 32, 9, 61} = {}" "w \<noteq> []"
    by (auto simp: plain_word_def)
  have "runes (w @ '' '' @ Join '' '' (v # ws)) = runes w @ 32 # runes (Join '' '' (v # ws))"
    using w(1) by (simp add: runes_append_valid runes_ascii)
  then have "tokens_loop (runes (Join '' '' (w # v # ws))) None [] out =
      tokens_loop (32 # runes (Join '' '' (v # ws))) None (encode_runes (runes w)) out"
    using tokens_loop_plain [OF w(2), of "32 # runes (Join '' '' (v # ws))" "[]" out] by simp
  also have "\<dots> = tokens_loop (runes (Join '' '' (v # ws))) None [] (out @ [w])"
    using w by (simp add: encode_runes_runes)
  also have "\<dots> = Some ((out @ [w]) @ v # ws)"
    using 3 by simp
  finally show ?case by simp
qed

text \<open>A quoted word is one token, whatever it contains but the quote.\<close>

lemma tokens_quoted:
  assumes "w \<noteq> []" "utf8_valid w" "34 \<notin> set (runes w)"
  shows "tokens (CHR 0x22 # w @ [CHR 0x22]) = Some [w]"
proof -
  have "runes (CHR 0x22 # w @ [CHR 0x22]) = 34 # runes w @ [34]"
    using assms(2) by (simp add: runes_ascii runes_append_valid)
  then show ?thesis
    using tokens_loop_quoted [OF assms(3), of "[34]" "[]" "[]"] assms
    by (simp add: tokens_def encode_runes_runes)
qed

lemma tokens_nonempty:
  "tokens_loop cs q b out = Some ws \<Longrightarrow> [] \<notin> set out \<Longrightarrow> [] \<notin> set ws"
  by (induction cs q b out rule: tokens_loop.induct) (auto simp: flush_def split: if_splits)

section \<open>Facts about keywords and candidates\<close>

lemma matches_loop_iff:
  "matches_loop ul ps alias m \<longleftrightarrow>
     (m \<or> (\<exists>p \<in> set ps. path_Match (ToLower ul (TrimPrefix p ''!'')) (ToLower ul alias) = Some True))
     \<and> \<not> (\<exists>p \<in> set ps. HasPrefix p ''!''
           \<and> path_Match (ToLower ul (TrimPrefix p ''!'')) (ToLower ul alias) = Some True)"
  by (induction ps arbitrary: m) (auto simp: Let_def)

lemma values_for_append:
  "values_for ul (ds @ [d]) alias =
     (let m = values_for ul ds alias in
      if \<not> matches ul (dPatterns d) alias \<or> m (dKey d) \<noteq> None then m
      else m(dKey d \<mapsto> Join '' '' (dValues d)))"
  by (simp add: values_for_def Let_def)

text \<open>First value wins: the keyword's value is that of the first directive that applies.\<close>

lemma values_for_first:
  "values_for ul ds alias k =
     map_option (\<lambda>d. Join '' '' (dValues d))
       (find (\<lambda>d. dKey d = k \<and> matches ul (dPatterns d) alias) ds)"
proof (induction ds rule: rev_induct)
  case Nil
  show ?case by (simp add: values_for_def)
next
  case (snoc d ds)
  have "find P (xs @ ys) = (case find P xs of None \<Rightarrow> find P ys | Some x \<Rightarrow> Some x)"
    for P :: "directive \<Rightarrow> bool" and xs ys
    by (induction xs) auto
  with snoc show ?case
    by (auto simp: values_for_append Let_def split: option.splits)
qed

lemma reject_simps [simp]:
  "cAlias (reject b w c) = cAlias c"
  "cAddress (reject b w c) = cAddress c"
  "cPort (reject b w c) = cPort c"
  "cUsername (reject b w c) = cUsername c"
  "cIdentityFile (reject b w c) = cIdentityFile c"
  "cJumps (reject b w c) = cJumps c"
  "cValid (reject b w c) \<longleftrightarrow> cValid c \<and> \<not> b"
  by (simp_all add: reject_def)

lemma set_port_simps [simp]:
  "cAlias (set_port v c) = cAlias c"
  "cAddress (set_port v c) = cAddress c"
  "cUsername (set_port v c) = cUsername c"
  "cIdentityFile (set_port v c) = cIdentityFile c"
  "cJumps (set_port v c) = cJumps c"
  by (simp_all add: set_port_def split: option.splits)

lemma set_port_valid: "cValid (set_port v c) \<Longrightarrow> cValid c"
  by (auto simp: set_port_def split: option.splits if_splits)

lemma set_port_range:
  "1 \<le> cPort c \<and> cPort c \<le> 65535 \<Longrightarrow> 1 \<le> cPort (set_port v c) \<and> cPort (set_port v c) \<le> 65535"
  by (auto simp: set_port_def split: option.splits)

lemma add_hop_simps [simp]:
  "cAlias (add_hop c h) = cAlias c"
  "cAddress (add_hop c h) = cAddress c"
  "cPort (add_hop c h) = cPort c"
  "cUsername (add_hop c h) = cUsername c"
  "cIdentityFile (add_hop c h) = cIdentityFile c"
  "cJumps (add_hop c h) = cJumps c @ [TrimSpace h]"
  "cValid (add_hop c h) \<longleftrightarrow> cValid c \<and> \<not> bad_hop (TrimSpace h)"
  by (simp_all add: add_hop_def Let_def)

lemma foldl_add_hop [simp]:
  "cAlias (foldl add_hop c hs) = cAlias c"
  "cAddress (foldl add_hop c hs) = cAddress c"
  "cPort (foldl add_hop c hs) = cPort c"
  "cUsername (foldl add_hop c hs) = cUsername c"
  "cIdentityFile (foldl add_hop c hs) = cIdentityFile c"
  "cJumps (foldl add_hop c hs) = cJumps c @ map TrimSpace hs"
  "cValid (foldl add_hop c hs) \<longleftrightarrow> cValid c \<and> (\<forall>h \<in> set hs. \<not> bad_hop (TrimSpace h))"
  by (induction hs arbitrary: c) auto

lemma set_jumps_simps [simp]:
  "cAlias (set_jumps j c) = cAlias c"
  "cAddress (set_jumps j c) = cAddress c"
  "cPort (set_jumps j c) = cPort c"
  "cUsername (set_jumps j c) = cUsername c"
  "cIdentityFile (set_jumps j c) = cIdentityFile c"
  by (simp_all add: set_jumps_def)

lemma set_jumps_valid:
  "cValid (set_jumps j c) \<Longrightarrow> cJumps c = [] \<Longrightarrow>
     cValid c \<and> (\<forall>h \<in> set (cJumps (set_jumps j c)). \<not> bad_hop h)"
  by (auto simp: set_jumps_def split: if_splits)

lemma check_unsupported_simps [simp]:
  "cAlias (check_unsupported m c k) = cAlias c"
  "cAddress (check_unsupported m c k) = cAddress c"
  "cPort (check_unsupported m c k) = cPort c"
  "cUsername (check_unsupported m c k) = cUsername c"
  "cIdentityFile (check_unsupported m c k) = cIdentityFile c"
  "cJumps (check_unsupported m c k) = cJumps c"
  "cValid (check_unsupported m c k) \<longleftrightarrow>
     cValid c \<and> \<not> (k \<in> set fatal_keys \<and> value_of m k \<noteq> [] \<and> value_of m k \<noteq> ''none'')"
  by (auto simp: check_unsupported_def Let_def)

lemma foldl_check_unsupported [simp]:
  "cAlias (foldl (check_unsupported m) c ks) = cAlias c"
  "cAddress (foldl (check_unsupported m) c ks) = cAddress c"
  "cPort (foldl (check_unsupported m) c ks) = cPort c"
  "cUsername (foldl (check_unsupported m) c ks) = cUsername c"
  "cIdentityFile (foldl (check_unsupported m) c ks) = cIdentityFile c"
  "cJumps (foldl (check_unsupported m) c ks) = cJumps c"
  "cValid (foldl (check_unsupported m) c ks) \<longleftrightarrow>
     cValid c \<and> (\<forall>k \<in> set ks. \<not> (k \<in> set fatal_keys \<and> value_of m k \<noteq> [] \<and> value_of m k \<noteq> ''none''))"
  by (induction ks arbitrary: c) auto

lemma first_candidate_simps [simp]:
  "cAlias (first_candidate m a) = a"
  "cPort (first_candidate m a) = 22"
  "cUsername (first_candidate m a) = value_of m ''user''"
  "cIdentityFile (first_candidate m a) = value_of m ''identityfile''"
  "cAddress (first_candidate m a) = (if value_of m ''hostname'' = [] then a else value_of m ''hostname'')"
  "cJumps (first_candidate m a) = []"
  by (simp_all add: first_candidate_def)

lemma make_candidate_simps:
  "cAlias (make_candidate ul st a) = a"
  "cUsername (make_candidate ul st a) = value_of (values_for ul (psDirectives st) a) ''user''"
  "cIdentityFile (make_candidate ul st a) = value_of (values_for ul (psDirectives st) a) ''identityfile''"
  "1 \<le> cPort (make_candidate ul st a) \<and> cPort (make_candidate ul st a) \<le> 65535"
  using set_port_range [of "first_candidate (values_for ul (psDirectives st) a) a"]
  by (simp_all add: make_candidate_def Let_def)

text \<open>What the flag \<open>Valid\<close> promises an importer.\<close>

lemma make_candidate_valid:
  assumes "cValid (make_candidate ul st a)"
  defines "c \<equiv> make_candidate ul st a"
  defines "m \<equiv> values_for ul (psDirectives st) a"
  shows "cUsername c \<noteq> []" "cIdentityFile c \<noteq> []"
    "\<not> Contains (cIdentityFile c) ''%''" "\<not> Contains (cAddress c) ''%''"
    "\<forall>h \<in> set (cJumps c). \<not> bad_hop h"
    "\<forall>k \<in> set fatal_keys. value_of m k \<in> {[], ''none''}"
    "MatchSkipped \<notin> set (psWarnings st)"
proof -
  define c1 where "c1 = set_port (value_of m ''port'') (first_candidate m a)"
  define c2 where "c2 = reject (cUsername c1 = [] \<or> cIdentityFile c1 = []) NeedUserAndIdentity c1"
  define c3 where "c3 = reject (Contains (cIdentityFile c2) ''%'' \<or> Contains (cAddress c2) ''%''
      \<or> Contains (cIdentityFile c2) ''${'') TokensUnsupported c2"
  define c4 where "c4 = set_jumps (value_of m ''proxyjump'') c3"
  have c: "c = reject (MatchSkipped \<in> set (psWarnings st)) MatchInFile
      (foldl (check_unsupported m) c4 unsupported_keys)"
    unfolding c_def make_candidate_def Let_def m_def [symmetric] c1_def [symmetric]
      c2_def [symmetric] c3_def [symmetric] c4_def [symmetric] by (rule refl)
  have v: "cValid c" using assms(1) by (simp add: c_def)
  then show "MatchSkipped \<notin> set (psWarnings st)" by (simp add: c)
  from v have v4: "cValid c4" by (simp add: c)
  have j3: "cJumps c3 = []" by (simp add: c3_def c2_def c1_def)
  with v4 have v3: "cValid c3" and hops: "\<forall>h \<in> set (cJumps c4). \<not> bad_hop h"
    using set_jumps_valid [of "value_of m ''proxyjump''" c3] by (simp_all add: c4_def)
  from hops show "\<forall>h \<in> set (cJumps c). \<not> bad_hop h" by (simp add: c)
  from v show "\<forall>k \<in> set fatal_keys. value_of m k \<in> {[], ''none''}"
    by (simp add: c fatal_keys_def unsupported_keys_def)
  from v3 have v2: "cValid c2" by (simp add: c3_def)
  from v3 show "\<not> Contains (cIdentityFile c) ''%''" "\<not> Contains (cAddress c) ''%''"
    by (simp_all add: c c4_def c3_def)
  from v2 show "cUsername c \<noteq> []" "cIdentityFile c \<noteq> []"
    by (simp_all add: c c4_def c3_def c2_def)
qed

section \<open>Facts about whole files\<close>

lemma add_aliases_distinct: "distinct al \<Longrightarrow> distinct (add_aliases al as)"
  by (induction as arbitrary: al) auto

lemma add_aliases_set:
  "set (add_aliases al as) = set al \<union> {a \<in> set as. \<not> ContainsAny a ''*?![]''}"
  by (induction as arbitrary: al) auto

lemma parse_parts_frame:
  assumes "[] \<notin> set parts"
  shows "distinct (psAliases st) \<Longrightarrow> distinct (psAliases (parse_parts ul n parts st))"
    "set (psAliases (parse_parts ul n parts st)) \<subseteq>
       set (psAliases st) \<union> {a. \<not> ContainsAny a ''*?![]'' \<and> a \<noteq> []}"
    "set (psWarnings st) \<subseteq> set (psWarnings (parse_parts ul n parts st))"
  using assms
  by (cases parts; auto simp: parse_parts_def Let_def do_host_def do_match_def do_include_def
      do_directive_def add_aliases_distinct add_aliases_set)+

lemma parse_line_parts:
  assumes "parse_line ul st nl = Inr st'"
  shows "\<exists>parts. st' = parse_parts ul (fst nl) parts st \<and> [] \<notin> set parts"
  using assms tokens_nonempty [where out = "[]" and q = None]
  by (auto simp: parse_line_def tokens_def split: option.splits prod.splits)

lemma parse_directives_aliases:
  assumes "parse_directives ul input = Inr st"
  shows "distinct (psAliases st)" "\<forall>a \<in> set (psAliases st). a \<noteq> [] \<and> \<not> ContainsAny a ''*?![]''"
proof -
  let ?P = "\<lambda>st. distinct (psAliases st) \<and> (\<forall>a \<in> set (psAliases st). a \<noteq> [] \<and> \<not> ContainsAny a ''*?![]'')"
  let ?ls = "scan_lines (take max_config input)"
  have "rfold (parse_line ul) parse_init (zip [1..<Suc (length ?ls)] ?ls) = Inr st"
    using assms by (auto simp: parse_directives_def Let_def res_simps)
  then have "?P st"
  proof (rule rfold_invariant)
    show "?P parse_init" by (simp add: parse_init_def)
    fix s x s'
    assume "?P s" "parse_line ul s x = Inr s'"
    then obtain parts where p: "s' = parse_parts ul (fst x) parts s" "[] \<notin> set parts"
      using parse_line_parts by blast
    show "?P s'"
      using \<open>?P s\<close> parse_parts_frame(1,2) [OF p(2), where st = s and ul = ul and n = "fst x"] unfolding p(1) by blast
  qed
  then show "distinct (psAliases st)" "\<forall>a \<in> set (psAliases st). a \<noteq> [] \<and> \<not> ContainsAny a ''*?![]''"
    by blast+
qed

lemma Parse_Inr:
  "Parse ul input = Inr p \<longleftrightarrow>
     (\<exists>st. parse_directives ul input = Inr st \<and>
        p = \<lparr>pHosts = map (make_candidate ul st) (psAliases st), pWarnings = psWarnings st\<rparr>)"
  by (auto simp: Parse_def res_simps)

lemma Parse_aliases:
  "Parse ul input = Inr p \<Longrightarrow> distinct (map cAlias (pHosts p))"
  by (auto simp: Parse_Inr o_def make_candidate_simps parse_directives_aliases)

text \<open>A file with any \<open>Match\<close> block yields no importable host.\<close>

lemma Parse_match:
  "Parse ul input = Inr p \<Longrightarrow> MatchSkipped \<in> set (pWarnings p) \<Longrightarrow> c \<in> set (pHosts p) \<Longrightarrow> \<not> cValid c"
  using make_candidate_valid(7) by (auto simp: Parse_Inr)

end
