(* ===== verification/SshImport.thy ===== *)
theory SshImport
  imports SshParse
begin

text \<open>
  internal/sshconfig/importer.go and startup.go: adding the selected hosts of a parsed
  configuration to the state, and the import at startup, which groups new hosts by their jump
  hosts and commits each group in a transaction of its own. \<open>ids\<close> is the supply of fresh
  identifiers (\<open>database.ID\<close>).
\<close>

section \<open>Read\<close>

definition config_Read :: "os \<Rightarrow> fs \<Rightarrow> (nat \<Rightarrow> nat) \<Rightarrow> string \<Rightarrow> preview res" where
  "config_Read os fs ul path =
     rbind (Path os path)
     (\<lambda>p. case fs p of
        None \<Rightarrow> Inl (ConfigErr ConfigNotFound)
      | Some f \<Rightarrow>
          rbind (check (fRegular f \<and> fSize f \<le> 2 * 1024 * 1024) (ConfigErr ConfigNotRegular))
          (\<lambda>_. rbind (check (fReadOk f) (ConfigErr ConfigUnreadable))
          (\<lambda>_. Parse ul (fContent f))))"

section \<open>ApplySelected\<close>

text \<open>\<open>byName\<close> is a Go map, absent names reading as the empty string; \<open>newHosts\<close> maps an alias
  to the index of its new host.\<close>

definition names_of :: "host list \<Rightarrow> string \<Rightarrow> string" where
  "names_of hs = foldl (\<lambda>m h. m(hName h := hID h)) (\<lambda>_. []) hs"

record import_state =
  iState :: state
  iByName :: "string \<Rightarrow> string"
  iNewHosts :: "(string \<times> nat) list"
  iUsed :: nat

text \<open>The last key stored at a path, by the loop without a break.\<close>

definition key_at :: "string \<Rightarrow> key list \<Rightarrow> string" where
  "key_at path ks = foldl (\<lambda>i k. if kPath k = path then kID k else i) [] ks"

definition new_host :: "candidate \<Rightarrow> string \<Rightarrow> string \<Rightarrow> host" where
  "new_host c i keyID = \<lparr>hID = i, hName = cAlias c, hEnvironment = ''DEV'', hType = ''Server'',
     hAddress = cAddress c, hPort = cPort c, hUsername = cUsername c, hKeyID = keyID, hJumpID = [],
     hDescription = [], hFingerprint = []\<rparr>"

definition add_key :: "(nat \<Rightarrow> string) \<Rightarrow> candidate \<Rightarrow> string \<Rightarrow> import_state \<Rightarrow> string \<times> import_state" where
  "add_key ids c path a =
     (let i = key_at path (Keys (iState a)) in
      if i \<noteq> [] then (i, a)
      else
        let i' = ids (iUsed a) in
        (i', a\<lparr>iState := (iState a)\<lparr>Keys := Keys (iState a) @
                [\<lparr>kID = i', kName = cAlias c @ '' key'', kPath = path\<rparr>]\<rparr>,
               iUsed := Suc (iUsed a)\<rparr>))"

definition add_host :: "(nat \<Rightarrow> string) \<Rightarrow> candidate \<Rightarrow> string \<Rightarrow> import_state \<Rightarrow> import_state" where
  "add_host ids c keyID a =
     (let i = ids (iUsed a); s = iState a in
      a\<lparr>iByName := (iByName a)(cAlias c := i),
        iNewHosts := AList.update (cAlias c) (length (Hosts s)) (iNewHosts a),
        iState := s\<lparr>Hosts := Hosts s @ [new_host c i keyID]\<rparr>,
        iUsed := Suc (iUsed a)\<rparr>)"

definition add_candidate ::
  "os \<Rightarrow> fs \<Rightarrow> (string \<Rightarrow> 's key_parse) \<Rightarrow> (nat \<Rightarrow> string) \<Rightarrow> string list \<Rightarrow>
   import_state \<Rightarrow> candidate \<Rightarrow> import_state res" where
  "add_candidate os fs pk ids sel a c =
     (if cAlias c \<notin> set sel then Inr a
      else
        rbind (check (cValid c) (ConfigErr (UnsupportedConfig (cAlias c))))
        (\<lambda>_. rbind (check (iByName a (cAlias c) = []) (ConfigErr (AlreadyRegistered (cAlias c))))
        (\<lambda>_. rbind (Path os (cIdentityFile c))
        (\<lambda>path. rbind (case key_Validate os fs pk path of
                         Inl e \<Rightarrow> Inl (Named (cAlias c) e) | Inr _ \<Rightarrow> Inr ())
        (\<lambda>_. case add_key ids c path a of (keyID, a') \<Rightarrow> Inr (add_host ids c keyID a'))))))"

definition set_jump :: "nat \<Rightarrow> string \<Rightarrow> state \<Rightarrow> state" where
  "set_jump i v s = s\<lparr>Hosts := (Hosts s)[i := (Hosts s ! i)\<lparr>hJumpID := v\<rparr>]\<rparr>"

text \<open>Setting the jump host of a new host, unless it already has another one.\<close>

definition claim_jump :: "nat \<Rightarrow> string \<Rightarrow> state \<Rightarrow> state res" where
  "claim_jump i v s =
     (if hJumpID (Hosts s ! i) \<noteq> [] \<and> hJumpID (Hosts s ! i) \<noteq> v then Inl (ConfigErr JumpConflict)
      else Inr (set_jump i v s))"

definition link_hop ::
  "(string \<Rightarrow> string) \<Rightarrow> (string \<times> nat) list \<Rightarrow> string \<Rightarrow> state \<times> string \<Rightarrow> string \<Rightarrow>
   (state \<times> string) res" where
  "link_hop byName newHosts alias sp hop =
     (case sp of (s, previous) \<Rightarrow>
        let i = byName hop in
        if i = [] then Inl (ConfigErr (JumpNotRegistered alias hop))
        else if previous = [] then Inr (s, i)
        else (case map_of newHosts hop of
            Some j \<Rightarrow> rbind (claim_jump j previous s) (\<lambda>s'. Inr (s', i))
          | None \<Rightarrow>
              let jump = (case State_Host s i of Inr h \<Rightarrow> hJumpID h | Inl _ \<Rightarrow> [])
              in if jump \<noteq> previous then Inl (ConfigErr ExistingJumpConflict) else Inr (s, i)))"

definition link_candidate ::
  "(string \<Rightarrow> string) \<Rightarrow> (string \<times> nat) list \<Rightarrow> state \<Rightarrow> candidate \<Rightarrow> state res" where
  "link_candidate byName newHosts s c =
     (case map_of newHosts (cAlias c) of
        None \<Rightarrow> Inr s
      | Some i \<Rightarrow>
          rbind (rfold (link_hop byName newHosts (cAlias c)) (s, []) (cJumps c))
          (\<lambda>(s', previous). if previous = [] then Inr s' else claim_jump i previous s'))"

text \<open>\<open>sel\<close> is the set of selected aliases, a list without repetitions.\<close>

definition import_init :: "state \<Rightarrow> import_state" where
  "import_init s = \<lparr>iState = s, iByName = names_of (Hosts s), iNewHosts = [], iUsed = 0\<rparr>"

definition ApplySelected ::
  "os \<Rightarrow> fs \<Rightarrow> (string \<Rightarrow> 's key_parse) \<Rightarrow> (nat \<Rightarrow> string) \<Rightarrow> preview \<Rightarrow> string list \<Rightarrow> state \<Rightarrow> state res" where
  "ApplySelected os fs pk ids p sel s =
     rbind (rfold (add_candidate os fs pk ids sel) (import_init s) (pHosts p))
     (\<lambda>a. rbind (check (length (iNewHosts a) = length (remdups sel)) (ConfigErr AliasesMissing))
     (\<lambda>_. rfold (link_candidate (iByName a) (iNewHosts a)) (iState a) (pHosts p)))"

section \<open>The import at startup\<close>

datatype skip_reason =
    CandidateWarnings "warning list" | SkipError err | SkipKeyPath | JumpUnavailable string

datatype startup_warning = UnreadableConfig | UnreadableStore | ParseWarning warning

record startup_result =
  rSource :: string
  rImported :: nat
  rExisting :: nat
  rSkipped :: "(string \<times> skip_reason) list"
  rWarnings :: "startup_warning list"
  rMissing :: bool
  rDisabled :: bool

definition startup_init :: "string \<Rightarrow> startup_result" where
  "startup_init path = \<lparr>rSource = path, rImported = 0, rExisting = 0, rSkipped = [], rWarnings = [],
     rMissing = False, rDisabled = False\<rparr>"

definition skip_reason_of ::
  "os \<Rightarrow> fs \<Rightarrow> (string \<Rightarrow> 's key_parse) \<Rightarrow> candidate \<Rightarrow> skip_reason option" where
  "skip_reason_of os fs pk c =
     (if \<not> cValid c then Some (CandidateWarnings (cWarnings c))
      else case ValidateHost (new_host c [] ''pending'') of
        Inl e \<Rightarrow> Some (SkipError e)
      | Inr _ \<Rightarrow>
          (case Path os (cIdentityFile c) of
             Inl _ \<Rightarrow> Some SkipKeyPath
           | Inr path \<Rightarrow>
               (case key_Validate os fs pk path of Inl e \<Rightarrow> Some (SkipError e) | Inr _ \<Rightarrow> None)))"

text \<open>\<open>reason != ""\<close>: a candidate without warnings gives an empty reason, but an invalid one
  always has a warning.\<close>

definition classify ::
  "os \<Rightarrow> fs \<Rightarrow> (string \<Rightarrow> 's key_parse) \<Rightarrow> string list \<Rightarrow>
   startup_result \<times> string list \<Rightarrow> candidate \<Rightarrow> startup_result \<times> string list" where
  "classify os fs pk existing re c =
     (case re of (r, eligible) \<Rightarrow>
        if cAlias c \<in> set existing then (r\<lparr>rExisting := Suc (rExisting r)\<rparr>, eligible)
        else case skip_reason_of os fs pk c of
          Some w \<Rightarrow> (r\<lparr>rSkipped := rSkipped r @ [(cAlias c, w)]\<rparr>, eligible)
        | None \<Rightarrow> (r, List.insert (cAlias c) eligible))"

text \<open>One pass of the loop that removes hosts whose jump host is not available.\<close>

definition prune_step ::
  "string list \<Rightarrow> string list \<times> (string \<times> skip_reason) list \<times> bool \<Rightarrow> candidate \<Rightarrow>
   string list \<times> (string \<times> skip_reason) list \<times> bool" where
  "prune_step existing esc c =
     (case esc of (eligible, skipped, changed) \<Rightarrow>
        if cAlias c \<notin> set eligible then esc
        else case find (\<lambda>hop. hop \<notin> set eligible \<and> hop \<notin> set existing) (cJumps c) of
          None \<Rightarrow> esc
        | Some hop \<Rightarrow> (removeAll (cAlias c) eligible,
            skipped @ [(cAlias c, JumpUnavailable hop)], True))"

definition prune_pass ::
  "string list \<Rightarrow> candidate list \<Rightarrow> string list \<Rightarrow> (string \<times> skip_reason) list \<Rightarrow>
   string list \<times> (string \<times> skip_reason) list \<times> bool" where
  "prune_pass existing hosts eligible skipped =
     foldl (prune_step existing) (eligible, skipped, False) hosts"

lemma prune_fold_length:
  "foldl (prune_step ex) (e, sk, ch) hs = (e', sk', ch') \<Longrightarrow>
     length e' \<le> length e \<and> (ch' \<longrightarrow> ch \<or> length e' < length e)"
proof (induction hs arbitrary: e sk ch)
  case (Cons c hs)
  obtain e1 sk1 ch1 where s: "prune_step ex (e, sk, ch) c = (e1, sk1, ch1)"
    by (cases "prune_step ex (e, sk, ch) c") auto
  then have "e1 = e \<and> ch1 = ch \<or> length e1 < length e"
    using length_removeAll_less [of "cAlias c" e]
    by (auto simp: prune_step_def split: if_splits option.splits)
  with Cons.IH [of e1 sk1 ch1] Cons.prems s show ?case by fastforce
qed simp

function prune ::
  "string list \<Rightarrow> candidate list \<Rightarrow> string list \<Rightarrow> (string \<times> skip_reason) list \<Rightarrow>
   string list \<times> (string \<times> skip_reason) list" where
  "prune existing hosts eligible skipped =
     (case prune_pass existing hosts eligible skipped of
        (e, sk, changed) \<Rightarrow> if changed then prune existing hosts e sk else (e, sk))"
  by pat_completeness auto
termination
  by (relation "measure (\<lambda>(_, _, e, _). length e)", simp)
     (auto simp: prune_pass_def dest!: sym [of "(_, _, True)"] prune_fold_length)

declare prune.simps [simp del]

text \<open>The undirected graph of jumps between eligible hosts, as a list of edges.\<close>

definition edges :: "candidate list \<Rightarrow> string list \<Rightarrow> (string \<times> string) list" where
  "edges hosts eligible =
     concat (map (\<lambda>c. if cAlias c \<notin> set eligible then []
        else concat (map (\<lambda>hop. if hop \<in> set eligible then [(cAlias c, hop), (hop, cAlias c)] else [])
               (cJumps c))) hosts)"

definition neighbors :: "(string \<times> string) list \<Rightarrow> string \<Rightarrow> string list" where
  "neighbors es a = map snd (filter (\<lambda>e. fst e = a) es)"

text \<open>The queue loop: the visited set and the group found.\<close>

function bfs :: "(string \<times> string) list \<Rightarrow> string list \<Rightarrow> string list \<Rightarrow> string list \<Rightarrow>
  string list \<times> string list" where
  "bfs es [] visited grp = (visited, grp)"
| "bfs es (a # queue) visited grp =
     (if a \<in> set visited then bfs es queue visited grp
      else bfs es (queue @ neighbors es a) (a # visited) (grp @ [a]))"
  by pat_completeness auto
termination
proof (relation "measures [\<lambda>(es, q, v, g). card (fst ` set es - set v), \<lambda>(es, q, v, g). length q]",
    simp, simp)
  fix es :: "(string \<times> string) list" and a :: string and queue visited grp :: "string list"
  assume new: "a \<notin> set visited"
  show "((es, queue @ neighbors es a, a # visited, grp @ [a]), es, a # queue, visited, grp)
      \<in> measures [\<lambda>(es, q, v, g). card (fst ` set es - set v), \<lambda>(es, q, v, g). length q]"
  proof (cases "a \<in> fst ` set es")
    case True
    with new have "fst ` set es - set (a # visited) \<subset> fst ` set es - set visited" by auto
    then have "card (fst ` set es - set (a # visited)) < card (fst ` set es - set visited)"
      by (intro psubset_card_mono) auto
    then show ?thesis by simp
  next
    case False
    then have "filter (\<lambda>e. fst e = a) es = []" by (auto simp: filter_empty_conv)
    moreover have "fst ` set es - set (a # visited) = fst ` set es - set visited" using False by auto
    ultimately show ?thesis by (simp add: neighbors_def)
  qed
qed

record group_state =
  gVisited :: "string list"
  gResult :: startup_result
  gDb :: db
  gCount :: nat

definition import_group ::
  "(string list \<Rightarrow> nat \<Rightarrow> db \<Rightarrow> unit res \<times> db) \<Rightarrow> string list \<Rightarrow> (string \<times> string) list \<Rightarrow>
   group_state \<Rightarrow> candidate \<Rightarrow> group_state" where
  "import_group commit eligible es g c =
     (if cAlias c \<notin> set eligible \<or> cAlias c \<in> set (gVisited g) then g
      else
        case bfs es [cAlias c] (gVisited g) [] of (visited, grp) \<Rightarrow>
        (case commit grp (gCount g) (gDb g) of
           (Inl e, d) \<Rightarrow> g\<lparr>gVisited := visited, gDb := d, gCount := Suc (gCount g),
             gResult := (gResult g)\<lparr>rSkipped := rSkipped (gResult g) @ map (\<lambda>a. (a, SkipError e)) grp\<rparr>\<rparr>
         | (Inr _, d) \<Rightarrow> g\<lparr>gVisited := visited, gDb := d, gCount := Suc (gCount g),
             gResult := (gResult g)\<lparr>rImported := rImported (gResult g) + length grp\<rparr>\<rparr>))"

text \<open>The transaction of a group; \<open>ids k\<close> is the identifier supply of the k-th group and \<open>q (Suc k)\<close>
  the outcome of its statements, \<open>q 0\<close> that of the snapshot.\<close>

definition commit_group ::
  "os \<Rightarrow> fs \<Rightarrow> (string \<Rightarrow> 's key_parse) \<Rightarrow> (string \<Rightarrow> url option) \<Rightarrow> (nat \<Rightarrow> stmt \<Rightarrow> bool) \<Rightarrow>
   (nat \<Rightarrow> nat \<Rightarrow> string) \<Rightarrow> preview \<Rightarrow> string list \<Rightarrow> nat \<Rightarrow> db \<Rightarrow> unit res \<times> db" where
  "commit_group os fs pk up q ids p grp k = Update up (q (Suc k)) (ApplySelected os fs pk (ids k) p grp)"

definition AutoImport ::
  "os \<Rightarrow> fs \<Rightarrow> (string \<Rightarrow> 's key_parse) \<Rightarrow> (nat \<Rightarrow> nat) \<Rightarrow> (string \<Rightarrow> url option) \<Rightarrow> (nat \<Rightarrow> stmt \<Rightarrow> bool) \<Rightarrow>
   (nat \<Rightarrow> nat \<Rightarrow> string) \<Rightarrow> string \<Rightarrow> db \<Rightarrow> startup_result \<times> db" where
  "AutoImport os fs pk ul up q ids path d =
     (let r0 = startup_init path in
      case config_Read os fs ul path of
        Inl e \<Rightarrow>
          (if e = ConfigErr ConfigNotFound then (r0\<lparr>rMissing := True\<rparr>, d)
           else (r0\<lparr>rWarnings := [UnreadableConfig]\<rparr>, d))
      | Inr p \<Rightarrow>
          let r1 = r0\<lparr>rWarnings := map ParseWarning (pWarnings p)\<rparr> in
          (case Snapshot (q 0) d of
             Inl e \<Rightarrow> (r1\<lparr>rWarnings := rWarnings r1 @ [UnreadableStore]\<rparr>, d)
           | Inr s \<Rightarrow>
               let existing = map hName (Hosts s) in
               case foldl (classify os fs pk existing) (r1, []) (pHosts p) of (r2, eligible0) \<Rightarrow>
               (case prune existing (pHosts p) eligible0 (rSkipped r2) of (eligible, skipped) \<Rightarrow>
                 let es = edges (pHosts p) eligible;
                     g = foldl (import_group (commit_group os fs pk up q ids p) eligible es)
                       \<lparr>gVisited = [], gResult = r2\<lparr>rSkipped := skipped\<rparr>, gDb = d, gCount = 0\<rparr> (pHosts p)
                 in (gResult g, gDb g))))"

section \<open>What an import adds\<close>

lemma names_of_snoc: "names_of (hs @ [h]) = (names_of hs)(hName h := hID h)"
  by (simp add: names_of_def)

lemma names_of_map:
  "(\<And>i. i < length hs \<Longrightarrow> hName (hs ! i) = hName (ks ! i) \<and> hID (hs ! i) = hID (ks ! i)) \<Longrightarrow>
   length hs = length ks \<Longrightarrow> names_of hs = names_of ks"
proof (induction hs arbitrary: ks rule: rev_induct)
  case (snoc h hs)
  then obtain ks' k where ks: "ks = ks' @ [k]" "length ks' = length hs"
    by (cases ks rule: rev_cases) auto
  have "names_of hs = names_of ks'"
  proof (rule snoc.IH)
    fix i
    assume "i < length hs"
    then show "hName (hs ! i) = hName (ks' ! i) \<and> hID (hs ! i) = hID (ks' ! i)"
      using snoc.prems(1) [of i] ks by (simp add: nth_append)
  qed (simp add: ks)
  moreover have "hName h = hName k \<and> hID h = hID k"
    using snoc.prems(1) [of "length hs"] ks by (simp add: nth_append)
  ultimately show ?case by (simp add: names_of_snoc ks)
qed simp

text \<open>The first loop keeps the hosts and keys it started from and appends one host per selected
  candidate; \<open>newHosts\<close> points at them.\<close>

definition same_rest :: "state \<Rightarrow> state \<Rightarrow> bool" where
  "same_rest s s' \<longleftrightarrow> s'\<lparr>Hosts := [], Keys := []\<rparr> = s\<lparr>Hosts := [], Keys := []\<rparr>"

definition adds :: "state \<Rightarrow> import_state \<Rightarrow> candidate list \<Rightarrow> bool" where
  "adds s a cs \<longleftrightarrow>
     same_rest s (iState a)
     \<and> (\<exists>ks. Keys (iState a) = Keys s @ ks)
     \<and> (\<exists>hs. Hosts (iState a) = Hosts s @ hs
          \<and> list_all2 (\<lambda>c h. \<exists>i k. h = new_host c i k \<and> k \<in> kID ` set (Keys (iState a))) cs hs)
     \<and> iByName a = names_of (Hosts (iState a))
     \<and> dom (map_of (iNewHosts a)) = cAlias ` set cs
     \<and> (\<forall>x j. map_of (iNewHosts a) x = Some j \<longrightarrow>
          length (Hosts s) \<le> j \<and> j < length (Hosts (iState a))
          \<and> hName (Hosts (iState a) ! j) = x \<and> hID (Hosts (iState a) ! j) = iByName a x)"

lemma key_at_in: "key_at path ks \<noteq> [] \<Longrightarrow> key_at path ks \<in> kID ` set ks"
  by (induction ks rule: rev_induct) (auto simp: key_at_def split: if_splits)

lemma add_key_adds:
  assumes "add_key ids c path a = (k, a')" "adds s a cs"
  shows "adds s a' cs \<and> k \<in> kID ` set (Keys (iState a'))"
proof (cases "key_at path (Keys (iState a)) = []")
  case False
  with assms key_at_in [OF False] show ?thesis by (auto simp: add_key_def Let_def)
next
  case True
  let ?r = "\<lambda>ks c h. \<exists>i k. h = new_host c i k \<and> k \<in> kID ` set ks"
  from assms(2) obtain ks hs where a: "Keys (iState a) = Keys s @ ks" "Hosts (iState a) = Hosts s @ hs"
    "list_all2 (?r (Keys (iState a))) cs hs" unfolding adds_def by auto
  from True assms(1) have a': "a' = a\<lparr>iState := (iState a)\<lparr>Keys := Keys (iState a) @
        [\<lparr>kID = k, kName = cAlias c @ '' key'', kPath = path\<rparr>]\<rparr>, iUsed := Suc (iUsed a)\<rparr>"
    by (auto simp: add_key_def Let_def)
  have "list_all2 (?r (Keys (iState a'))) cs hs"
    by (rule list_all2_mono [OF a(3)]) (auto simp: a')
  with assms(2) a show ?thesis
    by (auto simp: adds_def same_rest_def a')
qed

lemma add_host_adds:
  assumes "adds s a cs" "k \<in> kID ` set (Keys (iState a))"
  shows "adds s (add_host ids c k a) (cs @ [c])"
proof -
  let ?s = "iState (add_host ids c k a)"
  let ?hosts = "\<exists>hs. Hosts ?s = Hosts s @ hs
    \<and> list_all2 (\<lambda>c h. \<exists>i k. h = new_host c i k \<and> k \<in> kID ` set (Keys ?s)) (cs @ [c]) hs"
  from assms(1) obtain hs where "Hosts (iState a) = Hosts s @ hs"
    "list_all2 (\<lambda>c h. \<exists>i k. h = new_host c i k \<and> k \<in> kID ` set (Keys (iState a))) cs hs"
    unfolding adds_def by auto
  then have "Hosts (iState (add_host ids c k a)) = Hosts s @ hs @ [new_host c (ids (iUsed a)) k]"
    "list_all2 (\<lambda>c h. \<exists>i k. h = new_host c i k \<and> k \<in> kID ` set (Keys ?s))
       (cs @ [c]) (hs @ [new_host c (ids (iUsed a)) k])"
    using assms(2) by (auto simp: add_host_def Let_def intro!: list_all2_appendI)
  then have 1: "?hosts" by (intro exI conjI)
  have 2: "length (Hosts s) \<le> j \<and> j < length (Hosts ?s) \<and> hName (Hosts ?s ! j) = x
      \<and> hID (Hosts ?s ! j) = iByName (add_host ids c k a) x"
    if "map_of (iNewHosts (add_host ids c k a)) x = Some j" for x j
  proof (cases "x = cAlias c")
    case True
    with that have "j = length (Hosts (iState a))"
      by (auto simp: add_host_def Let_def map_of_update)
    with True show ?thesis using assms(1) by (auto simp: adds_def add_host_def Let_def new_host_def)
  next
    case False
    with that have "map_of (iNewHosts a) x = Some j"
      by (auto simp: add_host_def Let_def map_of_update)
    with assms(1) have "length (Hosts s) \<le> j \<and> j < length (Hosts (iState a))
        \<and> hName (Hosts (iState a) ! j) = x \<and> hID (Hosts (iState a) ! j) = iByName a x"
      by (simp add: adds_def)
    with False show ?thesis by (auto simp: add_host_def Let_def nth_append)
  qed
  have 3: "same_rest s ?s" "\<exists>ks. Keys ?s = Keys s @ ks"
      "iByName (add_host ids c k a) = names_of (Hosts ?s)"
      "dom (map_of (iNewHosts (add_host ids c k a))) = cAlias ` set (cs @ [c])"
    using assms(1)
    by (auto simp: adds_def same_rest_def add_host_def Let_def names_of_snoc new_host_def
        dom_map_of_update)
  from 1 2 3 show ?thesis unfolding adds_def by blast
qed

lemma add_candidate_adds:
  assumes "add_candidate os fs pk ids sel a c = Inr a'" "adds s a cs"
  shows "adds s a' (cs @ (if cAlias c \<in> set sel then [c] else []))"
proof (cases "cAlias c \<in> set sel")
  case True
  with assms(1) obtain path where
    "(case add_key ids c path a of (k, a1) \<Rightarrow> Inr (add_host ids c k a1)) = (Inr a' :: import_state res)"
    by (auto simp: add_candidate_def res_simps)
  then obtain k a1 where "add_key ids c path a = (k, a1)" "a' = add_host ids c k a1"
    by (cases "add_key ids c path a") auto
  with True add_host_adds add_key_adds [OF _ assms(2)] show ?thesis by auto
next
  case False
  with assms show ?thesis by (simp add: add_candidate_def)
qed

lemma add_candidates_adds:
  "rfold (add_candidate os fs pk ids sel) a cs = Inr a' \<Longrightarrow> adds s a ds \<Longrightarrow>
     adds s a' (ds @ filter (\<lambda>c. cAlias c \<in> set sel) cs)"
proof (induction cs arbitrary: a ds)
  case (Cons c cs)
  then obtain a1 where "add_candidate os fs pk ids sel a c = Inr a1"
    "rfold (add_candidate os fs pk ids sel) a1 cs = Inr a'" by (auto simp: res_simps)
  with Cons.IH [OF _ add_candidate_adds [OF _ Cons.prems(2)]] show ?case by fastforce
qed simp

lemma adds_init: "adds s (import_init s) []"
  by (simp add: adds_def import_init_def same_rest_def)

text \<open>The second loop only fills in jump hosts: a jump that is set stays as it is.\<close>

definition fills :: "nat set \<Rightarrow> state \<Rightarrow> state \<Rightarrow> bool" where
  "fills N s s' \<longleftrightarrow>
     s'\<lparr>Hosts := []\<rparr> = s\<lparr>Hosts := []\<rparr> \<and> length (Hosts s') = length (Hosts s)
     \<and> (\<forall>i < length (Hosts s). (Hosts s' ! i)\<lparr>hJumpID := []\<rparr> = (Hosts s ! i)\<lparr>hJumpID := []\<rparr>
          \<and> (hJumpID (Hosts s ! i) \<noteq> [] \<or> i \<notin> N \<longrightarrow> Hosts s' ! i = Hosts s ! i))"

lemma fills_refl [simp]: "fills N s s"
  by (simp add: fills_def)

lemma fills_trans: "fills N s t \<Longrightarrow> fills N t u \<Longrightarrow> fills N s u"
  unfolding fills_def by (metis (no_types, lifting))

lemma fills_same:
  assumes "fills N s s'" "i < length (Hosts s)"
  shows "hID (Hosts s' ! i) = hID (Hosts s ! i)" "hName (Hosts s' ! i) = hName (Hosts s ! i)"
    "hKeyID (Hosts s' ! i) = hKeyID (Hosts s ! i)"
proof -
  from assms have e: "(Hosts s' ! i)\<lparr>hJumpID := []\<rparr> = (Hosts s ! i)\<lparr>hJumpID := []\<rparr>"
    by (simp add: fills_def)
  show "hID (Hosts s' ! i) = hID (Hosts s ! i)" "hName (Hosts s' ! i) = hName (Hosts s ! i)"
    "hKeyID (Hosts s' ! i) = hKeyID (Hosts s ! i)"
    using arg_cong [OF e, of hID] arg_cong [OF e, of hName] arg_cong [OF e, of hKeyID] by simp_all
qed

lemma claim_jump_fills:
  "claim_jump i v s = Inr s' \<Longrightarrow> i \<in> N \<Longrightarrow> i < length (Hosts s) \<Longrightarrow>
     fills N s s' \<and> hJumpID (Hosts s' ! i) = v"
  by (auto simp: claim_jump_def set_jump_def fills_def nth_list_update split: if_splits)

text \<open>\<open>hop\<close> is reached from the host \<open>prev\<close>, through the new host of that name or through the
  existing one.\<close>

definition joined :: "(string \<Rightarrow> string) \<Rightarrow> (string \<times> nat) list \<Rightarrow> state \<Rightarrow> string \<Rightarrow> string \<Rightarrow> bool" where
  "joined B nh s prev hop \<longleftrightarrow>
     prev \<noteq> [] \<and> (case map_of nh hop of
        Some j \<Rightarrow> j < length (Hosts s) \<and> hJumpID (Hosts s ! j) = prev
      | None \<Rightarrow> \<exists>h. State_Host s (B hop) = Inr h \<and> hJumpID h = prev)"

lemma fills_find:
  assumes "fills N s s'"
  shows "find_id hID i (Hosts s) = Some h \<Longrightarrow> hJumpID h \<noteq> [] \<Longrightarrow> find_id hID i (Hosts s') = Some h"
proof -
  have l: "length (Hosts s') = length (Hosts s)" using assms by (simp add: fills_def)
  have id: "hID (Hosts s' ! j) = hID (Hosts s ! j)" if "j < length (Hosts s)" for j
    using fills_same(1) [OF assms that] .
  assume f: "find_id hID i (Hosts s) = Some h" and h: "hJumpID h \<noteq> []"
  from f obtain j where j: "j < length (Hosts s)" "Hosts s ! j = h" "hID h = i"
    "\<forall>k < j. hID (Hosts s ! k) \<noteq> i"
    by (auto simp: find_id_def find_Some_iff)
  with h assms have "Hosts s' ! j = h" by (auto simp: fills_def)
  with j id l show "find_id hID i (Hosts s') = Some h"
    by (auto simp: find_id_def find_Some_iff intro!: exI [of _ j])
qed

lemma joined_mono:
  assumes "joined B nh s prev hop" "fills N s s'"
  shows "joined B nh s' prev hop"
proof (cases "map_of nh hop")
  case None
  with assms(1) obtain h where h: "State_Host s (B hop) = Inr h" "hJumpID h = prev" "prev \<noteq> []"
    by (auto simp: joined_def)
  then have "State_Host s' (B hop) = Inr h"
    using fills_find [OF assms(2)] by (simp add: State_Host_Inr)
  with None h show ?thesis by (simp add: joined_def)
next
  case (Some j)
  with assms show ?thesis by (auto simp: joined_def fills_def)
qed

text \<open>Consecutive elements of a list.\<close>

definition steps :: "'a list \<Rightarrow> ('a \<times> 'a) list" where
  "steps xs = zip xs (tl xs)"

lemma steps_snoc: "steps (xs @ [x]) = (if xs = [] then [] else steps xs @ [(last xs, x)])"
proof (induction xs)
  case (Cons y xs)
  then show ?case by (cases xs) (auto simp: steps_def)
qed (simp add: steps_def)

lemma link_hops:
  assumes nh: "\<forall>x j. map_of nh x = Some j \<longrightarrow> j \<in> N \<and> j < n"
  shows "rfold (link_hop B nh alias) (s, []) hops = Inr (s', p) \<Longrightarrow> length (Hosts s) = n \<Longrightarrow>
     fills N s s' \<and> p = (if hops = [] then [] else B (last hops)) \<and> (hops \<noteq> [] \<longrightarrow> p \<noteq> [])
     \<and> (\<forall>(a, b) \<in> set (steps hops). joined B nh s' (B a) b)"
proof (induction hops arbitrary: s' p rule: rev_induct)
  case Nil
  then show ?case by (simp add: steps_def)
next
  case (snoc hop hops)
  then obtain t q where t: "rfold (link_hop B nh alias) (s, []) hops = Inr (t, q)"
    and st: "link_hop B nh alias (t, q) hop = Inr (s', p)"
    by (auto simp: rfold_append res_simps)
  note IH = snoc.IH [OF t snoc.prems(2)]
  from st have p: "p = B hop" "p \<noteq> []"
    by (auto simp: link_hop_def Let_def res_simps split: if_splits option.splits)
  have len: "length (Hosts t) = n" using IH snoc.prems(2) by (auto simp: fills_def)
  show ?case
  proof (cases "q = []")
    case True
    with IH have "hops = []" by auto
    moreover from True st have "s' = t" by (auto simp: link_hop_def Let_def split: if_splits)
    ultimately show ?thesis using IH p by (simp add: steps_def)
  next
    case False
    have one: "fills N t s' \<and> joined B nh s' q hop"
    proof (cases "map_of nh hop")
      case None
      with st False have "s' = t" "(case State_Host s' (B hop) of Inr h \<Rightarrow> hJumpID h | Inl _ \<Rightarrow> []) = q"
        by (auto simp: link_hop_def Let_def split: if_splits)
      with None False show ?thesis by (auto simp: joined_def split: sum.splits)
    next
      case (Some j)
      with st False have "claim_jump j q t = Inr s'"
        by (auto simp: link_hop_def Let_def res_simps split: if_splits)
      from claim_jump_fills [OF this, of N] Some nh len False show ?thesis
        by (auto simp: joined_def fills_def)
    qed
    with IH False have "hops \<noteq> []" "q = B (last hops)" by auto
    with one IH p joined_mono [of B nh t _ _ N s'] fills_trans [of N s t s'] show ?thesis
      by (auto simp: steps_snoc)
  qed
qed

lemma link_candidate_joined:
  assumes nh: "\<forall>x j. map_of nh x = Some j \<longrightarrow> j \<in> N \<and> j < n"
    and "link_candidate B nh s c = Inr s'" "length (Hosts s) = n"
  shows "fills N s s'"
    and "map_of nh (cAlias c) \<noteq> None \<Longrightarrow>
      \<forall>(a, b) \<in> set (steps (cJumps c @ [cAlias c])). joined B nh s' (B a) b"
proof -
  have *: "fills N s s' \<and> (map_of nh (cAlias c) \<noteq> None \<longrightarrow>
      (\<forall>(a, b) \<in> set (steps (cJumps c @ [cAlias c])). joined B nh s' (B a) b))"
  proof (cases "map_of nh (cAlias c)")
    case None
    with assms(2) show ?thesis by (simp add: link_candidate_def)
  next
    case (Some i)
    with assms(2) obtain t p where t: "rfold (link_hop B nh (cAlias c)) (s, []) (cJumps c) = Inr (t, p)"
      and u: "(if p = [] then Inr t else claim_jump i p t) = Inr s'"
      by (auto simp: link_candidate_def res_simps)
    note L = link_hops [OF nh t assms(3)]
    have len: "length (Hosts t) = n" using L assms(3) by (auto simp: fills_def)
    show ?thesis
    proof (cases "cJumps c = []")
      case True
      with L u show ?thesis by (auto simp: steps_def)
    next
      case False
      with L have "p \<noteq> []" "p = B (last (cJumps c))" by auto
      with u have c: "claim_jump i p t = Inr s'" by simp
      from claim_jump_fills [OF c, of N] nh Some len
      have f: "fills N t s'" "hJumpID (Hosts s' ! i) = p" by auto
      then have "joined B nh s' p (cAlias c)"
        using Some \<open>p \<noteq> []\<close> len nh by (auto simp: joined_def fills_def)
      with False L f \<open>p = B (last (cJumps c))\<close> joined_mono [of B nh t _ _ N s'] fills_trans [of N s t s']
      show ?thesis by (auto simp: steps_snoc)
    qed
  qed
  then show "fills N s s'" by simp
  from * show "map_of nh (cAlias c) \<noteq> None \<Longrightarrow>
      \<forall>(a, b) \<in> set (steps (cJumps c @ [cAlias c])). joined B nh s' (B a) b" by blast
qed

lemma link_candidates_joined:
  assumes nh: "\<forall>x j. map_of nh x = Some j \<longrightarrow> j \<in> N \<and> j < n"
  shows "rfold (link_candidate B nh) s cs = Inr s' \<Longrightarrow> length (Hosts s) = n \<Longrightarrow>
     fills N s s' \<and> (\<forall>c \<in> set cs. map_of nh (cAlias c) \<noteq> None \<longrightarrow>
       (\<forall>(a, b) \<in> set (steps (cJumps c @ [cAlias c])). joined B nh s' (B a) b))"
proof (induction cs arbitrary: s)
  case (Cons c cs)
  then obtain t where t: "link_candidate B nh s c = Inr t" "rfold (link_candidate B nh) t cs = Inr s'"
    by (auto simp: res_simps)
  note one = link_candidate_joined [OF nh t(1) Cons.prems(2)]
  have "length (Hosts t) = n" using one(1) Cons.prems(2) by (simp add: fills_def)
  note rest = Cons.IH [OF t(2) this]
  have "fills N s s'" using one(1) rest fills_trans by blast
  moreover have "\<forall>(a, b) \<in> set (steps (cJumps c @ [cAlias c])). joined B nh s' (B a) b"
    if "map_of nh (cAlias c) \<noteq> None"
    using one(2) [OF that] rest joined_mono [of B nh t _ _ N s'] by auto
  ultimately show ?case using rest by simp
qed simp

text \<open>The whole import, as its two loops.\<close>

lemma ApplySelected_parts:
  assumes "ApplySelected os fs pk ids p sel s = Inr s'"
  obtains a where "adds s a (filter (\<lambda>c. cAlias c \<in> set sel) (pHosts p))"
    "fills {length (Hosts s)..} (iState a) s'"
    "\<forall>c \<in> set (pHosts p). cAlias c \<in> set sel \<longrightarrow>
       (\<forall>(x, y) \<in> set (steps (cJumps c @ [cAlias c])). joined (iByName a) (iNewHosts a) s' (iByName a x) y)"
proof -
  from assms obtain a where a: "rfold (add_candidate os fs pk ids sel) (import_init s) (pHosts p) = Inr a"
    and l: "rfold (link_candidate (iByName a) (iNewHosts a)) (iState a) (pHosts p) = Inr s'"
    by (auto simp: ApplySelected_def res_simps)
  from add_candidates_adds [OF a, of s "[]"] adds_init [of s]
  have A: "adds s a (filter (\<lambda>c. cAlias c \<in> set sel) (pHosts p))"
    by (simp add: adds_def import_init_def)
  then have "\<forall>x j. map_of (iNewHosts a) x = Some j \<longrightarrow>
      j \<in> {length (Hosts s)..} \<and> j < length (Hosts (iState a))"
    by (simp add: adds_def)
  note L = link_candidates_joined [OF this l refl]
  have "map_of (iNewHosts a) (cAlias c) \<noteq> None" if "c \<in> set (pHosts p)" "cAlias c \<in> set sel" for c
  proof -
    have "cAlias c \<in> dom (map_of (iNewHosts a))" using A that by (auto simp: adds_def)
    then show ?thesis by auto
  qed
  with A L that show thesis by blast
qed

lemma fills_names:
  assumes "fills N s s'"
  shows "names_of (Hosts s') = names_of (Hosts s)"
proof (rule names_of_map)
  show l: "length (Hosts s') = length (Hosts s)" using assms by (simp add: fills_def)
  show "hName (Hosts s' ! i) = hName (Hosts s ! i) \<and> hID (Hosts s' ! i) = hID (Hosts s ! i)"
    if "i < length (Hosts s')" for i
    using fills_same [OF assms] that l by simp
qed

text \<open>An import keeps the hosts and keys there are and everything else of the state; the new hosts
  are those of the selected candidates, in the order of the file.\<close>

lemma ApplySelected_adds:
  assumes "ApplySelected os fs pk ids p sel s = Inr s'"
  shows "take (length (Hosts s)) (Hosts s') = Hosts s" "\<exists>ks. Keys s' = Keys s @ ks" "same_rest s s'"
    "list_all2 (\<lambda>c h. h\<lparr>hJumpID := []\<rparr> = new_host c (hID h) (hKeyID h) \<and> hKeyID h \<in> kID ` set (Keys s'))
       (filter (\<lambda>c. cAlias c \<in> set sel) (pHosts p)) (drop (length (Hosts s)) (Hosts s'))"
proof -
  obtain a where a: "adds s a (filter (\<lambda>c. cAlias c \<in> set sel) (pHosts p))"
    and f: "fills {length (Hosts s)..} (iState a) s'"
    by (rule ApplySelected_parts [OF assms])
  from a obtain hs where h: "Hosts (iState a) = Hosts s @ hs"
    "list_all2 (\<lambda>c h. \<exists>i k. h = new_host c i k \<and> k \<in> kID ` set (Keys (iState a)))
       (filter (\<lambda>c. cAlias c \<in> set sel) (pHosts p)) hs"
    unfolding adds_def by blast
  from f have len: "length (Hosts s') = length (Hosts s) + length hs" by (simp add: fills_def h)
  from f have "s'\<lparr>Hosts := []\<rparr> = (iState a)\<lparr>Hosts := []\<rparr>" by (simp add: fills_def)
  note e = this
  from arg_cong [OF e, of Keys] have k: "Keys s' = Keys (iState a)" by simp
  with a show "\<exists>ks. Keys s' = Keys s @ ks" by (simp add: adds_def)
  from arg_cong [OF e, of "Keys_update (\<lambda>_. [])"] a show "same_rest s s'"
    by (simp add: same_rest_def adds_def)
  show "take (length (Hosts s)) (Hosts s') = Hosts s"
  proof (rule nth_equalityI)
    fix i
    assume i: "i < length (take (length (Hosts s)) (Hosts s'))"
    with f have "Hosts s' ! i = Hosts (iState a) ! i" by (simp add: fills_def h)
    with i show "take (length (Hosts s)) (Hosts s') ! i = Hosts s ! i" by (simp add: h nth_append)
  qed (simp add: len)
  show "list_all2 (\<lambda>c h. h\<lparr>hJumpID := []\<rparr> = new_host c (hID h) (hKeyID h) \<and> hKeyID h \<in> kID ` set (Keys s'))
       (filter (\<lambda>c. cAlias c \<in> set sel) (pHosts p)) (drop (length (Hosts s)) (Hosts s'))"
  proof (rule list_all2_all_nthI)
    show "length (filter (\<lambda>c. cAlias c \<in> set sel) (pHosts p)) = length (drop (length (Hosts s)) (Hosts s'))"
      using list_all2_lengthD [OF h(2)] len by simp
    fix n
    assume n: "n < length (filter (\<lambda>c. cAlias c \<in> set sel) (pHosts p))"
    let ?i = "length (Hosts s) + n"
    have i: "?i < length (Hosts (iState a))" using n list_all2_lengthD [OF h(2)] by (simp add: h)
    from list_all2_nthD [OF h(2) n] obtain j m where
      n': "Hosts (iState a) ! ?i = new_host (filter (\<lambda>c. cAlias c \<in> set sel) (pHosts p) ! n) j m"
      "m \<in> kID ` set (Keys s')" by (auto simp: h k)
    from f i have "(Hosts s' ! ?i)\<lparr>hJumpID := []\<rparr> = (Hosts (iState a) ! ?i)\<lparr>hJumpID := []\<rparr>"
      by (simp add: fills_def)
    moreover have "hID (Hosts s' ! ?i) = j" "hKeyID (Hosts s' ! ?i) = m"
      using fills_same [OF f i] n' by (simp_all add: new_host_def)
    ultimately show "(drop (length (Hosts s)) (Hosts s') ! n)\<lparr>hJumpID := []\<rparr> =
          new_host (filter (\<lambda>c. cAlias c \<in> set sel) (pHosts p) ! n)
            (hID (drop (length (Hosts s)) (Hosts s') ! n)) (hKeyID (drop (length (Hosts s)) (Hosts s') ! n))
        \<and> hKeyID (drop (length (Hosts s)) (Hosts s') ! n) \<in> kID ` set (Keys s')"
      using n' len i by (simp add: new_host_def)
  qed
qed

text \<open>The jump hosts of the imported state are those of the configuration.\<close>

lemma ApplySelected_joined:
  assumes "ApplySelected os fs pk ids p sel s = Inr s'" and "distinct (map hID (Hosts s'))"
    and "c \<in> set (pHosts p)" "cAlias c \<in> set sel" "(x, y) \<in> set (steps (cJumps c @ [cAlias c]))"
  shows "\<exists>h. State_Host s' (names_of (Hosts s') y) = Inr h \<and> hJumpID h = names_of (Hosts s') x \<and> hJumpID h \<noteq> []"
proof -
  obtain a where a: "adds s a (filter (\<lambda>c. cAlias c \<in> set sel) (pHosts p))"
    and f: "fills {length (Hosts s)..} (iState a) s'"
    and "\<forall>c \<in> set (pHosts p). cAlias c \<in> set sel \<longrightarrow>
       (\<forall>(x, y) \<in> set (steps (cJumps c @ [cAlias c])). joined (iByName a) (iNewHosts a) s' (iByName a x) y)"
    by (rule ApplySelected_parts [OF assms(1)])
  then have j: "joined (iByName a) (iNewHosts a) s' (iByName a x) y" using assms(3-5) by blast
  have n: "names_of (Hosts s') = iByName a" using a fills_names [OF f] by (simp add: adds_def)
  show ?thesis
  proof (cases "map_of (iNewHosts a) y")
    case None
    with j n show ?thesis by (auto simp: joined_def)
  next
    case (Some i)
    with a f have i: "i < length (Hosts s')" "hID (Hosts (iState a) ! i) = iByName a y"
      "i < length (Hosts (iState a))"
      by (auto simp: adds_def fills_def)
    with fills_same(1) [OF f i(3)] have "State_Host s' (iByName a y) = Inr (Hosts s' ! i)"
      using find_id_distinct [OF assms(2), of "Hosts s' ! i"] by (simp add: State_Host_Inr)
    with Some j n show ?thesis by (auto simp: joined_def)
  qed
qed

section \<open>What the startup import accounts for\<close>

text \<open>The aliases as multisets: nothing is lost and nothing counted twice.\<close>

lemma bfs_visits:
  "bfs es q v g = (v', g') \<Longrightarrow> distinct v \<Longrightarrow>
     distinct v' \<and> set v \<subseteq> set v' \<and> mset v' + mset g = mset v + mset g'
     \<and> set v' \<subseteq> set v \<union> set q \<union> snd ` set es \<and> set q \<subseteq> set v'"
proof (induction es q v g rule: bfs.induct)
  case (2 es a queue visited grp)
  show ?case
  proof (cases "a \<in> set visited")
    case True
    with 2 show ?thesis by auto
  next
    case False
    have "set (neighbors es a) \<subseteq> snd ` set es" by (auto simp: neighbors_def)
    with False 2(2) [OF False] 2(3,4) show ?thesis by auto
  qed
qed simp

lemma edges_eligible: "snd ` set (edges hosts eligible) \<subseteq> set eligible"
  by (auto simp: edges_def split: if_splits)

lemma classify_count:
  assumes "foldl (classify os fs pk ex) (r, el) cs = (r', el')" "distinct (map cAlias cs)"
    "distinct el" "set el \<inter> cAlias ` set cs = {}"
  shows "distinct el' \<and> set el' \<subseteq> set el \<union> cAlias ` set cs \<and> rImported r' = rImported r
    \<and> rExisting r' = rExisting r + length (filter (\<lambda>a. a \<in> set ex) (map cAlias cs))
    \<and> mset (filter (\<lambda>a. a \<in> set ex) (map cAlias cs)) + mset (map fst (rSkipped r')) + mset el' =
        mset (map fst (rSkipped r)) + mset el + mset (map cAlias cs)"
  using assms
proof (induction cs arbitrary: r el)
  case (Cons c cs)
  obtain r1 el1 where s: "classify os fs pk ex (r, el) c = (r1, el1)"
    by (cases "classify os fs pk ex (r, el) c") auto
  let ?old = "if cAlias c \<in> set ex then [cAlias c] else []"
  from s have one: "distinct el1" "set el1 \<subseteq> insert (cAlias c) (set el)" "rImported r1 = rImported r"
    "rExisting r1 = rExisting r + length ?old"
    "mset ?old + mset (map fst (rSkipped r1)) + mset el1 = mset (map fst (rSkipped r)) + mset el + {#cAlias c#}"
    using Cons.prems(3,4) by (auto simp: classify_def split: if_splits option.splits)
  have "insert (cAlias c) (set el) \<inter> cAlias ` set cs = {}" using Cons.prems(2,4) by auto
  with one(2) have dis: "set el1 \<inter> cAlias ` set cs = {}" by blast
  have "foldl (classify os fs pk ex) (r1, el1) cs = (r', el')" using Cons.prems(1) s by simp
  from Cons.IH [OF this _ one(1) dis] Cons.prems(2) have IH:
    "distinct el'" "set el' \<subseteq> set el1 \<union> cAlias ` set cs" "rImported r' = rImported r1"
    "rExisting r' = rExisting r1 + length (filter (\<lambda>a. a \<in> set ex) (map cAlias cs))"
    "mset (filter (\<lambda>a. a \<in> set ex) (map cAlias cs)) + mset (map fst (rSkipped r')) + mset el' =
       mset (map fst (rSkipped r1)) + mset el1 + mset (map cAlias cs)" by simp_all
  have f: "filter (\<lambda>a. a \<in> set ex) (map cAlias (c # cs)) = ?old @ filter (\<lambda>a. a \<in> set ex) (map cAlias cs)" by simp
  have "mset (filter (\<lambda>a. a \<in> set ex) (map cAlias (c # cs))) + mset (map fst (rSkipped r')) + mset el' =
      mset ?old + (mset (map fst (rSkipped r1)) + mset el1 + mset (map cAlias cs))"
    unfolding f mset_append IH(5) [symmetric] by (simp only: add.assoc)
  also have "\<dots> = (mset ?old + mset (map fst (rSkipped r1)) + mset el1) + mset (map cAlias cs)" by (simp only: add.assoc)
  also have "\<dots> = mset (map fst (rSkipped r)) + mset el + mset (map cAlias (c # cs))" unfolding one(5) by simp
  finally show ?case using IH(1-4) one(2-4) unfolding f by auto
qed simp

lemma mset_removeAll_distinct: "distinct xs \<Longrightarrow> x \<in> set xs \<Longrightarrow> add_mset x (mset (removeAll x xs)) = mset xs"
  by (simp add: distinct_remove1_removeAll [symmetric])

lemma prune_fold_count:
  "foldl (prune_step ex) (e, sk, ch) cs = (e', sk', ch') \<Longrightarrow> distinct e \<Longrightarrow>
     distinct e' \<and> set e' \<subseteq> set e \<and> mset e' + mset (map fst sk') = mset e + mset (map fst sk)"
proof (induction cs arbitrary: e sk ch)
  case (Cons c cs)
  obtain e1 sk1 ch1 where s: "prune_step ex (e, sk, ch) c = (e1, sk1, ch1)"
    by (cases "prune_step ex (e, sk, ch) c") auto
  then have "e1 = e \<and> sk1 = sk \<or>
      cAlias c \<in> set e \<and> e1 = removeAll (cAlias c) e \<and> map fst sk1 = map fst sk @ [cAlias c]"
    by (auto simp: prune_step_def split: if_splits option.splits)
  then have "distinct e1" "set e1 \<subseteq> set e" "mset e1 + mset (map fst sk1) = mset e + mset (map fst sk)"
    using Cons.prems(2) mset_removeAll_distinct [OF Cons.prems(2), of "cAlias c"]
    by (auto simp: distinct_removeAll simp flip: mset_map)
  with Cons.IH [of e1 sk1 ch1] Cons.prems(1) s show ?case by fastforce
qed simp

lemma prune_count:
  "prune ex cs e sk = (e', sk') \<Longrightarrow> distinct e \<Longrightarrow>
     distinct e' \<and> set e' \<subseteq> set e \<and> mset e' + mset (map fst sk') = mset e + mset (map fst sk)"
proof (induction ex cs e sk rule: prune.induct)
  case (1 ex cs e sk)
  obtain e1 sk1 ch where p: "prune_pass ex cs e sk = (e1, sk1, ch)"
    by (cases "prune_pass ex cs e sk") auto
  from prune_fold_count [OF p [unfolded prune_pass_def] "1.prems"(2)]
  have one: "distinct e1" "set e1 \<subseteq> set e" "mset e1 + mset (map fst sk1) = mset e + mset (map fst sk)" by auto
  show ?case
  proof (cases ch)
    case True
    with "1.prems"(1) p have "prune ex cs e1 sk1 = (e', sk')" by (simp add: prune.simps [of ex cs e])
    with "1.IH" [OF p [symmetric] refl True] one show ?thesis by auto
  next
    case False
    with "1.prems"(1) p one show ?thesis by (simp add: prune.simps [of ex cs e])
  qed
qed

text \<open>A committed group adds hosts under exactly its aliases, a failed one adds none.\<close>

lemma ApplySelected_names:
  assumes "ApplySelected os fs pk ids p sel s = Inr s'" "distinct (map cAlias (pHosts p))"
    and "distinct sel" "set sel \<subseteq> cAlias ` set (pHosts p)"
  shows "mset (map hName (Hosts s')) = mset (map hName (Hosts s)) + mset sel"
proof -
  note A = ApplySelected_adds(1,4) [OF assms(1)]
  have "map hName (drop (length (Hosts s)) (Hosts s')) = map cAlias (filter (\<lambda>c. cAlias c \<in> set sel) (pHosts p))"
    using A(2)
  proof (induction rule: list_all2_induct)
    case (Cons c cs h hs)
    then have "hName (h\<lparr>hJumpID := []\<rparr>) = hName (new_host c (hID h) (hKeyID h))" by simp
    then have "hName h = cAlias c" by (simp add: new_host_def)
    with Cons.IH show ?case by simp
  qed simp
  also have "mset \<dots> = mset (filter (\<lambda>a. a \<in> set sel) (map cAlias (pHosts p)))" by (simp add: filter_map comp_def)
  also have "\<dots> = mset sel"
    using assms(2-4) by (intro set_eq_iff_mset_eq_distinct [THEN iffD1]) auto
  finally show ?thesis
    using A(1) by (metis append_take_drop_id map_append mset_append)
qed

definition names :: "db \<Rightarrow> string multiset" where
  "names d = mset (map hName (Hosts (load d)))"

lemma commit_group_names:
  assumes "commit_group os fs pk up q ids p grp k d = (u, d1)" "utf8_clean (load d)"
    and "distinct (map cAlias (pHosts p))" "distinct grp" "set grp \<subseteq> cAlias ` set (pHosts p)"
  shows "names d1 = names d + (case u of Inl _ \<Rightarrow> {#} | Inr _ \<Rightarrow> image_mset to_valid (mset grp))"
proof (cases u)
  case (Inl e)
  with assms(1) Update_Inl [of up "q (Suc k)"] show ?thesis by (auto simp: commit_group_def)
next
  case (Inr x)
  then obtain s where s: "ApplySelected os fs pk (ids k) p grp (load d) = Inr s" and w: "write_state (q (Suc k)) s d = Inr d1"
    using assms(1) Update_Inr [of up "q (Suc k)" "ApplySelected os fs pk (ids k) p grp" d x d1]
    unfolding commit_group_def by blast
  have "map json_host (Hosts (load d)) = Hosts (load d)"
    using assms(2) unfolding utf8_clean_def by (metis json_state_simps(2))
  then have "map to_valid (map hName (Hosts (load d))) = map hName (Hosts (load d))"
    by (metis (no_types, lifting) comp_def host.select_convs(2) json_host_def list.map_comp list.map_cong0)
  then have old: "image_mset to_valid (names d) = names d" unfolding names_def by (metis mset_map)
  have "Hosts (load d1) = map json_host (Hosts s)"
    using write_state_Inr(1) [OF w] by simp
  moreover have "hName (json_host h) = to_valid (hName h)" for h by (simp add: json_host_def)
  ultimately have "names d1 = image_mset to_valid (mset (map hName (Hosts s)))"
    by (simp add: names_def multiset.map_comp comp_def)
  then show ?thesis
    using ApplySelected_names [OF s assms(3-5)] old Inr by (simp add: names_def)
qed

text \<open>The loop over the groups: \<open>imp\<close> are the aliases imported so far.\<close>

definition tallied :: "db \<Rightarrow> string multiset \<Rightarrow> string list \<Rightarrow> group_state \<Rightarrow> bool" where
  "tallied d sk imp g \<longleftrightarrow> utf8_clean (load (gDb g)) \<and> names (gDb g) = names d + image_mset to_valid (mset imp)
     \<and> rImported (gResult g) = length imp
     \<and> mset imp + mset (map fst (rSkipped (gResult g))) = sk + mset (gVisited g)"

lemma import_group_tallied:
  assumes "distinct (map cAlias (pHosts p))" "set el \<subseteq> cAlias ` set (pHosts p)" "snd ` set es \<subseteq> set el"
    and "distinct (gVisited g)" "set (gVisited g) \<subseteq> set el" "tallied d sk imp g"
    and g': "g' = import_group (commit_group os fs pk up q ids p) el es g c"
  shows "distinct (gVisited g') \<and> set (gVisited g') \<subseteq> set el \<and> set (gVisited g) \<subseteq> set (gVisited g')
    \<and> (cAlias c \<in> set el \<longrightarrow> cAlias c \<in> set (gVisited g')) \<and> rExisting (gResult g') = rExisting (gResult g)
    \<and> (\<exists>imp'. tallied d sk imp' g')"
proof (cases "cAlias c \<notin> set el \<or> cAlias c \<in> set (gVisited g)")
  case True
  with assms show ?thesis by (auto simp: import_group_def)
next
  case False
  obtain v grp where b: "bfs es [cAlias c] (gVisited g) [] = (v, grp)"
    by (cases "bfs es [cAlias c] (gVisited g) []") auto
  note B = bfs_visits [OF b assms(4)]
  have m: "mset v = mset (gVisited g) + mset grp" using B by simp
  have v: "distinct v" "set (gVisited g) \<subseteq> set v" "cAlias c \<in> set v" using B by auto
  have "set v \<subseteq> insert (cAlias c) (set (gVisited g) \<union> snd ` set es)" using B by simp
  then have sub: "set v \<subseteq> set el" using assms(3,5) False by blast
  from m v(1) have "distinct grp" by (metis distinct_append mset_append mset_eq_imp_distinct_iff)
  moreover from m sub have "set grp \<subseteq> set el" by (metis set_append set_mset_mset set_mset_union sup.bounded_iff set_mset_mset)
  ultimately have grp: "distinct grp" "set grp \<subseteq> cAlias ` set (pHosts p)" using assms(2) by auto
  obtain u d1 where cm: "commit_group os fs pk up q ids p grp (gCount g) (gDb g) = (u, d1)"
    by (cases "commit_group os fs pk up q ids p grp (gCount g) (gDb g)") auto
  have clean: "utf8_clean (load (gDb g))" using assms(6) by (simp add: tallied_def)
  note n = commit_group_names [OF cm clean assms(1) grp]
  have clean1: "utf8_clean (load d1)"
    using Update_keeps_text [OF clean] cm by (metis commit_group_def snd_conv)
  show ?thesis
  proof (cases u)
    case (Inl e)
    have "tallied d sk imp g'"
      using assms(6) n clean1 m Inl False unfolding g'
      by (simp add: import_group_def b cm tallied_def comp_def del: bfs.simps)
    with v sub False Inl show ?thesis unfolding g' by (auto simp: import_group_def b cm simp del: bfs.simps)
  next
    case (Inr x)
    have "tallied d sk (imp @ grp) g'"
      using assms(6) n clean1 m Inr False unfolding g'
      by (simp add: import_group_def b cm tallied_def ac_simps del: bfs.simps)
    with v sub False Inr show ?thesis unfolding g' by (auto simp: import_group_def b cm simp del: bfs.simps)
  qed
qed

lemma import_groups_tallied:
  assumes "distinct (map cAlias (pHosts p))" "set el \<subseteq> cAlias ` set (pHosts p)" "snd ` set es \<subseteq> set el"
    and "distinct (gVisited g)" "set (gVisited g) \<subseteq> set el" "tallied d sk imp g"
    and "g' = foldl (import_group (commit_group os fs pk up q ids p) el es) g cs"
  shows "distinct (gVisited g') \<and> set (gVisited g') \<subseteq> set el
    \<and> set (gVisited g) \<union> (set el \<inter> cAlias ` set cs) \<subseteq> set (gVisited g')
    \<and> rExisting (gResult g') = rExisting (gResult g) \<and> (\<exists>imp'. tallied d sk imp' g')"
  using assms(4-)
proof (induction cs arbitrary: g imp)
  case (Cons c cs)
  let ?g1 = "import_group (commit_group os fs pk up q ids p) el es g c"
  note one = import_group_tallied [OF assms(1-3) Cons.prems(1-3) refl, of os fs pk up q ids c]
  then obtain imp1 where t: "tallied d sk imp1 ?g1" by blast
  have "g' = foldl (import_group (commit_group os fs pk up q ids p) el es) ?g1 cs"
    using Cons.prems(4) by simp
  from Cons.IH [OF _ _ t this] one show ?case by auto
qed auto

lemma AutoImport_tally:
  assumes "config_Read os fs ul path = Inr p" "Snapshot (q 0) d = Inr s"
    "AutoImport os fs pk ul up q ids path d = (r, d')" "distinct (map cAlias (pHosts p))" "utf8_clean (load d)"
  defines "old \<equiv> filter (\<lambda>a. a \<in> hName ` set (Hosts s)) (map cAlias (pHosts p))"
  shows "\<exists>imp. mset (map cAlias (pHosts p)) = mset imp + mset old + mset (map fst (rSkipped r))
    \<and> rImported r = length imp \<and> rExisting r = length old
    \<and> names d' = names d + image_mset to_valid (mset imp)"
proof -
  let ?r = "(startup_init path)\<lparr>rWarnings := map ParseWarning (pWarnings p)\<rparr>"
  let ?ex = "map hName (Hosts s)"
  obtain r1 el0 where c: "foldl (classify os fs pk ?ex) (?r, []) (pHosts p) = (r1, el0)"
    by (cases "foldl (classify os fs pk ?ex) (?r, []) (pHosts p)") auto
  obtain el sk where pr: "prune ?ex (pHosts p) el0 (rSkipped r1) = (el, sk)"
    by (cases "prune ?ex (pHosts p) el0 (rSkipped r1)") auto
  let ?es = "edges (pHosts p) el"
  let ?start = "\<lparr>gVisited = [], gResult = r1\<lparr>rSkipped := sk\<rparr>, gDb = d, gCount = 0\<rparr>"
  let ?g = "foldl (import_group (commit_group os fs pk up q ids p) el ?es) ?start (pHosts p)"
  have r: "r = gResult ?g" "d' = gDb ?g"
    using assms(1-3) c pr by (simp_all add: AutoImport_def Let_def)
  from classify_count [OF c assms(4)] have C: "distinct el0" "set el0 \<subseteq> cAlias ` set (pHosts p)"
    "rImported r1 = 0" "rExisting r1 = length old"
    "mset old + mset (map fst (rSkipped r1)) + mset el0 = mset (map cAlias (pHosts p))"
    by (auto simp: startup_init_def old_def)
  from prune_count [OF pr C(1)] have P: "distinct el" "set el \<subseteq> set el0"
    "mset el + mset (map fst sk) = mset el0 + mset (map fst (rSkipped r1))" by auto
  have el: "set el \<subseteq> cAlias ` set (pHosts p)" using P(2) C(2) by blast
  have "tallied d (mset (map fst sk)) [] ?start" using assms(5) C(3) by (simp add: tallied_def)
  from import_groups_tallied [OF assms(4) el edges_eligible _ _ this refl, of os fs pk up q ids "pHosts p"]
  have G: "distinct (gVisited ?g)" "set (gVisited ?g) \<subseteq> set el" "set el \<inter> cAlias ` set (pHosts p) \<subseteq> set (gVisited ?g)"
    "rExisting (gResult ?g) = rExisting r1" "\<exists>imp'. tallied d (mset (map fst sk)) imp' ?g" by simp_all
  then obtain imp where t: "tallied d (mset (map fst sk)) imp ?g" by blast
  have "set (gVisited ?g) = set el" using G el by auto
  then have v: "mset (gVisited ?g) = mset el"
    using G P(1) by (intro set_eq_iff_mset_eq_distinct [THEN iffD1]) auto
  have "mset (map cAlias (pHosts p)) = mset old + (mset el + mset (map fst sk))"
    unfolding C(5) [symmetric] P(3) by (simp only: ac_simps)
  also have "\<dots> = mset imp + mset old + mset (map fst (rSkipped r))"
    using t by (simp add: tallied_def v r ac_simps)
  finally show ?thesis using t G C(4) r by (intro exI [of _ imp]) (simp add: tallied_def)
qed

text \<open>The import changes the database through transactions only.\<close>

lemma AutoImport_transactions:
  assumes "AutoImport os fs pk ul up q ids path d = (r, d')"
  shows "\<exists>us. d' = updates up us d \<and>
    (\<forall>fn \<in> snd ` set us. \<exists>p sel k. config_Read os fs ul path = Inr p \<and> fn = ApplySelected os fs pk (ids k) p sel)"
proof -
  have "\<exists>us. gDb (foldl (import_group (commit_group os fs pk up q ids p) el es) g cs) = updates up us (gDb g)
    \<and> (\<forall>fn \<in> snd ` set us. \<exists>sel k. fn = ApplySelected os fs pk (ids k) p sel)" for p el es g cs
  proof (induction cs arbitrary: g)
    case Nil
    show ?case by (intro exI [of _ "[]"]) (simp add: updates_def)
  next
    case (Cons c cs)
    let ?g1 = "import_group (commit_group os fs pk up q ids p) el es g c"
    have "gDb ?g1 = gDb g \<or> (\<exists>sel. gDb ?g1 = snd (Update up (q (Suc (gCount g))) (ApplySelected os fs pk (ids (gCount g)) p sel) (gDb g)))"
      by (auto simp: import_group_def commit_group_def split: prod.split sum.split)
        (metis snd_conv)+
    moreover obtain us where us: "gDb (foldl (import_group (commit_group os fs pk up q ids p) el es) ?g1 cs)
        = updates up us (gDb ?g1)"
      "\<forall>fn \<in> snd ` set us. \<exists>sel k. fn = ApplySelected os fs pk (ids k) p sel"
      using Cons.IH by blast
    ultimately show ?case
    proof (elim disjE exE)
      fix sel
      assume "gDb ?g1 = snd (Update up (q (Suc (gCount g))) (ApplySelected os fs pk (ids (gCount g)) p sel) (gDb g))"
      with us show ?thesis
        by (intro exI [of _ "(q (Suc (gCount g)), ApplySelected os fs pk (ids (gCount g)) p sel) # us"])
          (auto simp: updates_def)
    next
      assume "gDb ?g1 = gDb g"
      with us show ?thesis by (intro exI [of _ us]) simp
    qed
  qed
  note groups = this
  have none: "d' = d \<Longrightarrow> ?thesis" by (intro exI [of _ "[]"]) (simp add: updates_def)
  show ?thesis
  proof (cases "config_Read os fs ul path")
    case (Inl e)
    with assms none show ?thesis by (auto simp: AutoImport_def Let_def split: if_splits)
  next
    case read: (Inr p)
    show ?thesis
    proof (cases "Snapshot (q 0) d")
      case (Inl e)
      with read assms none show ?thesis by (auto simp: AutoImport_def)
    next
      case (Inr s)
      with read assms obtain el es g where
        "d' = gDb (foldl (import_group (commit_group os fs pk up q ids p) el es) g (pHosts p))" "gDb g = d"
        by (auto simp: AutoImport_def Let_def split: prod.splits)
      with groups [of p el es g "pHosts p"] read show ?thesis by fastforce
    qed
  qed
qed

end
