(* ===== verification/Store_Correct.thy ===== *)
theory Store_Correct
  imports PlatformKey "HOL-Library.Code_Target_Nat"
begin

text \<open>
  What the data model, the store and the key files promise: jump chains, validation, transactions,
  history, migrations and canonical paths, each with a concrete configuration that exercises it.
\<close>

section \<open>A sample configuration\<close>

definition sample_key :: key where
  "sample_key = \<lparr>kID = ''k'', kName = ''team key'', kPath = ''/home/u/.ssh/id''\<rparr>"

definition sample_bastion :: host where
  "sample_bastion = \<lparr>hID = ''b'', hName = ''bastion'', hEnvironment = ''DEV'', hType = ''Bastion'',
     hAddress = ''192.0.2.1'', hPort = 22, hUsername = ''ops'', hKeyID = ''k'', hJumpID = [],
     hDescription = [], hFingerprint = []\<rparr>"

definition sample_server :: host where
  "sample_server = \<lparr>hID = ''s'', hName = ''app'', hEnvironment = ''DEV'', hType = ''Server'',
     hAddress = ''app.internal'', hPort = 22, hUsername = ''ops'', hKeyID = ''k'', hJumpID = ''b'',
     hDescription = [], hFingerprint = []\<rparr>"

definition sample_tunnel :: tunnel where
  "sample_tunnel = \<lparr>tID = ''t'', tName = ''db'', tLocalHost = ''127.0.0.1'', tLocalPort = 15432,
     tRemoteHost = ''db.internal'', tRemotePort = 5432, tHostID = ''s'', tAutoReconnect = True,
     tDescription = []\<rparr>"

definition sample_state :: state where
  "sample_state = empty_state\<lparr>Hosts := [sample_bastion, sample_server], Keys := [sample_key],
     Tunnels := [sample_tunnel]\<rparr>"

definition sample_db :: db where
  "sample_db = fresh_db\<lparr>dbVersion := 2, dHosts := [(''b'', sample_bastion), (''s'', sample_server)],
     dKeys := [(''k'', sample_key)], dTunnels := [(''t'', sample_tunnel)],
     dSettings := [(''global'', empty_settings)]\<rparr>"

lemmas sample_defs = sample_key_def sample_bastion_def sample_server_def sample_tunnel_def
  sample_state_def sample_db_def empty_state_def empty_settings_def fresh_db_def

lemma load_sample: "load sample_db = sample_state"
  by (simp add: load_def sample_defs sort_history_def)

lemma to_valid_ascii: "ascii s \<Longrightarrow> to_valid s = s"
  by (simp add: to_valid_id utf8_valid_ascii)

text \<open>Evaluation of validation and encoding on concrete ASCII strings.\<close>

lemmas eval_simps = to_valid_ascii rune_chunks_of_ascii runes_of_ascii TrimSpace_def IsSpace_def Name_def Env_def
  Port_def Address_def ParseIP_def parse_ipv4_def host_char_def Let_def ContainsAny_def
  ValidateHost_def ValidateTunnel_def State_Host_def State_Key_def State_Tunnel_def Chain_def
  chain_loop.simps

lemma sample_valid: "Validate (\<lambda>_. None) sample_state = Inr ()"
  by (simp add: Validate_def validate_host_in_def sample_defs eval_simps)

lemma sample_keyless: "Validate (\<lambda>_. None) (sample_state\<lparr>Keys := []\<rparr>) = Inl (ModelErr KeyNotFound)"
  by (simp add: Validate_def validate_host_in_def sample_defs eval_simps)

lemma sample_snapshot: "Snapshot (\<lambda>_. True) sample_db = Inr sample_state"
  by (simp add: Snapshot_def read_order_def load_sample)

lemma sample_utf8: "utf8_clean sample_state"
  by (simp add: utf8_clean_def json_state_def json_host_def json_key_def json_tunnel_def
      json_settings_def sample_defs to_valid_ascii)

section \<open>Jump chains\<close>

text \<open>C3. \<open>Chain\<close> returns exactly the route of jump hosts to a host, in connection order, when it
  has at most 16 hops; a missing host, a cycle and a longer route are errors.\<close>

theorem Chain_is_bounded_route: "Chain s i = Inr hs \<longleftrightarrow> route s i hs \<and> length hs \<le> 16"
  by (rule Chain_iff_route)

text \<open>The loop of \<open>Chain\<close> with its rounds counted: \<open>None\<close> when it needs more.\<close>

fun chain_rounds :: "nat \<Rightarrow> state \<Rightarrow> string \<Rightarrow> string list \<Rightarrow> host list \<Rightarrow> host list res option" where
  "chain_rounds 0 s i seen out = None"
| "chain_rounds (Suc n) s i seen out =
     (if i = [] then Some (Inr out)
      else if i \<in> set seen \<or> 16 \<le> length out then Some (Inl (ModelErr JumpLoop))
      else (case State_Host s i of
          Inl e \<Rightarrow> Some (Inl e)
        | Inr h \<Rightarrow> chain_rounds n s (hJumpID h) (i # seen) (h # out)))"

lemma chain_rounds_enough:
  "length out \<le> 16 \<Longrightarrow> 16 - length out < n \<Longrightarrow> chain_rounds n s i seen out = Some (chain_loop s i seen out)"
proof (induction n s i seen out rule: chain_rounds.induct)
  case (2 n s i seen out)
  then show ?case by (subst chain_loop.simps) (auto split: sum.splits)
qed simp

text \<open>C35. Following jump hosts always ends: whatever the hosts are, jump hosts in a circle included,
  the loop of \<open>Chain\<close> returns after at most 17 rounds, with the value of \<open>Chain\<close>.\<close>

theorem Chain_terminates: "chain_rounds 17 s i [] [] = Some (Chain s i)"
  using chain_rounds_enough [of "[]" 17] by (simp add: Chain_def)

text \<open>A chain ends at the host asked for, visits no host twice, starts at a host without a
  jump host, and every later host names its predecessor as its jump host.\<close>

theorem Chain_connects:
  assumes "Chain s i = Inr hs" "i \<noteq> []"
  shows "hs \<noteq> [] \<and> hID (last hs) = i \<and> distinct (map hID hs) \<and> hJumpID (hd hs) = []
    \<and> (\<forall>k. Suc k < length hs \<longrightarrow> hJumpID (hs ! Suc k) = hID (hs ! k)) \<and> set hs \<subseteq> set (Hosts s)"
proof -
  have "linked p hs \<Longrightarrow> hs \<noteq> [] \<Longrightarrow> hJumpID (hd hs) = p" for p hs
    by (cases hs) auto
  moreover have "linked p hs \<Longrightarrow> Suc k < length hs \<Longrightarrow> hJumpID (hs ! Suc k) = hID (hs ! k)" for p hs k
  proof (induction hs arbitrary: p k)
    case (Cons h hs)
    then show ?case by (cases k; cases hs) auto
  qed simp
  ultimately show ?thesis
    using Chain_last [OF assms] Chain_linked [OF assms(1)] Chain_hosts [OF assms(1)]
      route_distinct [of s i hs] assms(1)
    by (auto simp: Chain_iff_route)
qed

theorem Chain_connects_witness:
  "distinct (map hID [sample_bastion, sample_server]) \<and> hJumpID (hd [sample_bastion, sample_server]) = []"
proof -
  have "Chain sample_state ''s'' = Inr [sample_bastion, sample_server]"
    by (simp add: eval_simps sample_defs)
  from Chain_connects [OF this] show ?thesis by (simp add: sample_defs)
qed

section \<open>Validation\<close>

text \<open>C6. The validation of a whole state accepts exactly the well-formed ones, which are specified
  without any of its checks: every host has admissible fields, a name of its own, an existing key and
  a finite jump chain; every tunnel goes from a port of 127.0.0.1 to an admissible address over an
  existing host; every service has a plain web address on the loopback port of an existing tunnel.\<close>

theorem Validate_accepts: "Validate up s = Inr () \<longleftrightarrow> well_formed up s"
  by (rule Validate_iff)

text \<open>An address that passes validation is non-empty, at most 253 bytes, and made of letters,
  digits and the characters \<open>. - _ :\<close>, so it cannot inject into a command or a file.\<close>

theorem Address_is_safe:
  "Address a \<Longrightarrow> a \<noteq> [] \<and> length a \<le> 253 \<and> list_all addr_char a"
  by (rule Address_chars)

theorem Address_is_safe_witness:
  "Address ''10.20.0.7'' \<and> list_all addr_char ''10.20.0.7''"
proof -
  have "Address ''10.20.0.7''" by (simp add: eval_simps)
  with Address_is_safe [OF this] show ?thesis by blast
qed

section \<open>Transactions\<close>

text \<open>C1. \<open>Update\<close> is atomic: on an error the database is untouched; on success the changed state
  passed validation and every table holds it, as JSON stores it, while history and local values
  are as before.\<close>

theorem Update_atomic:
  assumes "Update up q fn d = (r, d')"
  shows "case r of
      Inl e \<Rightarrow> d' = d
    | Inr _ \<Rightarrow> \<exists>s. fn (load d) = Inr s \<and> well_formed up s \<and>
        load d' = (json_state s)\<lparr>History := History (load d)\<rparr> \<and> dLocal d' = dLocal d"
proof (cases r)
  case (Inl e)
  with assms Update_Inl show ?thesis by auto
next
  case (Inr u)
  with assms Update_Inr obtain s where "fn (load d) = Inr s" "well_formed up s" "write_state q s d = Inr d'"
    by blast
  with write_state_Inr(1,2) [OF this(3)] Inr show ?thesis by auto
qed

theorem Update_atomic_witness:
  "snd (Update (\<lambda>_. None) (\<lambda>_. True) (\<lambda>s. Inr (s\<lparr>Keys := []\<rparr>)) sample_db) = sample_db"
proof -
  have e: "fst (Update (\<lambda>_. None) (\<lambda>_. True) (\<lambda>s. Inr (s\<lparr>Keys := []\<rparr>)) sample_db) = Inl (ModelErr KeyNotFound)"
    by (simp add: Update_def sample_snapshot sample_keyless)
  show ?thesis
    using Update_atomic [OF surjective_pairing, of "\<lambda>_. None" "\<lambda>_. True" "\<lambda>s. Inr (s\<lparr>Keys := []\<rparr>)" sample_db]
    by (simp add: e)
qed

text \<open>A change that keeps strings valid UTF-8, as every change made from decoded JSON does.\<close>

definition keeps_text :: "(state \<Rightarrow> state res) \<Rightarrow> bool" where
  "keeps_text fn \<longleftrightarrow> (\<forall>s s'. utf8_clean s \<longrightarrow> fn s = Inr s' \<longrightarrow> utf8_clean s')"



text \<open>The condition on strings is needed: names are compared before encoding replaces invalid bytes,
  so two different names, as an import can take them from a configuration file, become the same
  stored name, and the stored configuration is refused by every later update.\<close>

definition colliding :: "state \<Rightarrow> state res" where
  "colliding s = Inr (s\<lparr>Hosts := [sample_bastion\<lparr>hName := [CHR 0xFE]\<rparr>, sample_server\<lparr>hName := [CHR 0xFF]\<rparr>]\<rparr>)"

lemma invalid_names_collide:
  "fst (Update (\<lambda>_. None) (\<lambda>_. True) colliding sample_db) = Inr ()
    \<and> (let d = snd (Update (\<lambda>_. None) (\<lambda>_. True) colliding sample_db)
       in Update (\<lambda>_. None) (\<lambda>_. True) Inr d = (Inl (DbErr DuplicateHost), d))"
proof -
  have "fst (Update (\<lambda>_. None) (\<lambda>_. True) colliding sample_db) = Inr ()" by code_simp
  moreover have "fst (Update (\<lambda>_. None) (\<lambda>_. True) Inr (snd (Update (\<lambda>_. None) (\<lambda>_. True) colliding sample_db)))
      = Inl (DbErr DuplicateHost)" by code_simp
  ultimately show ?thesis
    using Update_Inl by (metis prod.collapse)
qed

text \<open>A host survives a round trip through its JSON column unchanged exactly if its strings
  are valid UTF-8.\<close>

theorem host_column_roundtrip: "json_host h = h \<longleftrightarrow> utf8_host h"
  by (rule json_host_id)

section \<open>History, local values, migrations\<close>

text \<open>However many connections are recorded, the history keeps exactly the newest 200 of the
  old and new rows, oldest first.\<close>

theorem Record_keeps_newest:
  assumes "\<And>st. q st" "length (dHistory d) \<le> history_limit"
  shows "dHistory (fold (\<lambda>(i, at, h, kind, err). Record q i at h kind err) as d) =
    (let rows = dHistory d @
         map (\<lambda>(i, at, h, kind, err). (i, json_history (history_entry i at h kind err))) as
     in drop (length rows - history_limit) rows)"
  using assms by (rule Record_fold)

theorem Record_keeps_newest_witness:
  "dHistory (fold (\<lambda>(i, at, h, kind, err). Record (\<lambda>_. True) i at h kind err)
      [(''h1'', ''2026-01-01T00:00:00Z'', sample_server, ''connect'', None)] sample_db) =
    [(''h1'', json_history (history_entry ''h1'' ''2026-01-01T00:00:00Z'' sample_server ''connect'' None))]"
  by (subst Record_keeps_newest) (simp_all add: sample_db_def fresh_db_def history_limit_def)

text \<open>A snapshot lists the connection history by descending time stamp, every row once.\<close>

theorem history_listed_newest_first:
  "sorted_wrt (\<lambda>a b. yAt b \<le> yAt a) (History (load d)) \<and>
   mset (History (load d)) = mset (map snd (dHistory d))"
  by (simp add: load_def sort_history_sorted sort_history_mset)

text \<open>A local value, once read or created, is returned unchanged by every later call, and no
  other value changes with it.\<close>

theorem LocalValue_is_stable:
  assumes "LocalValue q i c d = (Inr v, d')" "q (LocalSelect i)"
  shows "LocalValue q i c' d' = (Inr v, d') \<and> load d' = load d
    \<and> (\<forall>j. j \<noteq> i \<longrightarrow> map_of (dLocal d') j = map_of (dLocal d) j)"
  using LocalValue_stable [OF assms] LocalValue_frame [OF assms(1)] by blast

theorem LocalValue_is_stable_witness:
  "LocalValue (\<lambda>_. True) ''instance'' None
     (snd (LocalValue (\<lambda>_. True) ''instance'' (Some (Inr ''seed'')) fresh_db)) =
   (Inr ''seed'', snd (LocalValue (\<lambda>_. True) ''instance'' (Some (Inr ''seed'')) fresh_db))"
proof -
  have "LocalValue (\<lambda>_. True) ''instance'' (Some (Inr ''seed'')) fresh_db =
      (Inr ''seed'', fresh_db\<lparr>dLocal := [(''instance'', ''seed'')]\<rparr>)"
    by (simp add: LocalValue_def fresh_db_def)
  from LocalValue_is_stable [OF this, of None] this show ?thesis by simp
qed

text \<open>Opening migrates a database to version 2 with one settings row, keeps every record it
  had, and opening it again changes nothing.\<close>

theorem Open_migrates_once:
  assumes "Open q g d = Inr d'" "0 \<le> dbVersion d" "q Pragma" "q CountSettings"
  shows "dbVersion d' = 2 \<and> dSettings d' \<noteq> [] \<and> dHosts d' = dHosts d \<and> dKeys d' = dKeys d
    \<and> dTunnels d' = dTunnels d \<and> dServices d' = dServices d \<and> dTeam d' = dTeam d
    \<and> dHistory d' = dHistory d \<and> dLocal d' = dLocal d \<and> Open q g' d' = Inr d'"
  using Open_Inr [OF assms(1,2)] Open_settled [of d' q g'] assms(3,4) by simp

theorem Open_migrates_once_witness:
  "Open (\<lambda>_. True) empty_settings
     (fresh_db\<lparr>dbVersion := 2, dbTables := migration_001 @ migration_002,
        dSettings := [(''global'', json_settings empty_settings)]\<rparr>) =
   Inr (fresh_db\<lparr>dbVersion := 2, dbTables := migration_001 @ migration_002,
        dSettings := [(''global'', json_settings empty_settings)]\<rparr>)"
proof -
  have "Open (\<lambda>_. True) empty_settings fresh_db =
      Inr (fresh_db\<lparr>dbVersion := 2, dbTables := migration_001 @ migration_002,
        dSettings := [(''global'', json_settings empty_settings)]\<rparr>)"
    by (simp add: Open_def migrate_def migration_001_def migration_002_def fresh_db_def)
  from Open_migrates_once [OF this] show ?thesis by (simp add: fresh_db_def)
qed

section \<open>Slices of records\<close>

text \<open>Saving a record under an existing identifier changes the lookup of that identifier and of
  no other one, keeps the number and the order of the records, and fails for an unknown one.\<close>

theorem Replace_changes_one:
  assumes "i \<noteq> []" "f v = i"
  shows "case Replace xs i v f of
      Inl e \<Rightarrow> i \<notin> f ` set xs \<and> e = DbErr (NoRecord i)
    | Inr ys \<Rightarrow> i \<in> f ` set xs \<and> map f ys = map f xs
        \<and> (\<forall>j. find_id f j ys = (if j = i then Some v else find_id f j xs))"
proof (cases "Replace xs i v f")
  case (Inl e)
  with assms(1) show ?thesis
    using replace_first_None [of f i v xs] by (auto simp: Replace_def split: option.splits)
next
  case (Inr ys)
  then obtain a x b where "xs = a @ x # b" "f x = i" "ys = a @ v # b"
    using assms(1) by (auto simp: Replace_Inr)
  with Inr find_id_Replace [OF Inr assms(2,1)] assms(2) show ?thesis by auto
qed

theorem Replace_changes_one_witness:
  "(case Replace [sample_bastion, sample_server] ''s'' (sample_server\<lparr>hPort := 2222\<rparr>) hID of
      Inl e \<Rightarrow> False
    | Inr ys \<Rightarrow> map hID ys = [''b'', ''s''])"
  using Replace_changes_one [of "''s''" hID "sample_server\<lparr>hPort := 2222\<rparr>" "[sample_bastion, sample_server]"]
  by (auto simp: sample_defs split: sum.splits)

text \<open>Deleting removes the first record with the identifier and nothing else; with unique
  identifiers the record is gone.\<close>

theorem Delete_removes_one:
  assumes "distinct (map f xs)"
  shows "Delete xs i f = (if i \<in> f ` set xs then Inr (filter (\<lambda>x. f x \<noteq> i) xs) else Inl (DbErr NoRecordToDelete))"
proof (cases "i \<in> f ` set xs")
  case False
  then have "delete_first f i xs = None" by (simp add: delete_first_None)
  with False show ?thesis by (simp add: Delete_def)
next
  case True
  then obtain a x b where xs: "xs = a @ x # b" "f x = i"
    by (metis imageE split_list)
  with assms have "i \<notin> f ` set a" "i \<notin> f ` set b" by auto
  with xs have "filter (\<lambda>x. f x \<noteq> i) a = a" "filter (\<lambda>x. f x \<noteq> i) b = b"
    by (metis (mono_tags, lifting) filter_True imageI)+
  moreover have "delete_first f i xs = Some (a @ b)"
    using xs \<open>i \<notin> f ` set a\<close> by (simp add: delete_first_append)
  ultimately show ?thesis using True xs by (simp add: Delete_def)
qed

theorem Delete_removes_one_witness:
  "Delete [sample_bastion, sample_server] ''b'' hID = Inr [sample_server]"
  by (subst Delete_removes_one) (simp_all add: sample_defs)

section \<open>Paths and keys\<close>

text \<open>A path the program accepts on a Unix system is absolute, canonical and free of NUL and
  line breaks, so that it can be compared and written to an SSH configuration.\<close>

theorem Path_is_canonical:
  assumes "Path (unix_os home) raw = Inr p"
    and "\<And>h. home = Some h \<Longrightarrow> \<not> ContainsAny h [CHR 0x00, CHR 0x0D, CHR 0x0A]"
  shows "unix_IsAbs p \<and> unix_Clean p = p \<and> \<not> ContainsAny p [CHR 0x00, CHR 0x0D, CHR 0x0A]"
  using unix_Path_canonical [OF assms(1)] unix_Path_chars [OF assms] by blast

theorem Path_is_canonical_witness:
  "unix_Clean ''/home/u/.ssh/id'' = ''/home/u/.ssh/id''"
proof -
  have "Path (unix_os (Some ''/home/u'')) ''~/.ssh/id'' = Inr ''/home/u/.ssh/id''" by code_simp
  from Path_is_canonical [OF this] show ?thesis by (simp add: ContainsAny_def)
qed

text \<open>A key is accepted exactly if its path is, the file is a readable regular file of at most
  1 MiB, and its content parses as a private key without a passphrase.\<close>

theorem key_Validate_exact:
  "key_Validate os fs pk path = Inr () \<longleftrightarrow>
     (\<exists>p f s. Path os path = Inr p \<and> fs p = Some f \<and> fRegular f \<and> fSize f \<le> 1024 * 1024 \<and> fReadOk f
        \<and> pk (take (1024 * 1024 + 1) (fContent f)) = ParsedKey s)"
proof -
  have "key_Read os fs path = Inr b \<longleftrightarrow> (\<exists>p f. Path os path = Inr p \<and> fs p = Some f \<and> fRegular f
      \<and> fSize f \<le> 1024 * 1024 \<and> fReadOk f \<and> b = take (1024 * 1024 + 1) (fContent f))" for b
  proof (cases "Path os path")
    case (Inr p)
    then show ?thesis by (cases "fs p") (auto simp: key_Read_def res_simps)
  qed (simp add: key_Read_def)
  then show ?thesis by (auto simp: key_Validate_ok)
qed

end
