(* ===== verification/Config_Correct.thy ===== *)
theory Config_Correct
  imports SshImport Store_Correct
begin

text \<open>
  What the reader and importer of OpenSSH configurations promise: tokens, first value wins, what
  a valid candidate is, and what an import adds to the state and to the database.
\<close>

section \<open>A sample configuration file\<close>

definition sample_config :: string where
  "sample_config = ''Host hop'' @ [CHR 0x0A] @ ''  HostName 192.0.2.7'' @ [CHR 0x0A]
     @ ''Host web'' @ [CHR 0x0A] @ ''  ProxyJump hop'' @ [CHR 0x0A]
     @ ''Host *'' @ [CHR 0x0A] @ ''  User ops'' @ [CHR 0x0A] @ ''  IdentityFile ~/id'' @ [CHR 0x0A]"

definition sample_hop :: candidate where
  "sample_hop = \<lparr>cAlias = ''hop'', cAddress = ''192.0.2.7'', cPort = 22, cUsername = ''ops'',
     cIdentityFile = ''~/id'', cJumps = [], cWarnings = [], cValid = True\<rparr>"

definition sample_web :: candidate where
  "sample_web = \<lparr>cAlias = ''web'', cAddress = ''web'', cPort = 22, cUsername = ''ops'',
     cIdentityFile = ''~/id'', cJumps = [''hop''], cWarnings = [], cValid = True\<rparr>"

definition sample_preview :: preview where
  "sample_preview = \<lparr>pHosts = [sample_hop, sample_web], pWarnings = []\<rparr>"

definition sample_os :: os where
  "sample_os = unix_os (Some ''/home/u'')"

definition sample_fs :: fs where
  "sample_fs p =
     (if p = ''/home/u/id'' then Some \<lparr>fRegular = True, fSize = 3, fContent = ''key'', fReadOk = True\<rparr>
      else if p = ''/config'' then
        Some \<lparr>fRegular = True, fSize = 99, fContent = sample_config, fReadOk = True\<rparr>
      else None)"

definition sample_parser :: "string \<Rightarrow> unit key_parse" where
  "sample_parser b = (if b = ''key'' then ParsedKey () else NotAKey)"

definition sample_ids :: "nat \<Rightarrow> string" where
  "sample_ids n = ''id'' @ Itoa (int n)"

definition imported :: "state res" where
  "imported = ApplySelected sample_os sample_fs sample_parser sample_ids sample_preview
     [''hop'', ''web''] sample_state"

lemma sample_parsed: "Parse id sample_config = Inr sample_preview"
  by code_simp

lemma imported_ok: "ok imported"
  by code_simp

section \<open>Parsing\<close>

text \<open>A line of plain words separated by blanks is read back as those words, and a quoted word
  is one token whatever else it contains.\<close>

theorem tokens_roundtrip:
  assumes "\<forall>w \<in> set ws. plain_word w" "v \<noteq> []" "utf8_valid v" "34 \<notin> set (runes v)"
  shows "tokens (Join '' '' ws) = Some ws \<and> tokens (CHR 0x22 # v @ [CHR 0x22]) = Some [v]"
  using tokens_join [OF assms(1), of "[]"] tokens_quoted [OF assms(2-4)] by (simp add: tokens_def)

theorem tokens_roundtrip_witness:
  "tokens (Join '' '' [''Host'', ''app'']) = Some [''Host'', ''app''] \<and>
   tokens (CHR 0x22 # ''/my key'' @ [CHR 0x22]) = Some [''/my key'']"
  by (rule tokens_roundtrip) (simp_all add: plain_word_def utf8_valid_ascii runes_of_ascii)

text \<open>The value of a keyword for an alias is that of the first directive whose patterns match
  the alias; later ones are ignored.\<close>

theorem first_value_wins:
  "values_for ul ds alias k =
     map_option (\<lambda>d. Join '' '' (dValues d))
       (find (\<lambda>d. dKey d = k \<and> matches ul (dPatterns d) alias) ds)"
  by (rule values_for_first)

text \<open>An alias matches a list of patterns exactly if one of them matches it and no negated one
  does, wherever the negated one stands.\<close>

theorem matches_negation:
  "matches ul ps alias \<longleftrightarrow>
     (\<exists>p \<in> set ps. path_Match (ToLower ul (TrimPrefix p ''!'')) (ToLower ul alias) = Some True)
     \<and> \<not> (\<exists>p \<in> set ps. HasPrefix p ''!''
           \<and> path_Match (ToLower ul (TrimPrefix p ''!'')) (ToLower ul alias) = Some True)"
  by (simp add: matches_def matches_loop_iff)

text \<open>A candidate marked valid has a user and an identity file, no percent token in its file or
  address, hops that are plain aliases, none of the keywords the program cannot honour, a port in
  range, and comes from a file without \<open>Match\<close> blocks.\<close>

theorem valid_candidate_is_supported:
  assumes "Parse ul input = Inr p" "c \<in> set (pHosts p)" "cValid c"
  shows "cUsername c \<noteq> [] \<and> cIdentityFile c \<noteq> [] \<and> \<not> Contains (cIdentityFile c) ''%''
    \<and> \<not> Contains (cAddress c) ''%'' \<and> (\<forall>h \<in> set (cJumps c). \<not> bad_hop h)
    \<and> 1 \<le> cPort c \<and> cPort c \<le> 65535 \<and> MatchSkipped \<notin> set (pWarnings p)"
proof -
  from assms obtain st a where c: "c = make_candidate ul st a" "pWarnings p = psWarnings st"
    by (auto simp: Parse_Inr)
  with assms(3) have "cValid (make_candidate ul st a)" by simp
  note v = make_candidate_valid [OF this]
  show ?thesis
    using v make_candidate_simps(4) [of ul st a] unfolding c by blast
qed

theorem valid_candidate_is_supported_witness:
  "cUsername sample_web \<noteq> [] \<and> \<not> bad_hop ''hop'' \<and> cPort sample_web \<le> 65535"
  using valid_candidate_is_supported [OF sample_parsed, of sample_web]
  by (simp add: sample_preview_def sample_web_def)

text \<open>C21. The candidates of a file have distinct, non-empty aliases without wildcards.\<close>

theorem aliases_are_literal_and_distinct:
  assumes "Parse ul input = Inr p"
  shows "distinct (map cAlias (pHosts p)) \<and>
    (\<forall>c \<in> set (pHosts p). cAlias c \<noteq> [] \<and> \<not> ContainsAny (cAlias c) ''*?![]'')"
  using assms parse_directives_aliases [of ul input]
  by (auto simp: Parse_Inr make_candidate_simps o_def)

theorem aliases_are_literal_and_distinct_witness:
  "distinct (map cAlias (pHosts sample_preview))"
  using aliases_are_literal_and_distinct [OF sample_parsed] by blast

section \<open>Importing\<close>

text \<open>C19. An import keeps every host, key, tunnel, service and setting there is: it appends to hosts
  and keys, and changes nothing else; the new hosts are the selected candidates in file order, with
  the candidate's name, address, port and user and an existing key.\<close>

theorem import_only_adds:
  assumes "ApplySelected os fs pk ids p sel s = Inr s'"
  shows "take (length (Hosts s)) (Hosts s') = Hosts s \<and> (\<exists>ks. Keys s' = Keys s @ ks)
    \<and> Tunnels s' = Tunnels s \<and> Services s' = Services s \<and> Settings s' = Settings s \<and> Team s' = Team s
    \<and> list_all2 (\<lambda>c h. hName h = cAlias c \<and> hAddress h = cAddress c \<and> hPort h = cPort c
          \<and> hUsername h = cUsername c \<and> hKeyID h \<in> kID ` set (Keys s'))
        (filter (\<lambda>c. cAlias c \<in> set sel) (pHosts p)) (drop (length (Hosts s)) (Hosts s'))"
proof -
  note A = ApplySelected_adds [OF assms]
  have r: "s'\<lparr>Hosts := [], Keys := []\<rparr> = s\<lparr>Hosts := [], Keys := []\<rparr>" using A(3) by (simp add: same_rest_def)
  have "list_all2 (\<lambda>c h. hName h = cAlias c \<and> hAddress h = cAddress c \<and> hPort h = cPort c
          \<and> hUsername h = cUsername c \<and> hKeyID h \<in> kID ` set (Keys s'))
        (filter (\<lambda>c. cAlias c \<in> set sel) (pHosts p)) (drop (length (Hosts s)) (Hosts s'))"
  proof (rule list_all2_mono [OF A(4)], elim conjE)
    fix c h
    assume h: "h\<lparr>hJumpID := []\<rparr> = new_host c (hID h) (hKeyID h)" and k: "hKeyID h \<in> kID ` set (Keys s')"
    from arg_cong [OF h, of hName] arg_cong [OF h, of hAddress] arg_cong [OF h, of hPort]
      arg_cong [OF h, of hUsername] k
    show "hName h = cAlias c \<and> hAddress h = cAddress c \<and> hPort h = cPort c
          \<and> hUsername h = cUsername c \<and> hKeyID h \<in> kID ` set (Keys s')"
      by (simp add: new_host_def)
  qed
  with A(1,2) arg_cong [OF r, of Tunnels] arg_cong [OF r, of Services] arg_cong [OF r, of Settings]
    arg_cong [OF r, of Team] show ?thesis by simp
qed

theorem import_only_adds_witness:
  "case imported of Inl _ \<Rightarrow> False | Inr s' \<Rightarrow> take 2 (Hosts s') = [sample_bastion, sample_server]"
  using imported_ok import_only_adds [of sample_os sample_fs sample_parser sample_ids sample_preview
      "[''hop'', ''web'']" sample_state]
  by (cases imported) (auto simp: imported_def sample_state_def numeral_2_eq_2)

text \<open>C7. After an import the hosts realise the \<open>ProxyJump\<close> path of every imported alias: each
  consecutive pair of hops, and the last hop and the alias itself, are linked by the second one's
  jump host.\<close>

theorem import_realises_proxyjump:
  assumes "ApplySelected os fs pk ids p sel s = Inr s'" "distinct (map hID (Hosts s'))"
    "c \<in> set (pHosts p)" "cAlias c \<in> set sel"
    "Suc k < length (cJumps c @ [cAlias c])"
  shows "\<exists>h. State_Host s' (names_of (Hosts s') ((cJumps c @ [cAlias c]) ! Suc k)) = Inr h
    \<and> hJumpID h = names_of (Hosts s') ((cJumps c @ [cAlias c]) ! k) \<and> hJumpID h \<noteq> []"
proof -
  let ?xs = "cJumps c @ [cAlias c]"
  have "(?xs ! k, ?xs ! Suc k) \<in> set (steps ?xs)"
    using assms(5) by (auto simp: steps_def set_zip nth_tl intro!: exI [of _ k])
  from ApplySelected_joined [OF assms(1-4) this] show ?thesis .
qed

theorem import_realises_proxyjump_witness:
  "case imported of Inl _ \<Rightarrow> False
   | Inr s' \<Rightarrow> \<exists>h. State_Host s' (names_of (Hosts s') ''web'') = Inr h
       \<and> hJumpID h = names_of (Hosts s') ''hop'' \<and> hJumpID h \<noteq> []"
proof -
  obtain s' where i: "imported = Inr s'" using imported_ok by (auto simp: ok_iff)
  have "case imported of Inl _ \<Rightarrow> False | Inr s' \<Rightarrow> distinct (map hID (Hosts s'))" by code_simp
  then have d: "distinct (map hID (Hosts s'))" by (simp add: i)
  from import_realises_proxyjump [OF i [unfolded imported_def] d, of sample_web 0] show ?thesis
    by (simp add: i sample_preview_def sample_web_def)
qed

text \<open>C16. The import at startup accounts for every alias of the file exactly once: the aliases of the
  file, all different, are those it imported, those that name a host already and those it skipped
  with a reason. The result counts the first two kinds and lists the third, and the hosts of the
  store are the old ones and one more for each imported alias, under its name (with invalid UTF-8
  replaced, as JSON does). The strings in the store are valid UTF-8, as decoded JSON is.\<close>

theorem startup_accounts_for_all:
  assumes "config_Read os fs ul path = Inr p" "Snapshot (q 0) d = Inr s"
    "AutoImport os fs pk ul up q ids path d = (r, d')" "utf8_clean (load d)"
  defines "old \<equiv> filter (\<lambda>a. a \<in> hName ` set (Hosts s)) (map cAlias (pHosts p))"
  shows "\<exists>imported. mset (map cAlias (pHosts p)) = mset imported + mset old + mset (map fst (rSkipped r))
    \<and> distinct (map cAlias (pHosts p)) \<and> rImported r = length imported \<and> rExisting r = length old
    \<and> mset (map hName (Hosts (load d'))) = mset (map hName (Hosts (load d))) + mset (map to_valid imported)"
proof -
  from assms(1) obtain input where "Parse ul input = Inr p"
    by (auto simp: config_Read_def res_simps split: option.splits)
  note d = Parse_aliases [OF this]
  from AutoImport_tally [OF assms(1-3) d assms(4)] d show ?thesis by (simp add: names_def old_def)
qed

theorem startup_accounts_for_all_witness:
  "(let (r, d) = AutoImport sample_os sample_fs sample_parser id (\<lambda>_. None) (\<lambda>_ _. True)
       (\<lambda>k n. CHR ''g'' # Itoa (int k) @ CHR ''-'' # Itoa (int n)) ''/config'' sample_db
    in rImported r = 2 \<and> rSkipped r = [] \<and> mset (map hName (Hosts (load d))) = {#''bastion'', ''app'', ''hop'', ''web''#})"
proof -
  let ?run = "AutoImport sample_os sample_fs sample_parser id (\<lambda>_. None) (\<lambda>_ _. True)
       (\<lambda>k n. CHR ''g'' # Itoa (int k) @ CHR ''-'' # Itoa (int n)) ''/config'' sample_db"
  have p: "config_Read sample_os sample_fs id ''/config'' = Inr sample_preview" by code_simp
  have clean: "utf8_clean (load sample_db)" using sample_utf8 by (simp add: load_sample)
  have s: "rSkipped (fst ?run) = []" by code_simp
  have old: "filter (\<lambda>a. a \<in> hName ` set (Hosts sample_state)) (map cAlias (pHosts sample_preview)) = []" by code_simp
  have a: "mset (map cAlias (pHosts sample_preview)) = {#''hop'', ''web''#}"
    "mset (map hName (Hosts (load sample_db))) = {#''bastion'', ''app''#}" by code_simp+
  from startup_accounts_for_all [where q = "\<lambda>_ _. True", OF p sample_snapshot surjective_pairing clean, of sample_parser "\<lambda>_. None"
        "\<lambda>k n. CHR ''g'' # Itoa (int k) @ CHR ''-'' # Itoa (int n)"]
  obtain imported where i: "mset imported = {#''hop'', ''web''#}" "rImported (fst ?run) = length imported"
    "mset (map hName (Hosts (load (snd ?run)))) = {#''bastion'', ''app''#} + image_mset to_valid (mset imported)"
    unfolding old s a mset_map [of to_valid] by (metis add.right_neutral list.map(1) mset.simps(1))
  from i(1) have "length imported = 2" by (metis size_mset size_add_mset size_empty numeral_2_eq_2)
  moreover have "to_valid ''hop'' = ''hop''" "to_valid ''web'' = ''web''" by (simp_all add: to_valid_ascii)
  ultimately show ?thesis using i s by (simp add: case_prod_beta)
qed

text \<open>C20. The import at startup never loses or changes a host, a tunnel or a service: whatever
  groups fail, the hosts of the database after it start with the hosts before it.\<close>

theorem startup_keeps_hosts:
  assumes "AutoImport os fs pk ul up q ids path d = (r, d')" "utf8_clean (load d)"
  shows "take (length (Hosts (load d))) (Hosts (load d')) = Hosts (load d)
    \<and> Tunnels (load d') = Tunnels (load d) \<and> Services (load d') = Services (load d)"
proof -
  let ?P = "\<lambda>s. take (length (Hosts (load d))) (Hosts s) = Hosts (load d)
    \<and> Tunnels s = Tunnels (load d) \<and> Services s = Services (load d)"
  from AutoImport_transactions [OF assms(1)] obtain us where d': "d' = updates up us d"
    and us: "\<forall>fn \<in> snd ` set us. \<exists>p sel k. config_Read os fs ul path = Inr p \<and> fn = ApplySelected os fs pk (ids k) p sel"
    by blast
  have clean: "map json_host (Hosts (load d)) = Hosts (load d)"
    "map json_tunnel (Tunnels (load d)) = Tunnels (load d)"
    "map json_service (Services (load d)) = Services (load d)"
    using assms(2) unfolding utf8_clean_def by (metis json_state_simps)+
  have "?P (config (load (updates up us d)))"
  proof (rule updates_invariant [where P = ?P])
    show "?P (config (load d))" by (simp add: config_def)
    fix q' fn e s
    assume f: "(q', fn) \<in> set us" and P: "?P (config (load e))" and s: "fn (load e) = Inr s"
    from f have "fn \<in> snd ` set us" by force
    with us obtain p sel k where "fn = ApplySelected os fs pk (ids k) p sel" by blast
    with s have a: "ApplySelected os fs pk (ids k) p sel (load e) = Inr s" by simp
    note A = ApplySelected_adds(1,3) [OF a]
    have r: "s\<lparr>Hosts := [], Keys := []\<rparr> = load e\<lparr>Hosts := [], Keys := []\<rparr>" using A(2) by (simp add: same_rest_def)
    have "take (length (Hosts (load d))) (Hosts s) = take (length (Hosts (load d))) (take (length (Hosts (load e))) (Hosts s))"
      using P by (simp add: config_def min_def) (metis length_take min.absorb_iff2)
    with A(1) P have "take (length (Hosts (load d))) (Hosts s) = Hosts (load d)" by (simp add: config_def)
    with arg_cong [OF r, of Tunnels] arg_cong [OF r, of Services] P clean
    show "?P (config (json_state s))" by (simp add: config_def take_map)
  qed
  then show ?thesis by (simp add: d' config_def)
qed

theorem startup_keeps_hosts_witness:
  "take 2 (Hosts (load (snd (AutoImport sample_os sample_fs sample_parser id (\<lambda>_. None) (\<lambda>_ _. True)
     (\<lambda>k n. CHR ''g'' # Itoa (int k) @ CHR ''-'' # Itoa (int n)) ''/config'' sample_db)))) =
   [sample_bastion, sample_server]"
proof -
  have "utf8_clean (load sample_db)" using sample_utf8 by (simp add: load_sample)
  from startup_keeps_hosts [OF surjective_pairing this, of sample_os sample_fs sample_parser id "\<lambda>_. None"
      "\<lambda>_ _. True" "\<lambda>k n. CHR ''g'' # Itoa (int k) @ CHR ''-'' # Itoa (int n)" "''/config''"]
  show ?thesis by (simp add: load_sample sample_state_def numeral_2_eq_2)
qed

end
