(* ===== verification/Tunnel.thy ===== *)
theory Tunnel
  imports PlatformKey
begin

text \<open>
  internal/tunnel/manager.go: the manager of port-forwarding tunnels. Entries live in a heap
  (\<open>sHeap\<close>, indexed by address) because goroutines keep pointing at an entry that the map
  \<open>sEntries\<close> no longer holds. A goroutine is a \<open>thread\<close>: a program point with its local variables.
  Every section of code between two lock operations or blocking calls is one function of the shared
  state, and \<open>step\<close> interleaves them; the answers of the operating system and of the SSH
  connector (listening, connecting, dialling, keep-alives, time) come with the event.
\<close>

section \<open>Data\<close>

datatype tun_state = Connecting | Running | Reconnecting | Stopped | Failed

datatype message = NoMessage | BindMessage err | ConnMessage err | RemoteMessage err | ProbeMessage err

record status =
  State :: tun_state
  LastError :: message
  StartedAt :: string
  Connections :: int

text \<open>None stands for nil; \<open>eCancel\<close> is Some True once the context is cancelled, \<open>eListener\<close>
  Some True while the listener is open, \<open>eDone\<close> Some True once the channel is closed.\<close>

record entry =
  eConfig :: tunnel
  eStatus :: status
  eCancel :: "bool option"
  eListener :: "bool option"
  eConn :: "nat option"
  eSockets :: "nat list"
  eDone :: "bool option"
  eStopped :: bool

record shared =
  sContainer :: bool
  sClosed :: bool
  sEntries :: "(string \<times> nat) list"
  sHeap :: "entry list"
  sConns :: "bool list"
  sSocks :: "bool list"

definition zero_tunnel :: tunnel where
  "zero_tunnel = \<lparr>tID = [], tName = [], tLocalHost = [], tLocalPort = 0, tRemoteHost = [],
     tRemotePort = 0, tHostID = [], tAutoReconnect = False, tDescription = []\<rparr>"

definition new_status :: "tun_state \<Rightarrow> status" where
  "new_status st = \<lparr>State = st, LastError = NoMessage, StartedAt = [], Connections = 0\<rparr>"

definition init_shared :: "bool \<Rightarrow> shared" where
  "init_shared container = \<lparr>sContainer = container, sClosed = False, sEntries = [], sHeap = [],
     sConns = [], sSocks = []\<rparr>"

text \<open>The program points. The first argument is the entry's address; connections and sockets are
  numbers into \<open>sConns\<close> and \<open>sSocks\<close>.\<close>

datatype thread =
    StartCall tunnel
  | StartConnect nat
  | StartFail nat err
  | StartGot nat nat
  | StartDiscard nat nat
  | StartFinish nat "err option" err
  | StartDone nat err
  | Accepting nat
  | Accepted nat nat
  | Dialing nat nat nat
  | DialFailed nat nat err
  | Copying nat nat
  | ForwardEnd nat nat
  | MonTick nat nat
  | MonProbe nat nat nat
  | MonDrop nat nat err
  | MonClose nat nat err
  | MonFinish nat err
  | MonBackoff nat nat
  | MonConnect nat nat
  | MonFailed nat nat err
  | MonGot nat nat
  | MonEnd nat
  | StopCall string
  | StopFinish nat
  | StopWait nat
  | CloseCall
  | CloseNext "string list"
  | CloseFinish nat "string list"
  | CloseWait nat "string list"
  | ReadyCall string
  | ReadyDial nat nat
  | ReadyFailed nat err
  | Returned "unit res"

text \<open>What the world outside answers: \<open>Step\<close> for a step that asks nothing, \<open>CtxDone\<close> for a
  \<open>select\<close> that takes the branch of the cancelled context. \<open>Accept\<close> fails on a closed listener,
  and may fail on an open one; the loop ends at any failure. \<open>MapOrder\<close> is the order in which Go
  ranges over the table of entries.\<close>

datatype event =
    Step
  | Listen "string \<Rightarrow> err option"
  | SshConnect "string \<Rightarrow> err option"
  | SshDial "string \<Rightarrow> err option"
  | Incoming
  | AcceptFailed
  | CtxDone
  | TimerFired
  | KeepAlive "err option"
  | At string
  | MapOrder "string list"

text \<open>Events carry functions, so the steps test the constructor instead of comparing events.\<close>

fun is_step :: "event \<Rightarrow> bool" where "is_step Step = True" | "is_step _ = False"
fun is_incoming :: "event \<Rightarrow> bool" where "is_incoming Incoming = True" | "is_incoming _ = False"
fun is_accept_failed :: "event \<Rightarrow> bool" where
  "is_accept_failed AcceptFailed = True" | "is_accept_failed _ = False"
fun is_ctx_done :: "event \<Rightarrow> bool" where "is_ctx_done CtxDone = True" | "is_ctx_done _ = False"
fun is_timer :: "event \<Rightarrow> bool" where "is_timer TimerFired = True" | "is_timer _ = False"

lemma event_tests [simp]:
  "is_step ev \<longleftrightarrow> ev = Step" "is_incoming ev \<longleftrightarrow> ev = Incoming"
  "is_accept_failed ev \<longleftrightarrow> ev = AcceptFailed" "is_ctx_done ev \<longleftrightarrow> ev = CtxDone"
  "is_timer ev \<longleftrightarrow> ev = TimerFired"
  by (cases ev; simp)+

section \<open>Entries\<close>

definition live :: "entry \<Rightarrow> bool" where
  "live e \<longleftrightarrow> eCancel e = Some False"

definition cancelled :: "entry \<Rightarrow> bool" where
  "cancelled e \<longleftrightarrow> eCancel e = Some True"

definition set_state :: "tun_state \<Rightarrow> entry \<Rightarrow> entry" where
  "set_state st e = e\<lparr>eStatus := (eStatus e)\<lparr>State := st\<rparr>\<rparr>"

definition set_error :: "message \<Rightarrow> entry \<Rightarrow> entry" where
  "set_error m e = e\<lparr>eStatus := (eStatus e)\<lparr>LastError := m\<rparr>\<rparr>"

definition active :: "entry \<Rightarrow> bool" where
  "active e \<longleftrightarrow> State (eStatus e) = Running \<or> State (eStatus e) = Connecting
     \<or> State (eStatus e) = Reconnecting"

text \<open>\<open>finish\<close>, on the entry: the connection it closes is in \<open>finish\<close> below.\<close>

definition finish_entry :: "err option \<Rightarrow> entry \<Rightarrow> entry" where
  "finish_entry err e =
     (let e1 = e\<lparr>eCancel := map_option (\<lambda>_. True) (eCancel e),
            eListener := map_option (\<lambda>_. False) (eListener e), eConn := None\<rparr>;
          e2 = set_state Stopped e1;
          e3 = (if err = None then e2\<lparr>eStopped := True\<rparr> else e2)
      in case err of
           Some x \<Rightarrow> if \<not> eStopped e3 then set_error (ConnMessage x) (set_state Failed e3) else e3
         | None \<Rightarrow> e3)"

definition run_entry :: "nat \<Rightarrow> string \<Rightarrow> entry \<Rightarrow> entry" where
  "run_entry c now e = e\<lparr>eConn := Some c,
     eStatus := \<lparr>State = Running, LastError = NoMessage, StartedAt = now, Connections = 0\<rparr>\<rparr>"

definition rerun_entry :: "nat \<Rightarrow> string \<Rightarrow> entry \<Rightarrow> entry" where
  "rerun_entry c now e = e\<lparr>eConn := Some c,
     eStatus := (eStatus e)\<lparr>State := Running, StartedAt := now\<rparr>\<rparr>"

definition drop_entry :: "err \<Rightarrow> entry \<Rightarrow> entry" where
  "drop_entry x e = (set_state Reconnecting (set_error (ConnMessage x) e))\<lparr>eConn := None\<rparr>"

definition add_socket :: "nat \<Rightarrow> entry \<Rightarrow> entry" where
  "add_socket k e = e\<lparr>eSockets := List.insert k (eSockets e),
     eStatus := (eStatus e)\<lparr>Connections := Connections (eStatus e) + 1\<rparr>\<rparr>"

definition del_socket :: "nat \<Rightarrow> entry \<Rightarrow> entry" where
  "del_socket k e = e\<lparr>eSockets := removeAll k (eSockets e),
     eStatus := (eStatus e)\<lparr>Connections := Connections (eStatus e) - 1\<rparr>\<rparr>"

section \<open>The shared state\<close>

definition upd :: "nat \<Rightarrow> (entry \<Rightarrow> entry) \<Rightarrow> shared \<Rightarrow> shared" where
  "upd n f s = s\<lparr>sHeap := (sHeap s)[n := f (sHeap s ! n)]\<rparr>"

definition close_conn :: "nat option \<Rightarrow> shared \<Rightarrow> shared" where
  "close_conn c s = (case c of None \<Rightarrow> s | Some k \<Rightarrow> s\<lparr>sConns := (sConns s)[k := False]\<rparr>)"

definition close_socks :: "nat list \<Rightarrow> shared \<Rightarrow> shared" where
  "close_socks ks s = s\<lparr>sSocks := fold (\<lambda>k bs. bs[k := False]) ks (sSocks s)\<rparr>"

definition open_conn :: "shared \<Rightarrow> nat \<times> shared" where
  "open_conn s = (length (sConns s), s\<lparr>sConns := sConns s @ [True]\<rparr>)"

definition finish :: "nat \<Rightarrow> err option \<Rightarrow> shared \<Rightarrow> shared" where
  "finish n err s =
     upd n (finish_entry err)
       (close_socks (eSockets (sHeap s ! n)) (close_conn (eConn (sHeap s ! n)) s))"

definition lookup :: "shared \<Rightarrow> string \<Rightarrow> nat option" where
  "lookup s i = map_of (sEntries s) i"

definition Statuses :: "shared \<Rightarrow> (string \<times> status) list" where
  "Statuses s = map (\<lambda>(i, n). (i, eStatus (sHeap s ! n))) (sEntries s)"

definition Active :: "shared \<Rightarrow> string \<Rightarrow> bool" where
  "Active s i = (case lookup s i of None \<Rightarrow> False | Some n \<Rightarrow> active (sHeap s ! n))"

definition ConfigChanged :: "shared \<Rightarrow> tunnel \<Rightarrow> bool" where
  "ConfigChanged s t =
     (case lookup s (tID t) of None \<Rightarrow> False
      | Some n \<Rightarrow> active (sHeap s ! n) \<and> eConfig (sHeap s ! n) \<noteq> t)"

section \<open>Start\<close>

definition bind_address :: "bool \<Rightarrow> tunnel \<Rightarrow> string" where
  "bind_address container t =
     JoinHostPort (if container then ''0.0.0.0'' else tLocalHost t) (Itoa (tLocalPort t))"

definition remote_address :: "tunnel \<Rightarrow> string" where
  "remote_address t = JoinHostPort (tRemoteHost t) (Itoa (tRemotePort t))"

definition failed_entry :: "err \<Rightarrow> entry" where
  "failed_entry x = \<lparr>eConfig = zero_tunnel,
     eStatus = (new_status Failed)\<lparr>LastError := BindMessage x\<rparr>, eCancel = None, eListener = None,
     eConn = None, eSockets = [], eDone = None, eStopped = False\<rparr>"

definition fresh_entry :: "tunnel \<Rightarrow> entry" where
  "fresh_entry t = \<lparr>eConfig = t, eStatus = new_status Connecting, eCancel = Some False,
     eListener = Some True, eConn = None, eSockets = [], eDone = Some False, eStopped = False\<rparr>"

definition add_entry :: "string \<Rightarrow> entry \<Rightarrow> shared \<Rightarrow> shared" where
  "add_entry i e s =
     s\<lparr>sEntries := AList.update i (length (sHeap s)) (sEntries s), sHeap := sHeap s @ [e]\<rparr>"

definition busy :: "shared \<Rightarrow> string \<Rightarrow> tun_state option" where
  "busy s i =
     (case lookup s i of None \<Rightarrow> None
      | Some n \<Rightarrow> (let st = State (eStatus (sHeap s ! n)) in
          if st \<noteq> Stopped \<and> st \<noteq> Failed then Some st else None))"

definition start_call :: "(string \<Rightarrow> err option) \<Rightarrow> tunnel \<Rightarrow> shared \<Rightarrow> thread \<times> shared" where
  "start_call listen t s =
     (case ValidateTunnel t of Inl x \<Rightarrow> (Returned (Inl x), s)
      | Inr _ \<Rightarrow>
        if sClosed s then (Returned (Inl (NetErr ShuttingDown)), s)
        else case busy s (tID t) of
          Some st \<Rightarrow> (Returned (if st = Running then Inr () else Inl (NetErr TunnelBusy)), s)
        | None \<Rightarrow>
            (case listen (bind_address (sContainer s) t) of
               Some x \<Rightarrow> (Returned (Inl x), add_entry (tID t) (failed_entry x) s)
             | None \<Rightarrow> (StartConnect (length (sHeap s)), add_entry (tID t) (fresh_entry t) s)))"

definition start_connect :: "(string \<Rightarrow> err option) \<Rightarrow> nat \<Rightarrow> shared \<Rightarrow> thread \<times> shared" where
  "start_connect connect n s =
     (case connect (tHostID (eConfig (sHeap s ! n))) of
        Some x \<Rightarrow> (StartFail n x, s)
      | None \<Rightarrow> (case open_conn s of (c, s') \<Rightarrow> (StartGot n c, s')))"

definition start_fail :: "nat \<Rightarrow> err \<Rightarrow> shared \<Rightarrow> thread" where
  "start_fail n x s = StartFinish n (if cancelled (sHeap s ! n) then None else Some x) x"

definition start_got :: "string \<Rightarrow> nat \<Rightarrow> nat \<Rightarrow> shared \<Rightarrow> thread list \<times> shared" where
  "start_got now n c s =
     (if cancelled (sHeap s ! n) then ([StartDiscard n c], s)
      else ([Returned (Inr ()), Accepting n, MonTick n 0], upd n (run_entry c now) s))"

definition close_done :: "nat \<Rightarrow> shared \<Rightarrow> shared" where
  "close_done n s = upd n (\<lambda>e. e\<lparr>eDone := Some True\<rparr>) s"

section \<open>Accepting and forwarding\<close>

definition max_sockets :: nat where
  "max_sockets = 128"

definition accepted :: "nat \<Rightarrow> nat \<Rightarrow> shared \<Rightarrow> thread list \<times> shared" where
  "accepted n k s =
     (let e = sHeap s ! n in
      case eConn e of
        None \<Rightarrow> ([Accepting n], close_socks [k] s)
      | Some c \<Rightarrow>
          if cancelled e \<or> State (eStatus e) \<noteq> Running \<or> max_sockets \<le> length (eSockets e)
          then ([Accepting n], close_socks [k] s)
          else ([Accepting n, Dialing n c k], upd n (add_socket k) s))"

definition dialing :: "(string \<Rightarrow> err option) \<Rightarrow> nat \<Rightarrow> nat \<Rightarrow> shared \<Rightarrow> thread" where
  "dialing dial n k s =
     (case dial (remote_address (eConfig (sHeap s ! n))) of
        Some x \<Rightarrow> DialFailed n k x
      | None \<Rightarrow> Copying n k)"

definition forward_end :: "nat \<Rightarrow> nat \<Rightarrow> shared \<Rightarrow> shared" where
  "forward_end n k s = upd n (del_socket k) (close_socks [k] s)"

section \<open>Monitoring\<close>

definition max_misses :: nat where
  "max_misses = 3"

definition first_backoff :: nat where
  "first_backoff = 1000"

definition max_backoff :: nat where
  "max_backoff = 30000"

definition next_backoff :: "nat \<Rightarrow> nat" where
  "next_backoff b =
     (if b < max_backoff then (if 2 * b > max_backoff then max_backoff else 2 * b) else b)"

definition mon_tick :: "nat \<Rightarrow> nat \<Rightarrow> shared \<Rightarrow> thread" where
  "mon_tick n misses s =
     (case eConn (sHeap s ! n) of None \<Rightarrow> MonEnd n | Some c \<Rightarrow> MonProbe n c misses)"

definition mon_probe :: "err option \<Rightarrow> nat \<Rightarrow> nat \<Rightarrow> nat \<Rightarrow> thread" where
  "mon_probe r n c misses =
     (case r of None \<Rightarrow> MonTick n 0
      | Some x \<Rightarrow> if Suc misses < max_misses then MonTick n (Suc misses) else MonDrop n c x)"

definition mon_drop :: "nat \<Rightarrow> nat \<Rightarrow> err \<Rightarrow> shared \<Rightarrow> thread \<times> shared" where
  "mon_drop n c x s =
     (if cancelled (sHeap s ! n) then (MonEnd n, s)
      else (MonClose n c x, upd n (drop_entry x) (close_socks (eSockets (sHeap s ! n)) s)))"

definition mon_close :: "nat \<Rightarrow> nat \<Rightarrow> err \<Rightarrow> shared \<Rightarrow> thread \<times> shared" where
  "mon_close n c x s =
     (if tAutoReconnect (eConfig (sHeap s ! n)) then MonBackoff n first_backoff else MonFinish n x,
      close_conn (Some c) s)"

definition mon_connect :: "(string \<Rightarrow> err option) \<Rightarrow> nat \<Rightarrow> nat \<Rightarrow> shared \<Rightarrow> thread \<times> shared" where
  "mon_connect connect n b s =
     (case connect (tHostID (eConfig (sHeap s ! n))) of
        Some x \<Rightarrow> (MonFailed n b x, s)
      | None \<Rightarrow> (case open_conn s of (c, s') \<Rightarrow> (MonGot n c, s')))"

definition mon_got :: "string \<Rightarrow> nat \<Rightarrow> nat \<Rightarrow> shared \<Rightarrow> thread \<times> shared" where
  "mon_got now n c s =
     (if cancelled (sHeap s ! n) then (MonEnd n, close_conn (Some c) s)
      else (MonTick n 0, upd n (rerun_entry c now) s))"

section \<open>Stop, Close and Ready\<close>

definition stop_call :: "string \<Rightarrow> shared \<Rightarrow> thread" where
  "stop_call i s = (case lookup s i of None \<Rightarrow> Returned (Inr ()) | Some n \<Rightarrow> StopFinish n)"

definition map_order :: "string list \<Rightarrow> shared \<Rightarrow> bool" where
  "map_order is s \<longleftrightarrow> distinct is \<and> set is = fst ` set (sEntries s)"

definition close_call :: "string list \<Rightarrow> shared \<Rightarrow> thread \<times> shared" where
  "close_call is s = (CloseNext is, s\<lparr>sClosed := True\<rparr>)"

definition close_next :: "string list \<Rightarrow> shared \<Rightarrow> thread" where
  "close_next is s =
     (case is of [] \<Rightarrow> Returned (Inr ())
      | i # js \<Rightarrow> (case lookup s i of None \<Rightarrow> CloseNext js | Some n \<Rightarrow> CloseFinish n js))"

text \<open>\<open><-v.done\<close>: passes once the channel is closed, or at once if there is none.\<close>

definition done_passed :: "nat \<Rightarrow> shared \<Rightarrow> bool" where
  "done_passed n s \<longleftrightarrow> eDone (sHeap s ! n) \<noteq> Some False"

definition ready_call :: "string \<Rightarrow> shared \<Rightarrow> thread" where
  "ready_call i s =
     (case lookup s i of None \<Rightarrow> Returned (Inl (NetErr TunnelNotRunning))
      | Some n \<Rightarrow>
          if State (eStatus (sHeap s ! n)) \<noteq> Running then Returned (Inl (NetErr TunnelNotRunning))
          else (case eConn (sHeap s ! n) of
              None \<Rightarrow> Returned (Inl (NetErr TunnelNotRunning))
            | Some c \<Rightarrow> ReadyDial n c))"

definition ready_dial :: "(string \<Rightarrow> err option) \<Rightarrow> nat \<Rightarrow> shared \<Rightarrow> thread" where
  "ready_dial dial n s =
     (case dial (remote_address (eConfig (sHeap s ! n))) of
        Some x \<Rightarrow> ReadyFailed n x
      | None \<Rightarrow> Returned (Inr ()))"

section \<open>The steps of a goroutine\<close>

definition one :: "thread \<times> shared \<Rightarrow> (thread list \<times> shared) option" where
  "one ts = Some ([fst ts], snd ts)"

definition on_step :: "event \<Rightarrow> (thread list \<times> shared) \<Rightarrow> (thread list \<times> shared) option" where
  "on_step ev r = (if is_step ev then Some r else None)"

text \<open>\<open>select\<close> between the cancelled context and another event.\<close>

definition select_done ::
  "event \<Rightarrow> nat \<Rightarrow> shared \<Rightarrow> (thread list \<times> shared) option \<Rightarrow> (thread list \<times> shared) option" where
  "select_done ev n s other =
     (if is_ctx_done ev then (if cancelled (sHeap s ! n) then Some ([MonEnd n], s) else None) else other)"

text \<open>Start and its tail.\<close>

definition start_step :: "event \<Rightarrow> thread \<Rightarrow> shared \<Rightarrow> (thread list \<times> shared) option" where
  "start_step ev t s =
     (case t of
        StartCall tn \<Rightarrow> (case ev of Listen f \<Rightarrow> one (start_call f tn s) | _ \<Rightarrow> None)
      | StartConnect n \<Rightarrow> (case ev of SshConnect f \<Rightarrow> one (start_connect f n s) | _ \<Rightarrow> None)
      | StartFail n x \<Rightarrow> on_step ev ([start_fail n x s], s)
      | StartGot n c \<Rightarrow> (case ev of At now \<Rightarrow> Some (start_got now n c s) | _ \<Rightarrow> None)
      | StartDiscard n c \<Rightarrow>
          on_step ev ([StartFinish n None (NetErr Canceled)], close_conn (Some c) s)
      | StartFinish n x r \<Rightarrow> on_step ev ([StartDone n r], finish n x s)
      | StartDone n r \<Rightarrow> on_step ev ([Returned (Inl r)], close_done n s)
      | _ \<Rightarrow> None)"

definition forward_step :: "event \<Rightarrow> thread \<Rightarrow> shared \<Rightarrow> (thread list \<times> shared) option" where
  "forward_step ev t s =
     (case t of
        Accepting n \<Rightarrow>
          if is_incoming ev then
            (if eListener (sHeap s ! n) = Some True
             then Some ([Accepted n (length (sSocks s))], s\<lparr>sSocks := sSocks s @ [True]\<rparr>) else None)
          else if is_accept_failed ev then Some ([], s) else None
      | Accepted n k \<Rightarrow> on_step ev (accepted n k s)
      | Dialing n c k \<Rightarrow> (case ev of SshDial f \<Rightarrow> Some ([dialing f n k s], s) | _ \<Rightarrow> None)
      | DialFailed n k x \<Rightarrow> on_step ev ([ForwardEnd n k], upd n (set_error (RemoteMessage x)) s)
      | Copying n k \<Rightarrow> on_step ev ([ForwardEnd n k], s)
      | ForwardEnd n k \<Rightarrow> on_step ev ([], forward_end n k s)
      | _ \<Rightarrow> None)"

definition monitor_step :: "event \<Rightarrow> thread \<Rightarrow> shared \<Rightarrow> (thread list \<times> shared) option" where
  "monitor_step ev t s =
     (case t of
        MonTick n m \<Rightarrow>
          select_done ev n s (if is_timer ev then Some ([mon_tick n m s], s) else None)
      | MonProbe n c m \<Rightarrow>
          select_done ev n s (case ev of KeepAlive r \<Rightarrow> Some ([mon_probe r n c m], s) | _ \<Rightarrow> None)
      | MonDrop n c x \<Rightarrow> if is_step ev then one (mon_drop n c x s) else None
      | MonClose n c x \<Rightarrow> if is_step ev then one (mon_close n c x s) else None
      | MonFinish n x \<Rightarrow> on_step ev ([MonEnd n], finish n (Some x) s)
      | MonBackoff n b \<Rightarrow>
          select_done ev n s (if is_timer ev then Some ([MonConnect n b], s) else None)
      | MonConnect n b \<Rightarrow> (case ev of SshConnect f \<Rightarrow> one (mon_connect f n b s) | _ \<Rightarrow> None)
      | MonFailed n b x \<Rightarrow>
          on_step ev ([MonBackoff n (next_backoff b)], upd n (set_error (ConnMessage x)) s)
      | MonGot n c \<Rightarrow> (case ev of At now \<Rightarrow> one (mon_got now n c s) | _ \<Rightarrow> None)
      | MonEnd n \<Rightarrow> on_step ev ([], close_done n s)
      | _ \<Rightarrow> None)"

definition control_step :: "event \<Rightarrow> thread \<Rightarrow> shared \<Rightarrow> (thread list \<times> shared) option" where
  "control_step ev t s =
     (case t of
        StopCall i \<Rightarrow> on_step ev ([stop_call i s], s)
      | StopFinish n \<Rightarrow> on_step ev ([StopWait n], finish n None s)
      | StopWait n \<Rightarrow> if done_passed n s then on_step ev ([Returned (Inr ())], s) else None
      | CloseCall \<Rightarrow>
          (case ev of MapOrder is \<Rightarrow> if map_order is s then one (close_call is s) else None | _ \<Rightarrow> None)
      | CloseNext is \<Rightarrow> on_step ev ([close_next is s], s)
      | CloseFinish n is \<Rightarrow> on_step ev ([CloseWait n is], finish n None s)
      | CloseWait n is \<Rightarrow> if done_passed n s then on_step ev ([CloseNext is], s) else None
      | ReadyCall i \<Rightarrow> on_step ev ([ready_call i s], s)
      | ReadyDial n c \<Rightarrow> (case ev of SshDial f \<Rightarrow> Some ([ready_dial f n s], s) | _ \<Rightarrow> None)
      | ReadyFailed n x \<Rightarrow>
          on_step ev ([Returned (Inl x)], upd n (set_error (ProbeMessage x)) s)
      | _ \<Rightarrow> None)"

definition thread_step :: "event \<Rightarrow> thread \<Rightarrow> shared \<Rightarrow> (thread list \<times> shared) option" where
  "thread_step ev t s =
     (case start_step ev t s of
        Some r \<Rightarrow> Some r
      | None \<Rightarrow>
          (case forward_step ev t s of
             Some r \<Rightarrow> Some r
           | None \<Rightarrow>
               (case monitor_step ev t s of
                  Some r \<Rightarrow> Some r
                | None \<Rightarrow> control_step ev t s)))"

section \<open>Interleaving\<close>

record world =
  wShared :: shared
  wThreads :: "thread list"

definition api_call :: "thread \<Rightarrow> bool" where
  "api_call t \<longleftrightarrow>
     (case t of StartCall _ \<Rightarrow> True | StopCall _ \<Rightarrow> True | CloseCall \<Rightarrow> True | ReadyCall _ \<Rightarrow> True
      | _ \<Rightarrow> False)"

inductive step :: "world \<Rightarrow> world \<Rightarrow> bool" where
  step_call: "api_call t \<Longrightarrow> step \<lparr>wShared = s, wThreads = ts\<rparr> \<lparr>wShared = s, wThreads = ts @ [t]\<rparr>"
| step_run: "thread_step ev t s = Some (us, s') \<Longrightarrow>
    step \<lparr>wShared = s, wThreads = xs @ t # ys\<rparr> \<lparr>wShared = s', wThreads = xs @ us @ ys\<rparr>"

inductive reachable :: "bool \<Rightarrow> world \<Rightarrow> bool" for container where
  reach_init: "reachable container \<lparr>wShared = init_shared container, wThreads = []\<rparr>"
| reach_step: "reachable container w \<Longrightarrow> step w w' \<Longrightarrow> reachable container w'"

end
