(* ===== verification/TunnelSafety.thy ===== *)
theory TunnelSafety
  imports Tunnel "HOL-Library.Multiset"
begin

text \<open>
  Invariants of the tunnel manager, over every interleaving of its goroutines and of concurrent
  calls. An entry is consistent (\<open>entry_inv\<close>); each goroutine knows something of its entry
  (\<open>knows\<close>) that the others keep; each entry has one goroutine in charge until its \<open>done\<close> channel
  is closed; sockets and connections are accounted for.
\<close>

named_theorems entry_simps "entries and their changes"

lemmas [entry_simps] = live_def cancelled_def active_def set_state_def set_error_def
  finish_entry_def run_entry_def rerun_entry_def drop_entry_def add_socket_def del_socket_def
  failed_entry_def fresh_entry_def new_status_def Let_def

section \<open>Entries\<close>

definition entry_inv :: "entry \<Rightarrow> bool" where
  "entry_inv e \<longleftrightarrow>
     (eCancel e = None \<longrightarrow> eListener e = None \<and> eConn e = None \<and> eDone e = None \<and> \<not> active e)
     \<and> (cancelled e \<longrightarrow> eListener e = Some False \<and> eConn e = None \<and> eDone e \<noteq> None \<and> \<not> active e)
     \<and> (live e \<longrightarrow> eListener e = Some True \<and> eDone e = Some False \<and> active e \<and> \<not> eStopped e
          \<and> (eConn e \<noteq> None \<longleftrightarrow> State (eStatus e) = Running)
          \<and> (State (eStatus e) = Connecting \<longrightarrow> eSockets e = []))
     \<and> (eStopped e \<longrightarrow> State (eStatus e) = Stopped)
     \<and> distinct (eSockets e) \<and> length (eSockets e) \<le> max_sockets
     \<and> Connections (eStatus e) = int (length (eSockets e))"

lemma entry_inv_new: "entry_inv (failed_entry x)" "entry_inv (fresh_entry t)"
  by (simp_all add: entry_inv_def entry_simps)

lemma entry_inv_finish: "entry_inv e \<Longrightarrow> entry_inv (finish_entry r e)"
  by (cases r; cases "eCancel e") (auto simp: entry_inv_def entry_simps)

lemma entry_inv_error: "entry_inv e \<Longrightarrow> entry_inv (set_error m e)"
  by (simp add: entry_inv_def entry_simps)

lemma entry_inv_run: "entry_inv e \<Longrightarrow> live e \<Longrightarrow> State (eStatus e) = Connecting \<Longrightarrow> entry_inv (run_entry c now e)"
  by (simp add: entry_inv_def entry_simps)

lemma entry_inv_rerun: "entry_inv e \<Longrightarrow> live e \<Longrightarrow> entry_inv (rerun_entry c now e)"
  by (simp add: entry_inv_def entry_simps)

lemma entry_inv_drop: "entry_inv e \<Longrightarrow> live e \<Longrightarrow> entry_inv (drop_entry x e)"
  by (simp add: entry_inv_def entry_simps)

lemma entry_inv_add:
  "entry_inv e \<Longrightarrow> k \<notin> set (eSockets e) \<Longrightarrow> length (eSockets e) < max_sockets \<Longrightarrow>
     State (eStatus e) = Running \<Longrightarrow> entry_inv (add_socket k e)"
  by (auto simp: entry_inv_def entry_simps)

lemma entry_inv_del: "entry_inv e \<Longrightarrow> k \<in> set (eSockets e) \<Longrightarrow> entry_inv (del_socket k e)"
  by (auto simp: entry_inv_def entry_simps distinct_remove1_removeAll [symmetric] length_remove1
      distinct_remove1 of_nat_diff Suc_le_eq dest: length_pos_if_in_set)

lemma entry_inv_done: "entry_inv e \<Longrightarrow> cancelled e \<Longrightarrow> entry_inv (e\<lparr>eDone := Some True\<rparr>)"
  by (simp add: entry_inv_def entry_simps)

section \<open>What goroutines know\<close>

text \<open>The goroutine in charge of an entry: the one that will close its \<open>done\<close>.\<close>

fun owner :: "thread \<Rightarrow> nat option" where
  "owner (StartConnect n) = Some n"
| "owner (StartFail n _) = Some n"
| "owner (StartGot n _) = Some n"
| "owner (StartDiscard n _) = Some n"
| "owner (StartFinish n _ _) = Some n"
| "owner (StartDone n _) = Some n"
| "owner (MonTick n _) = Some n"
| "owner (MonProbe n _ _) = Some n"
| "owner (MonDrop n _ _) = Some n"
| "owner (MonClose n _ _) = Some n"
| "owner (MonFinish n _) = Some n"
| "owner (MonBackoff n _) = Some n"
| "owner (MonConnect n _) = Some n"
| "owner (MonFailed n _ _) = Some n"
| "owner (MonGot n _) = Some n"
| "owner (MonEnd n) = Some n"
| "owner _ = None"

fun address :: "thread \<Rightarrow> nat option" where
  "address (Accepting n) = Some n"
| "address (Accepted n _) = Some n"
| "address (Dialing n _ _) = Some n"
| "address (DialFailed n _ _) = Some n"
| "address (Copying n _) = Some n"
| "address (ForwardEnd n _) = Some n"
| "address (StopFinish n) = Some n"
| "address (StopWait n) = Some n"
| "address (CloseFinish n _) = Some n"
| "address (CloseWait n _) = Some n"
| "address (ReadyDial n _) = Some n"
| "address (ReadyFailed n _) = Some n"
| "address t = owner t"

lemma owner_address: "owner t = Some n \<Longrightarrow> address t = Some n"
  by (cases t) auto

abbreviation in_state :: "tun_state \<Rightarrow> entry \<Rightarrow> bool" where
  "in_state st e \<equiv> (live e \<longrightarrow> State (eStatus e) = st)"

fun knows :: "thread \<Rightarrow> entry \<Rightarrow> bool" where
  "knows (StartConnect n) e = in_state Connecting e"
| "knows (StartFail n _) e = in_state Connecting e"
| "knows (StartGot n _) e = in_state Connecting e"
| "knows (StartFinish n _ _) e = in_state Connecting e"
| "knows (StartDiscard n _) e = cancelled e"
| "knows (StartDone n _) e = cancelled e"
| "knows (MonEnd n) e = cancelled e"
| "knows (MonTick n _) e = in_state Running e"
| "knows (MonProbe n c _) e = (live e \<longrightarrow> State (eStatus e) = Running \<and> eConn e = Some c)"
| "knows (MonDrop n c _) e = (live e \<longrightarrow> State (eStatus e) = Running \<and> eConn e = Some c)"
| "knows (MonClose n _ _) e = in_state Reconnecting e"
| "knows (MonFinish n _) e = in_state Reconnecting e"
| "knows (MonBackoff n _) e = in_state Reconnecting e"
| "knows (MonConnect n _) e = in_state Reconnecting e"
| "knows (MonFailed n _ _) e = in_state Reconnecting e"
| "knows (MonGot n _) e = in_state Reconnecting e"
| "knows (StopWait n) e = (\<not> live e)"
| "knows (CloseWait n _) e = (\<not> live e)"
| "knows _ e = True"

text \<open>A change that keeps what every goroutine knows, and one that keeps what those not in charge
  know.\<close>

definition keeps_all :: "entry \<Rightarrow> entry \<Rightarrow> bool" where
  "keeps_all e e' \<longleftrightarrow> (eCancel e = None \<longleftrightarrow> eCancel e' = None) \<and> (cancelled e \<longrightarrow> cancelled e') \<and>
     eDone e' = eDone e \<and> (live e' \<longrightarrow> State (eStatus e') = State (eStatus e) \<and> eConn e' = eConn e)"

definition keeps_most :: "entry \<Rightarrow> entry \<Rightarrow> bool" where
  "keeps_most e e' \<longleftrightarrow> (eCancel e = None \<longleftrightarrow> eCancel e' = None) \<and> (cancelled e \<longrightarrow> cancelled e')"

lemma keeps_live: "keeps_most e e' \<Longrightarrow> live e' \<Longrightarrow> live e"
  by (cases "eCancel e") (auto simp: keeps_most_def live_def cancelled_def)

lemma keeps_all_most: "keeps_all e e' \<Longrightarrow> keeps_most e e'"
  by (simp add: keeps_all_def keeps_most_def)

lemma knows_keeps_all: "keeps_all e e' \<Longrightarrow> knows t e \<Longrightarrow> knows t e'"
  using keeps_live [OF keeps_all_most, of e e']
  by (cases t) (auto simp: keeps_all_def)

lemma knows_keeps_most: "keeps_most e e' \<Longrightarrow> owner t = None \<Longrightarrow> knows t e \<Longrightarrow> knows t e'"
  using keeps_live [of e e'] by (cases t) auto

lemma keeps_all_simps:
  "keeps_all e (set_error m e)" "keeps_all e (add_socket k e)" "keeps_all e (del_socket k e)" "keeps_all e e"
  "keeps_all e (finish_entry r e)"
  by (cases "eCancel e"; auto simp: keeps_all_def entry_simps split: option.splits)+

lemma keeps_most_simps:
  "keeps_most e (run_entry c now e)" "keeps_most e (rerun_entry c now e)"
  "keeps_most e (drop_entry x e)" "keeps_most e (e\<lparr>eDone := d\<rparr>)"
  by (simp_all add: keeps_most_def entry_simps)

section \<open>The effect of one step\<close>

lemmas step_defs = thread_step_def start_step_def forward_step_def monitor_step_def control_step_def
  on_step_def one_def select_done_def

lemmas piece_defs = start_call_def start_connect_def start_fail_def start_got_def open_conn_def
  close_done_def accepted_def dialing_def forward_end_def mon_tick_def mon_probe_def mon_drop_def
  mon_close_def mon_connect_def mon_got_def stop_call_def close_call_def close_next_def
  ready_call_def ready_dial_def finish_def upd_def

lemma close_simps [simp]:
  "sHeap (close_conn c s) = sHeap s" "sHeap (close_socks ks s) = sHeap s"
  "sEntries (close_conn c s) = sEntries s" "sEntries (close_socks ks s) = sEntries s"
  "sClosed (close_conn c s) = sClosed s" "sClosed (close_socks ks s) = sClosed s"
  "sConns (close_socks ks s) = sConns s" "sSocks (close_conn c s) = sSocks s"
  "sContainer (close_conn c s) = sContainer s" "sContainer (close_socks ks s) = sContainer s"
  by (simp_all add: close_conn_def close_socks_def split: option.split)

text \<open>Sockets by goroutine.\<close>

fun fwds :: "thread \<Rightarrow> (nat \<times> nat) list" where
  "fwds (Dialing n _ k) = [(n, k)]"
| "fwds (DialFailed n k _) = [(n, k)]"
| "fwds (Copying n k) = [(n, k)]"
| "fwds (ForwardEnd n k) = [(n, k)]"
| "fwds _ = []"

fun got :: "thread \<Rightarrow> nat list" where
  "got (Accepted _ k) = [k]"
| "got _ = []"

text \<open>What the invariants say of a goroutine about to act.\<close>

definition may_act :: "thread \<Rightarrow> shared \<Rightarrow> bool" where
  "may_act t s \<longleftrightarrow>
     (\<forall>e \<in> set (sHeap s). entry_inv e)
     \<and> (\<forall>n. address t = Some n \<longrightarrow> n < length (sHeap s) \<and> knows t (sHeap s ! n))
     \<and> (\<forall>n. owner t = Some n \<longrightarrow> eDone (sHeap s ! n) = Some False)
     \<and> (\<forall>(n, k) \<in> set (fwds t). k \<in> set (eSockets (sHeap s ! n)))
     \<and> (\<forall>k \<in> set (got t). \<forall>e \<in> set (sHeap s). k \<notin> set (eSockets e))
     \<and> (\<forall>i n. lookup s i = Some n \<longrightarrow> n < length (sHeap s))"

definition changes_heap :: "thread \<Rightarrow> shared \<Rightarrow> shared \<Rightarrow> bool" where
  "changes_heap t s s' \<longleftrightarrow>
     sHeap s' = sHeap s \<and> sEntries s' = sEntries s
     \<or> (\<exists>n e'. address t = Some n \<and> sHeap s' = (sHeap s)[n := e'] \<and> sEntries s' = sEntries s
          \<and> entry_inv e' \<and> eConfig e' = eConfig (sHeap s ! n)
          \<and> (keeps_all (sHeap s ! n) e' \<or> owner t = Some n \<and> keeps_most (sHeap s ! n) e'))
     \<or> (\<exists>tn e. t = StartCall tn \<and> s' = add_entry (tID tn) e s \<and> entry_inv e \<and> busy s (tID tn) = None
          \<and> \<not> sClosed s \<and> eSockets e = [] \<and> (live e \<longrightarrow> eConfig e = tn))"

lemma changes_heap_same: "sHeap s' = sHeap s \<Longrightarrow> sEntries s' = sEntries s \<Longrightarrow> changes_heap t s s'"
  by (simp add: changes_heap_def)

lemma changes_heap_upd:
  "address t = Some n \<Longrightarrow> sHeap s' = (sHeap s)[n := e'] \<Longrightarrow> sEntries s' = sEntries s \<Longrightarrow> entry_inv e' \<Longrightarrow>
     eConfig e' = eConfig (sHeap s ! n) \<Longrightarrow>
     keeps_all (sHeap s ! n) e' \<or> owner t = Some n \<and> keeps_most (sHeap s ! n) e' \<Longrightarrow> changes_heap t s s'"
  by (auto simp: changes_heap_def)

lemma changes_heap_new:
  "t = StartCall tn \<Longrightarrow> s' = add_entry (tID tn) e s \<Longrightarrow> entry_inv e \<Longrightarrow> busy s (tID tn) = None \<Longrightarrow>
     \<not> sClosed s \<Longrightarrow> eSockets e = [] \<Longrightarrow> (live e \<longrightarrow> eConfig e = tn) \<Longrightarrow> changes_heap t s s'"
  unfolding changes_heap_def by blast

lemma new_entry_simps:
  "\<not> live (failed_entry x)" "eSockets (failed_entry x) = []" "eConfig (fresh_entry t) = t"
  "eSockets (fresh_entry t) = []" "eDone (failed_entry x) = None" "eDone (fresh_entry t) = Some False"
  by (simp_all add: entry_simps)

lemma config_simps [simp]:
  "eConfig (finish_entry r e) = eConfig e" "eConfig (set_error m e) = eConfig e"
  "eConfig (run_entry c now e) = eConfig e" "eConfig (rerun_entry c now e) = eConfig e"
  "eConfig (drop_entry x e) = eConfig e" "eConfig (add_socket k e) = eConfig e"
  "eConfig (del_socket k e) = eConfig e"
  by (auto simp: entry_simps split: option.split)

lemma live_or_cancelled: "entry_inv e \<Longrightarrow> eDone e = Some False \<Longrightarrow> \<not> cancelled e \<Longrightarrow> live e"
  by (cases "eCancel e") (auto simp: entry_inv_def live_def cancelled_def)

lemma start_step_changes:
  assumes "start_step ev t s = Some (us, s')" "may_act t s"
  shows "changes_heap t s s'"
proof (cases t)
  case (StartCall tn)
  have "start_call f tn s = (u, s') \<Longrightarrow> changes_heap t s s'" for f u
    using StartCall
    by (auto simp: start_call_def entry_inv_new new_entry_simps
        intro: changes_heap_same changes_heap_new split: sum.splits if_splits option.splits)
  with StartCall assms(1) show ?thesis
    by (auto simp: start_step_def one_def split: event.splits)
       (metis prod.collapse)
next
  case (StartGot n c)
  then have e: "entry_inv (sHeap s ! n)" "in_state Connecting (sHeap s ! n)" "eDone (sHeap s ! n) = Some False"
    using assms(2) by (auto simp: may_act_def)
  show ?thesis
  proof (cases "cancelled (sHeap s ! n)")
    case True
    with StartGot assms(1) show ?thesis
      by (auto simp: start_step_def start_got_def changes_heap_same split: event.splits)
  next
    case False
    then have "live (sHeap s ! n)" using e live_or_cancelled by blast
    with StartGot False assms(1) e show ?thesis
      by (auto simp: start_step_def start_got_def upd_def keeps_most_simps entry_inv_run
          intro!: changes_heap_upd [where n = n] split: event.splits)
  qed
next
  case (StartFinish n r x)
  with assms show ?thesis
    by (auto simp: start_step_def on_step_def finish_def upd_def may_act_def keeps_all_simps
        entry_inv_finish intro!: changes_heap_upd [where n = n] split: if_splits)
next
  case (StartDone n x)
  with assms show ?thesis
    by (auto simp: start_step_def on_step_def close_done_def upd_def may_act_def keeps_most_simps
        entry_inv_done intro!: changes_heap_upd [where n = n] split: if_splits)
qed (use assms in \<open>auto simp: start_step_def on_step_def one_def start_connect_def open_conn_def
    intro!: changes_heap_same split: event.splits option.splits if_splits\<close>)

lemma forward_step_changes:
  assumes "forward_step ev t s = Some (us, s')" "may_act t s"
  shows "changes_heap t s s'"
proof (cases t)
  case (Accepted n k)
  then have e: "entry_inv (sHeap s ! n)" "k \<notin> set (eSockets (sHeap s ! n))"
    using assms(2) by (auto simp: may_act_def)
  from Accepted assms(1) consider "s' = close_socks [k] s"
    | "State (eStatus (sHeap s ! n)) = Running" "length (eSockets (sHeap s ! n)) < max_sockets"
      "s' = upd n (add_socket k) s"
    by (auto simp: forward_step_def on_step_def accepted_def Let_def split: if_splits option.splits)
  then show ?thesis
  proof cases
    case 1
    then show ?thesis by (simp add: changes_heap_same)
  next
    case 2
    with e Accepted show ?thesis
      by (auto simp: upd_def keeps_all_simps entry_inv_add intro!: changes_heap_upd [where n = n])
  qed
next
  case (DialFailed n k x)
  with assms show ?thesis
    by (auto simp: forward_step_def on_step_def upd_def may_act_def keeps_all_simps entry_inv_error
        intro!: changes_heap_upd [where n = n] split: if_splits)
next
  case (ForwardEnd n k)
  with assms show ?thesis
    by (auto simp: forward_step_def on_step_def forward_end_def upd_def may_act_def keeps_all_simps
        entry_inv_del intro!: changes_heap_upd [where n = n] split: if_splits)
qed (use assms in \<open>auto simp: forward_step_def on_step_def
    intro!: changes_heap_same split: event.splits option.splits if_splits\<close>)

lemma monitor_step_changes:
  assumes "monitor_step ev t s = Some (us, s')" "may_act t s"
  shows "changes_heap t s s'"
proof (cases t)
  case (MonDrop n c x)
  then have e: "entry_inv (sHeap s ! n)" "eDone (sHeap s ! n) = Some False"
    using assms(2) by (auto simp: may_act_def)
  show ?thesis
  proof (cases "cancelled (sHeap s ! n)")
    case True
    with MonDrop assms(1) show ?thesis
      by (auto simp: monitor_step_def one_def mon_drop_def changes_heap_same split: if_splits)
  next
    case False
    then have "live (sHeap s ! n)" using e live_or_cancelled by blast
    with MonDrop False assms(1) e show ?thesis
      by (auto simp: monitor_step_def one_def mon_drop_def upd_def keeps_most_simps entry_inv_drop
          intro!: changes_heap_upd [where n = n] split: if_splits)
  qed
next
  case (MonGot n c)
  then have e: "entry_inv (sHeap s ! n)" "eDone (sHeap s ! n) = Some False"
    using assms(2) by (auto simp: may_act_def)
  show ?thesis
  proof (cases "cancelled (sHeap s ! n)")
    case True
    with MonGot assms(1) show ?thesis
      by (auto simp: monitor_step_def one_def mon_got_def changes_heap_same split: event.splits)
  next
    case False
    then have "live (sHeap s ! n)" using e live_or_cancelled by blast
    with MonGot False assms(1) e show ?thesis
      by (auto simp: monitor_step_def one_def mon_got_def upd_def keeps_most_simps entry_inv_rerun
          intro!: changes_heap_upd [where n = n] split: event.splits)
  qed
next
  case (MonFinish n x)
  with assms show ?thesis
    by (auto simp: monitor_step_def on_step_def finish_def upd_def may_act_def keeps_all_simps
        entry_inv_finish intro!: changes_heap_upd [where n = n] split: if_splits)
next
  case (MonFailed n b x)
  with assms show ?thesis
    by (auto simp: monitor_step_def on_step_def upd_def may_act_def keeps_all_simps
        entry_inv_error intro!: changes_heap_upd [where n = n] split: if_splits)
next
  case (MonEnd n)
  with assms show ?thesis
    by (auto simp: monitor_step_def on_step_def close_done_def upd_def may_act_def keeps_most_simps
        entry_inv_done intro!: changes_heap_upd [where n = n] split: if_splits)
qed (use assms in \<open>auto simp: monitor_step_def on_step_def one_def select_done_def mon_close_def
    mon_connect_def open_conn_def intro!: changes_heap_same split: event.splits option.splits if_splits\<close>)

lemma control_step_changes:
  assumes "control_step ev t s = Some (us, s')" "may_act t s"
  shows "changes_heap t s s'"
proof (cases t)
  case (StopFinish n)
  with assms show ?thesis
    by (auto simp: control_step_def on_step_def finish_def upd_def may_act_def keeps_all_simps
        entry_inv_finish intro!: changes_heap_upd [where n = n] split: if_splits)
next
  case (CloseFinish n "is")
  with assms show ?thesis
    by (auto simp: control_step_def on_step_def finish_def upd_def may_act_def keeps_all_simps
        entry_inv_finish intro!: changes_heap_upd [where n = n] split: if_splits)
next
  case (ReadyFailed n x)
  with assms show ?thesis
    by (auto simp: control_step_def on_step_def upd_def may_act_def keeps_all_simps
        entry_inv_error intro!: changes_heap_upd [where n = n] split: if_splits)
qed (use assms in \<open>auto simp: control_step_def on_step_def one_def close_call_def
    intro!: changes_heap_same split: event.splits option.splits if_splits\<close>)

lemma thread_step_changes:
  "thread_step ev t s = Some (us, s') \<Longrightarrow> may_act t s \<Longrightarrow> changes_heap t s s'"
  by (auto simp: thread_step_def split: option.splits dest: start_step_changes forward_step_changes
      monitor_step_changes control_step_changes)

text \<open>What the successors know.\<close>

definition all_know :: "thread list \<Rightarrow> shared \<Rightarrow> bool" where
  "all_know ts s \<longleftrightarrow>
     (\<forall>t \<in> set ts. \<forall>n. address t = Some n \<longrightarrow> n < length (sHeap s) \<and> knows t (sHeap s ! n))"

lemma all_know_simps [simp]:
  "all_know [] s" "all_know (t # ts) s \<longleftrightarrow>
     (\<forall>n. address t = Some n \<longrightarrow> n < length (sHeap s) \<and> knows t (sHeap s ! n)) \<and> all_know ts s"
  "all_know (ts @ us) s \<longleftrightarrow> all_know ts s \<and> all_know us s"
  by (auto simp: all_know_def)

lemma may_actD:
  assumes "may_act t s"
  shows "address t = Some n \<Longrightarrow> n < length (sHeap s) \<and> knows t (sHeap s ! n)"
    "owner t = Some n \<Longrightarrow> eDone (sHeap s ! n) = Some False"
    "lookup s i = Some n \<Longrightarrow> n < length (sHeap s)"
  using assms by (auto simp: may_act_def)

lemma may_act_know: "may_act t s \<Longrightarrow> all_know [t] s"
  by (simp add: may_act_def)

lemma may_act_lookup: "may_act t s \<Longrightarrow> \<forall>i n. lookup s i = Some n \<longrightarrow> n < length (sHeap s)"
  by (simp add: may_act_def)

lemma finish_facts:
  "\<not> live (finish_entry r e)" "eCancel e \<noteq> None \<Longrightarrow> cancelled (finish_entry r e)"
  by (cases "eCancel e"; auto simp: entry_simps split: option.split)+

lemma owned_cancel:
  assumes "may_act t s" "owner t = Some n"
  shows "eCancel (sHeap s ! n) \<noteq> None"
proof -
  have "n < length (sHeap s)" using may_actD(1) [OF assms(1) owner_address [OF assms(2)]] by simp
  then have "entry_inv (sHeap s ! n)" using assms(1) by (simp add: may_act_def)
  with may_actD(2) [OF assms] show ?thesis by (auto simp: entry_inv_def)
qed

lemma knows_finish [simp]: "knows t e \<Longrightarrow> knows t (finish_entry r e)"
  by (rule knows_keeps_all [OF keeps_all_simps(5)])

lemma start_step_knows:
  assumes "start_step ev t s = Some (us, s')" "may_act t s"
  shows "all_know us s'"
proof (cases t)
  case (StartCall tn)
  have "start_call f tn s = (u, s') \<Longrightarrow> all_know [u] s'" for f u
    by (auto simp: start_call_def add_entry_def fresh_entry_def new_status_def
        split: sum.splits if_splits option.splits)
  with StartCall assms(1) show ?thesis
    by (auto simp: start_step_def one_def split: event.splits) (metis prod.collapse)
next
  case (StartGot n c)
  with assms owned_cancel [OF assms(2), of n] show ?thesis
    by (auto simp: start_step_def start_got_def upd_def may_act_def run_entry_def
        split: event.splits if_splits)
next
  case (StartFinish n r x)
  with assms owned_cancel [OF assms(2), of n] show ?thesis
    by (auto simp: start_step_def on_step_def finish_def upd_def may_act_def finish_facts split: if_splits)
qed (use assms in \<open>auto simp: start_step_def on_step_def one_def start_connect_def open_conn_def start_fail_def
    may_act_def cancelled_def live_def split: event.splits option.splits if_splits\<close>)

lemma forward_step_knows:
  assumes "forward_step ev t s = Some (us, s')" "may_act t s"
  shows "all_know us s'"
proof (cases t)
  case (Accepting n)
  with assms(1) may_act_know [OF assms(2)] show ?thesis
    by (simp add: forward_step_def split: if_splits) auto
next
  case (Accepted n k)
  with assms(1) may_act_know [OF assms(2)] show ?thesis
    by (auto simp: forward_step_def on_step_def accepted_def upd_def Let_def split: if_splits option.splits)
next
  case (Dialing n c k)
  with assms(1) may_act_know [OF assms(2)] show ?thesis
    by (cases ev) (auto simp: forward_step_def dialing_def split: option.splits)
next
  case (DialFailed n k x)
  with assms(1) may_act_know [OF assms(2)] show ?thesis
    by (auto simp: forward_step_def on_step_def upd_def split: if_splits)
next
  case (Copying n k)
  with assms(1) may_act_know [OF assms(2)] show ?thesis
    by (auto simp: forward_step_def on_step_def split: if_splits)
next
  case (ForwardEnd n k)
  with assms(1) may_act_know [OF assms(2)] show ?thesis
    by (auto simp: forward_step_def on_step_def split: if_splits)
qed (use assms(1) in \<open>simp_all add: forward_step_def\<close>)

lemma monitor_step_knows:
  assumes "monitor_step ev t s = Some (us, s')" "may_act t s"
  shows "all_know us s'"
proof (cases t)
  case (MonTick n m)
  with assms have "entry_inv (sHeap s ! n)" "eDone (sHeap s ! n) = Some False"
    by (auto simp: may_act_def)
  then have "eConn (sHeap s ! n) = None \<Longrightarrow> in_state Running (sHeap s ! n) \<Longrightarrow> cancelled (sHeap s ! n)"
    using live_or_cancelled [of "sHeap s ! n"] unfolding entry_inv_def by argo
  with MonTick assms show ?thesis
    by (auto simp: monitor_step_def select_done_def mon_tick_def may_act_def split: if_splits option.splits)
next
  case (MonProbe n c m)
  with assms show ?thesis
    by (auto simp: monitor_step_def select_done_def mon_probe_def may_act_def
        split: if_splits option.splits event.splits)
next
  case (MonDrop n c x)
  with assms show ?thesis
    by (auto simp: monitor_step_def one_def mon_drop_def may_act_def upd_def entry_simps
        split: if_splits option.splits)
next
  case (MonFinish n x)
  with assms owned_cancel [OF assms(2), of n] show ?thesis
    by (auto simp: monitor_step_def on_step_def finish_def upd_def may_act_def finish_facts split: if_splits)
next
  case (MonFailed n b x)
  with assms show ?thesis
    by (auto simp: monitor_step_def on_step_def upd_def may_act_def entry_simps split: if_splits)
next
  case (MonGot n c)
  with assms show ?thesis
    by (auto simp: monitor_step_def one_def mon_got_def may_act_def upd_def entry_simps
        split: if_splits option.splits event.splits)
qed (use assms in \<open>auto simp: monitor_step_def on_step_def one_def select_done_def mon_close_def
    mon_connect_def open_conn_def may_act_def split: event.splits option.splits if_splits\<close>)

lemma control_step_knows:
  assumes "control_step ev t s = Some (us, s')" "may_act t s"
  shows "all_know us s'"
proof (cases t)
  case (StopCall i)
  with assms(1) may_act_know [OF assms(2)] may_act_lookup [OF assms(2)] show ?thesis
    by (auto simp: control_step_def on_step_def stop_call_def split: if_splits option.splits)
next
  case (StopFinish n)
  with assms(1) may_act_know [OF assms(2)] may_act_lookup [OF assms(2)] show ?thesis
    by (auto simp: control_step_def on_step_def finish_def upd_def finish_facts(1) split: if_splits)
next
  case (StopWait n)
  with assms(1) may_act_know [OF assms(2)] may_act_lookup [OF assms(2)] show ?thesis
    by (auto simp: control_step_def on_step_def split: if_splits)
next
  case (CloseCall)
  with assms(1) may_act_know [OF assms(2)] may_act_lookup [OF assms(2)] show ?thesis
    by (auto simp: control_step_def one_def close_call_def split: if_splits event.splits)
next
  case (CloseNext "is")
  with assms(1) may_act_know [OF assms(2)] may_act_lookup [OF assms(2)] show ?thesis
    by (auto simp: control_step_def on_step_def close_next_def split: if_splits option.splits list.splits)
next
  case (CloseFinish n "is")
  with assms(1) may_act_know [OF assms(2)] may_act_lookup [OF assms(2)] show ?thesis
    by (auto simp: control_step_def on_step_def finish_def upd_def finish_facts(1) split: if_splits)
next
  case (CloseWait n "is")
  with assms(1) may_act_know [OF assms(2)] may_act_lookup [OF assms(2)] show ?thesis
    by (auto simp: control_step_def on_step_def split: if_splits)
next
  case (ReadyCall i)
  with assms(1) may_act_know [OF assms(2)] may_act_lookup [OF assms(2)] show ?thesis
    by (auto simp: control_step_def on_step_def ready_call_def split: if_splits option.splits)
next
  case (ReadyDial n c)
  with assms(1) may_act_know [OF assms(2)] may_act_lookup [OF assms(2)] show ?thesis
    by (cases ev) (auto simp: control_step_def ready_dial_def split: option.splits)
next
  case (ReadyFailed n x)
  with assms(1) may_act_know [OF assms(2)] may_act_lookup [OF assms(2)] show ?thesis
    by (auto simp: control_step_def on_step_def upd_def split: if_splits)
qed (use assms(1) in \<open>simp_all add: control_step_def\<close>)

lemma thread_step_knows:
  "thread_step ev t s = Some (us, s') \<Longrightarrow> may_act t s \<Longrightarrow> all_know us s'"
  by (auto simp: thread_step_def split: option.splits dest: start_step_knows forward_step_knows
      monitor_step_knows control_step_knows)

text \<open>The goroutine in charge hands the entry on, or closes \<open>done\<close>.\<close>

definition owners :: "nat \<Rightarrow> thread list \<Rightarrow> nat" where
  "owners n ts = length (filter (\<lambda>t. owner t = Some n) ts)"

lemma owners_simps [simp]:
  "owners n [] = 0" "owners n (t # ts) = (if owner t = Some n then Suc (owners n ts) else owners n ts)"
  "owners n (ts @ us) = owners n ts + owners n us"
  by (simp_all add: owners_def)

definition due :: "entry \<Rightarrow> nat" where
  "due e = (if eDone e = Some False then 1 else 0)"

definition hands_on :: "thread \<Rightarrow> thread list \<Rightarrow> shared \<Rightarrow> shared \<Rightarrow> bool" where
  "hands_on t us s s' \<longleftrightarrow>
     length (sHeap s) \<le> length (sHeap s') \<and>
     (\<forall>m < length (sHeap s). owners m us + due (sHeap s ! m) = owners m [t] + due (sHeap s' ! m)) \<and>
     (\<forall>m < length (sHeap s'). length (sHeap s) \<le> m \<longrightarrow> owners m us = due (sHeap s' ! m))"

lemma due_simps [simp]:
  "due (set_error m e) = due e" "due (run_entry c now e) = due e" "due (rerun_entry c now e) = due e"
  "due (drop_entry x e) = due e" "due (add_socket k e) = due e" "due (del_socket k e) = due e"
  "due (finish_entry r e) = due e" "due (e\<lparr>eDone := Some True\<rparr>) = 0"
  "due (failed_entry x) = 0" "due (fresh_entry t) = 1"
  by (auto simp: due_def entry_simps split: option.split)

lemma due_upd [simp]: "due e = due (es ! n) \<Longrightarrow> due (es[n := e] ! m) = due (es ! m)"
  by (cases "n < length es"; cases "n = m") (simp_all add: list_update_beyond)

definition in_charge :: "thread \<Rightarrow> shared \<Rightarrow> bool" where
  "in_charge t s \<longleftrightarrow> (case owner t of None \<Rightarrow> True | Some n \<Rightarrow> n < length (sHeap s) \<and> due (sHeap s ! n) = 1)"

lemma may_act_charge: "may_act t s \<Longrightarrow> in_charge t s"
  using owner_address by (auto simp: in_charge_def may_act_def due_def split: option.split)

lemma start_step_hands:
  assumes "start_step ev t s = Some (us, s')" "may_act t s"
  shows "hands_on t us s s'"
proof (cases t)
  case (StartCall tn)
  have "start_call f tn s = (u, s') \<Longrightarrow> hands_on t [u] s s'" for f u
    using StartCall
    by (auto simp: start_call_def add_entry_def hands_on_def nth_append less_Suc_eq
        split: sum.splits if_splits option.splits)
  with StartCall assms(1) show ?thesis
    by (auto simp: start_step_def one_def split: event.splits)
qed (use assms(1) may_act_charge [OF assms(2)] in \<open>auto simp: start_step_def on_step_def one_def start_connect_def
    open_conn_def start_fail_def start_got_def finish_def close_done_def upd_def hands_on_def nth_list_update
    in_charge_def
    split: event.splits option.splits if_splits\<close>)

lemma forward_step_hands:
  assumes "forward_step ev t s = Some (us, s')" "may_act t s"
  shows "hands_on t us s s'"
  using assms
  by (cases t) (auto simp: forward_step_def on_step_def accepted_def dialing_def upd_def forward_end_def
      hands_on_def nth_list_update Let_def split: if_splits option.splits event.splits)

lemma monitor_step_hands:
  assumes "monitor_step ev t s = Some (us, s')" "may_act t s"
  shows "hands_on t us s s'"
  using assms(1) may_act_charge [OF assms(2)]
  by (cases t) (auto simp: monitor_step_def on_step_def one_def select_done_def mon_tick_def mon_probe_def
      mon_drop_def mon_close_def mon_connect_def mon_got_def open_conn_def finish_def close_done_def upd_def
      hands_on_def nth_list_update in_charge_def
      split: if_splits option.splits event.splits)

lemma control_step_hands:
  assumes "control_step ev t s = Some (us, s')"
  shows "hands_on t us s s'"
  using assms
  by (cases t) (auto simp: control_step_def on_step_def one_def close_call_def stop_call_def close_next_def
      ready_call_def ready_dial_def finish_def upd_def hands_on_def nth_list_update
      split: if_splits option.splits event.splits list.splits)

lemma thread_step_hands:
  "thread_step ev t s = Some (us, s') \<Longrightarrow> may_act t s \<Longrightarrow> hands_on t us s s'"
  by (auto simp: thread_step_def split: option.splits dest: start_step_hands forward_step_hands
      monitor_step_hands control_step_hands)

text \<open>Sockets: an entry's set is what its forwarding goroutines hold.\<close>

definition socks :: "nat \<Rightarrow> thread list \<Rightarrow> nat list" where
  "socks n ts = concat (map (\<lambda>t. map snd (filter (\<lambda>p. fst p = n) (fwds t))) ts)"

definition held :: "thread list \<Rightarrow> nat list" where
  "held ts = concat (map (\<lambda>t. got t @ map snd (fwds t)) ts)"

lemma socks_simps [simp]:
  "socks n [] = []" "socks n (t # ts) = map snd (filter (\<lambda>p. fst p = n) (fwds t)) @ socks n ts"
  "socks n (ts @ us) = socks n ts @ socks n us"
  by (simp_all add: socks_def)

lemma held_simps [simp]:
  "held [] = []" "held (t # ts) = got t @ map snd (fwds t) @ held ts" "held (ts @ us) = held ts @ held us"
  by (simp_all add: held_def)

definition moves_sockets :: "thread \<Rightarrow> thread list \<Rightarrow> shared \<Rightarrow> shared \<Rightarrow> bool" where
  "moves_sockets t us s s' \<longleftrightarrow>
     (\<forall>m < length (sHeap s). mset (eSockets (sHeap s' ! m)) + mset (socks m [t])
         = mset (eSockets (sHeap s ! m)) + mset (socks m us))
     \<and> (held us = [length (sSocks s)] \<and> held [t] = [] \<and> length (sSocks s') = Suc (length (sSocks s))
        \<or> mset (held us) \<subseteq># mset (held [t]) \<and> length (sSocks s') = length (sSocks s))"

lemma length_close [simp]: "length (sSocks (close_socks ks s)) = length (sSocks s)"
proof -
  have "length (fold (\<lambda>k bs. bs[k := False]) ks bs) = length bs" for bs :: "bool list"
    by (induction ks arbitrary: bs) auto
  then show ?thesis by (simp add: close_socks_def)
qed

lemma sockets_simps [simp]:
  "eSockets (finish_entry r e) = eSockets e" "eSockets (set_error m e) = eSockets e"
  "eSockets (run_entry c now e) = eSockets e" "eSockets (rerun_entry c now e) = eSockets e"
  "eSockets (drop_entry x e) = eSockets e"
  by (auto simp: entry_simps split: option.split)

lemma sockets_upd [simp]: "eSockets e = eSockets (es ! n) \<Longrightarrow> eSockets (es[n := e] ! m) = eSockets (es ! m)"
  by (cases "n < length es"; cases "n = m") (simp_all add: list_update_beyond)

lemma sockets_new [simp]: "m < length (sHeap s) \<Longrightarrow> sHeap (add_entry i e s) ! m = sHeap s ! m"
  by (simp add: add_entry_def nth_append)

lemma length_add [simp]: "length (sHeap (add_entry i e s)) = Suc (length (sHeap s))"
  by (simp add: add_entry_def)

lemma sSocks_add [simp]: "sSocks (add_entry i e s) = sSocks s"
  by (simp add: add_entry_def)

lemma start_step_sockets:
  assumes "start_step ev t s = Some (us, s')"
  shows "moves_sockets t us s s'"
proof (cases t)
  case (StartCall tn)
  have "start_call f tn s = (u, s') \<Longrightarrow> moves_sockets t [u] s s'" for f u
    using StartCall
    by (auto simp: start_call_def moves_sockets_def split: sum.splits if_splits option.splits)
  with StartCall assms show ?thesis
    by (auto simp: start_step_def one_def split: event.splits)
qed (use assms in \<open>auto simp: start_step_def on_step_def one_def start_connect_def open_conn_def start_fail_def
    start_got_def finish_def close_done_def upd_def moves_sockets_def
    split: event.splits option.splits if_splits\<close>)

lemma monitor_step_sockets:
  assumes "monitor_step ev t s = Some (us, s')"
  shows "moves_sockets t us s s'"
  using assms
  by (cases t) (auto simp: monitor_step_def on_step_def one_def select_done_def mon_tick_def mon_probe_def
      mon_drop_def mon_close_def mon_connect_def mon_got_def open_conn_def finish_def close_done_def upd_def
      moves_sockets_def split: if_splits option.splits event.splits)

lemma control_step_sockets:
  assumes "control_step ev t s = Some (us, s')"
  shows "moves_sockets t us s s'"
  using assms
  by (cases t) (auto simp: control_step_def on_step_def one_def close_call_def stop_call_def close_next_def
      ready_call_def ready_dial_def finish_def upd_def moves_sockets_def
      split: if_splits option.splits event.splits list.splits)

lemma forward_step_sockets:
  assumes "forward_step ev t s = Some (us, s')" "may_act t s"
  shows "moves_sockets t us s s'"
proof (cases t)
  case (Accepting n)
  with assms(1) show ?thesis by (auto simp: forward_step_def moves_sockets_def split: if_splits)
next
  case (Accepted n k)
  then have n: "n < length (sHeap s)" "k \<notin> set (eSockets (sHeap s ! n))"
    using assms(2) by (auto simp: may_act_def)
  from Accepted assms(1) n show ?thesis
    by (auto simp: forward_step_def on_step_def accepted_def upd_def Let_def moves_sockets_def add_socket_def
        nth_list_update split: if_splits option.splits)
next
  case (Dialing n c k)
  with assms(1) show ?thesis
    by (cases ev) (auto simp: forward_step_def dialing_def moves_sockets_def split: option.splits)
next
  case (DialFailed n k x)
  with assms(1) show ?thesis
    by (auto simp: forward_step_def on_step_def upd_def moves_sockets_def split: if_splits)
next
  case (Copying n k)
  with assms(1) show ?thesis by (auto simp: forward_step_def on_step_def moves_sockets_def split: if_splits)
next
  case (ForwardEnd n k)
  then have n: "n < length (sHeap s)" "k \<in> set (eSockets (sHeap s ! n))" "distinct (eSockets (sHeap s ! n))"
    using assms(2) by (auto simp: may_act_def entry_inv_def)
  then have "mset (removeAll k (eSockets (sHeap s ! n))) + {#k#} = mset (eSockets (sHeap s ! n))"
    by (simp add: distinct_remove1_removeAll [symmetric])
  with ForwardEnd assms(1) n show ?thesis
    by (auto simp: forward_step_def on_step_def forward_end_def upd_def moves_sockets_def del_socket_def
        nth_list_update split: if_splits)
qed (use assms(1) in \<open>simp_all add: forward_step_def\<close>)

lemma thread_step_sockets:
  "thread_step ev t s = Some (us, s') \<Longrightarrow> may_act t s \<Longrightarrow> moves_sockets t us s s'"
  by (auto simp: thread_step_def split: option.splits dest: start_step_sockets forward_step_sockets
      monitor_step_sockets control_step_sockets)

text \<open>A manager that is closed stays closed, and what a running \<open>Close\<close> has still to stop.\<close>

lemma thread_step_closed:
  assumes "thread_step ev t s = Some (us, s')" "sClosed s"
  shows "sClosed s'"
proof -
  have "sClosed (snd (start_call f tn s))" for f tn
    using assms(2) by (simp add: start_call_def split: sum.split)
  then have "start_step ev t s = Some (us, s') \<Longrightarrow> sClosed s'"
    using assms(2)
    by (cases t) (auto simp: start_step_def on_step_def one_def start_connect_def open_conn_def start_got_def
        finish_def close_done_def upd_def split: event.splits option.splits if_splits)
  moreover have "forward_step ev t s = Some (us, s') \<Longrightarrow> sClosed s'"
    using assms(2)
    by (cases t; cases ev) (auto simp: forward_step_def on_step_def accepted_def forward_end_def upd_def
        Let_def split: option.splits if_splits)
  moreover have "monitor_step ev t s = Some (us, s') \<Longrightarrow> sClosed s'"
    using assms(2)
    by (cases t; cases ev) (auto simp: monitor_step_def on_step_def one_def select_done_def mon_drop_def
        mon_close_def mon_connect_def mon_got_def open_conn_def finish_def close_done_def upd_def
        split: option.splits if_splits)
  moreover have "control_step ev t s = Some (us, s') \<Longrightarrow> sClosed s'"
    using assms(2)
    by (cases t; cases ev) (auto simp: control_step_def on_step_def one_def close_call_def finish_def upd_def
        split: option.splits if_splits)
  ultimately show ?thesis using assms(1) by (auto simp: thread_step_def split: option.splits)
qed

fun closing :: "thread \<Rightarrow> shared \<Rightarrow> bool" where
  "closing (CloseNext is) s \<longleftrightarrow> sClosed s \<and>
     (\<forall>i n. lookup s i = Some n \<longrightarrow> i \<notin> set is \<longrightarrow> \<not> live (sHeap s ! n))"
| "closing (CloseWait m is) s \<longleftrightarrow> sClosed s \<and>
     (\<forall>i n. lookup s i = Some n \<longrightarrow> i \<notin> set is \<longrightarrow> \<not> live (sHeap s ! n))"
| "closing (CloseFinish m is) s \<longleftrightarrow> sClosed s \<and>
     (\<forall>i n. lookup s i = Some n \<longrightarrow> i \<notin> set is \<longrightarrow> n = m \<or> \<not> live (sHeap s ! n))"
| "closing _ s \<longleftrightarrow> True"

lemma lookup_upd [simp]: "lookup (upd n f s) i = lookup s i"
  by (simp add: lookup_def upd_def)

lemma finish_entry_at: "sHeap (finish n r s) = (sHeap s)[n := finish_entry r (sHeap s ! n)]"
  "lookup (finish n r s) i = lookup s i" "sClosed (finish n r s) = sClosed s"
  by (simp_all add: finish_def upd_def lookup_def)

lemma control_step_closing:
  assumes "control_step ev t s = Some (us, s')" "closing t s" "may_act t s"
  shows "\<forall>u \<in> set us. closing u s'"
proof (cases t)
  case CloseCall
  have "i \<in> fst ` set (sEntries s)" if "lookup s' i = Some n" "sEntries s' = sEntries s" for i n
    using that by (force simp: lookup_def dest: map_of_SomeD)
  with CloseCall assms(1) show ?thesis
    by (auto simp: control_step_def one_def close_call_def map_order_def split: if_splits event.splits)
next
  case (CloseNext "is")
  with assms(1,2) show ?thesis
    by (auto simp: control_step_def on_step_def close_next_def split: if_splits list.splits option.splits)
      (metis option.distinct(1) option.inject)+
next
  case (CloseFinish m "is")
  have m: "m < length (sHeap s)" using assms(3) CloseFinish by (auto simp: may_act_def)
  have "\<not> live ((sHeap s)[m := finish_entry None (sHeap s ! m)] ! n)" if "n = m \<or> \<not> live (sHeap s ! n)" for n
    using that m finish_facts(1) by (cases "n = m") (auto simp: nth_list_update)
  with CloseFinish assms(1,2) show ?thesis
    by (auto simp: control_step_def on_step_def finish_entry_at split: if_splits)
next
  case (CloseWait m "is")
  with assms(1,2) show ?thesis by (auto simp: control_step_def on_step_def split: if_splits)
next
  case (ReadyDial n c)
  with assms(1) show ?thesis
    by (cases ev) (auto simp: control_step_def ready_dial_def split: option.splits)
qed (use assms(1) in \<open>auto simp: control_step_def on_step_def stop_call_def ready_call_def
    split: if_splits option.splits\<close>)

lemma other_steps_closing:
  "start_step ev t s = Some (us, s') \<Longrightarrow> \<forall>u \<in> set us. closing u s'"
  "forward_step ev t s = Some (us, s') \<Longrightarrow> \<forall>u \<in> set us. closing u s'"
  "monitor_step ev t s = Some (us, s') \<Longrightarrow> \<forall>u \<in> set us. closing u s'"
proof -
  have "start_call f tn s = (u, s') \<Longrightarrow> closing u s'" for f tn u
    by (auto simp: start_call_def split: sum.splits if_splits option.splits)
  then show "start_step ev t s = Some (us, s') \<Longrightarrow> \<forall>u \<in> set us. closing u s'"
    by (cases t) (auto simp: start_step_def on_step_def one_def start_connect_def open_conn_def start_fail_def
        start_got_def split: event.splits option.splits if_splits)
  show "forward_step ev t s = Some (us, s') \<Longrightarrow> \<forall>u \<in> set us. closing u s'"
    by (cases t; cases ev) (auto simp: forward_step_def on_step_def accepted_def dialing_def Let_def
        split: option.splits if_splits)
  show "monitor_step ev t s = Some (us, s') \<Longrightarrow> \<forall>u \<in> set us. closing u s'"
    by (cases t; cases ev) (auto simp: monitor_step_def on_step_def one_def select_done_def mon_tick_def
        mon_probe_def mon_drop_def mon_close_def mon_connect_def mon_got_def open_conn_def
        split: option.splits if_splits)
qed

lemma thread_step_closing:
  assumes "thread_step ev t s = Some (us, s')" "closing t s" "may_act t s"
  shows "\<forall>u \<in> set us. closing u s'"
  using assms control_step_closing [OF _ assms(2,3)] other_steps_closing
  by (auto simp: thread_step_def split: option.splits)

text \<open>A change of the heap keeps what another \<open>Close\<close> knows.\<close>

lemma lookup_add: "lookup (add_entry i e s) j = (if j = i then Some (length (sHeap s)) else lookup s j)"
  by (simp add: lookup_def add_entry_def map_of_update)

lemma changes_live:
  assumes "changes_heap t s s'" "n < length (sHeap s)" "live (sHeap s' ! n)"
  shows "live (sHeap s ! n) \<and> eConfig (sHeap s' ! n) = eConfig (sHeap s ! n)"
proof -
  have "live (sHeap s ! n) \<and> eConfig (sHeap s' ! n) = eConfig (sHeap s ! n)"
    if "sHeap s' = (sHeap s)[m := e']" "eConfig e' = eConfig (sHeap s ! m)" "keeps_most (sHeap s ! m) e'" for m e'
    using that assms(2,3) keeps_live [OF that(3)] by (cases "n = m") simp_all
  then show ?thesis
    using assms keeps_all_most by (auto simp: changes_heap_def)
qed

lemma changes_lookup:
  "changes_heap t s s' \<Longrightarrow> sClosed s \<Longrightarrow> lookup s' i = lookup s i"
  by (auto simp: changes_heap_def lookup_def)

lemma closing_kept:
  assumes "changes_heap t s s'" "sClosed s \<longrightarrow> sClosed s'" "closing u s"
    and "\<forall>i n. lookup s i = Some n \<longrightarrow> n < length (sHeap s)"
  shows "closing u s'"
proof -
  have L: "\<forall>i n. sClosed s \<longrightarrow> lookup s' i = Some n \<longrightarrow>
      lookup s i = Some n \<and> (live (sHeap s' ! n) \<longrightarrow> live (sHeap s ! n))"
    using changes_live [OF assms(1)] changes_lookup [OF assms(1)] assms(4) by auto
  show ?thesis
    using assms(2,3) L by (cases u) (simp; blast)+
qed

section \<open>The invariant\<close>

definition safe :: "shared \<Rightarrow> thread list \<Rightarrow> bool" where
  "safe s ts \<longleftrightarrow>
     (\<forall>e \<in> set (sHeap s). entry_inv e)
     \<and> all_know ts s
     \<and> (\<forall>n < length (sHeap s). owners n ts = due (sHeap s ! n))
     \<and> (\<forall>n < length (sHeap s). mset (eSockets (sHeap s ! n)) = mset (socks n ts))
     \<and> distinct (held ts) \<and> set (held ts) \<subseteq> {..<length (sSocks s)}
     \<and> (\<forall>i n. lookup s i = Some n \<longrightarrow> n < length (sHeap s))
     \<and> (\<forall>n < length (sHeap s). live (sHeap s ! n) \<longrightarrow> lookup s (tID (eConfig (sHeap s ! n))) = Some n)
     \<and> (\<forall>t \<in> set ts. closing t s)"

lemma distinct_concat_disjoint:
  "distinct (concat (map f ts)) \<Longrightarrow> t \<in> set ts \<Longrightarrow> u \<in> set ts \<Longrightarrow> t \<noteq> u \<Longrightarrow> set (f t) \<inter> set (f u) = {}"
  by (induction ts) auto

lemma socks_iff: "k \<in> set (socks n ts) \<longleftrightarrow> (\<exists>t \<in> set ts. (n, k) \<in> set (fwds t))"
  by (force simp: socks_def)

lemma fwds_address: "(n, k) \<in> set (fwds t) \<Longrightarrow> address t = Some n"
  by (cases t) auto

lemma safe_may_act:
  assumes "safe s ts" "t \<in> set ts"
  shows "may_act t s"
proof -
  from assms have K: "address t = Some n \<Longrightarrow> n < length (sHeap s) \<and> knows t (sHeap s ! n)" for n
    by (auto simp: safe_def all_know_def)
  have D: "eDone (sHeap s ! n) = Some False" if "owner t = Some n" for n
  proof -
    have "owners n ts > 0" using assms(2) that by (auto simp: owners_def filter_empty_conv)
    then show ?thesis using assms(1) K [OF owner_address [OF that]] by (auto simp: safe_def due_def split: if_splits)
  qed
  have F: "k \<in> set (eSockets (sHeap s ! n))" if "(n, k) \<in> set (fwds t)" for n k
  proof -
    have "mset (eSockets (sHeap s ! n)) = mset (socks n ts)"
      using assms(1) K [OF fwds_address [OF that]] by (simp add: safe_def)
    then have "set (eSockets (sHeap s ! n)) = set (socks n ts)" by (metis set_mset_mset)
    with that assms(2) show ?thesis by (auto simp: socks_iff)
  qed
  have G: "k \<notin> set (eSockets e)" if k: "k \<in> set (got t)" and e: "e \<in> set (sHeap s)" for k e
  proof
    assume "k \<in> set (eSockets e)"
    moreover from e obtain n where n: "n < length (sHeap s)" "e = sHeap s ! n" by (auto simp: in_set_conv_nth)
    moreover have "mset (eSockets (sHeap s ! n)) = mset (socks n ts)" using assms(1) n by (simp add: safe_def)
    ultimately have "k \<in> set (socks n ts)" by (metis set_mset_mset)
    then obtain u where u: "u \<in> set ts" "(n, k) \<in> set (fwds u)" by (auto simp: socks_iff)
    with k have "t \<noteq> u" by (cases t) auto
    from distinct_concat_disjoint [OF _ assms(2) u(1) this, of "\<lambda>t. got t @ map snd (fwds t)"]
    have "set (got t @ map snd (fwds t)) \<inter> set (got u @ map snd (fwds u)) = {}"
      using assms(1) by (simp add: safe_def held_def)
    with k u(2) show False by force
  qed
  show ?thesis
    unfolding may_act_def using assms(1) K D F G by (auto simp: safe_def)
qed

lemma know_kept:
  assumes c: "changes_heap t s s'" and o: "\<And>n. owner t = Some n \<Longrightarrow> address u = Some n \<Longrightarrow> owner u = None"
    and k: "address u = Some n \<longrightarrow> n < length (sHeap s) \<and> knows u (sHeap s ! n)"
  shows "address u = Some n \<longrightarrow> n < length (sHeap s') \<and> knows u (sHeap s' ! n)"
proof
  assume a: "address u = Some n"
  with k have n: "n < length (sHeap s)" "knows u (sHeap s ! n)" by auto
  from c consider "sHeap s' = sHeap s"
    | m e' where "address t = Some m" "sHeap s' = (sHeap s)[m := e']"
        "keeps_all (sHeap s ! m) e' \<or> owner t = Some m \<and> keeps_most (sHeap s ! m) e'"
    | i e where "s' = add_entry i e s"
    unfolding changes_heap_def by blast
  then show "n < length (sHeap s') \<and> knows u (sHeap s' ! n)"
  proof cases
    case 1
    with n show ?thesis by simp
  next
    case 2
    show ?thesis
    proof (cases "n = m")
      case True
      with 2(3) o [of m] a n knows_keeps_all knows_keeps_most have "knows u e'" by blast
      with 2(2) n True show ?thesis by simp
    next
      case False
      with 2 n show ?thesis by simp
    qed
  next
    case 3
    with n show ?thesis by (simp add: add_entry_def nth_append)
  qed
qed

lemma changes_entries:
  assumes "changes_heap t s s'" "\<forall>e \<in> set (sHeap s). entry_inv e"
  shows "\<forall>e \<in> set (sHeap s'). entry_inv e"
  using assms by (auto simp: changes_heap_def add_entry_def dest!: set_update_subset_insert [THEN subsetD])

lemma changes_map:
  assumes c: "changes_heap t s s'" and h: "\<forall>e \<in> set (sHeap s). entry_inv e"
    and l: "\<forall>i n. lookup s i = Some n \<longrightarrow> n < length (sHeap s)"
    and m: "\<forall>n < length (sHeap s). live (sHeap s ! n) \<longrightarrow> lookup s (tID (eConfig (sHeap s ! n))) = Some n"
  shows "(\<forall>i n. lookup s' i = Some n \<longrightarrow> n < length (sHeap s')) \<and>
    (\<forall>n < length (sHeap s'). live (sHeap s' ! n) \<longrightarrow> lookup s' (tID (eConfig (sHeap s' ! n))) = Some n)"
proof -
  from c have "length (sHeap s') = length (sHeap s) \<and> sEntries s' = sEntries s
    \<or> (\<exists>tn e. s' = add_entry (tID tn) e s \<and> busy s (tID tn) = None \<and> (live e \<longrightarrow> eConfig e = tn))"
    unfolding changes_heap_def
    by (elim disjE exE conjE) (simp, simp, simp, blast)
  then show ?thesis
  proof (elim disjE exE conjE)
    assume "length (sHeap s') = length (sHeap s)" "sEntries s' = sEntries s"
    with l m changes_live [OF c] show ?thesis by (auto simp: lookup_def)
  next
    fix tn e
    assume s': "s' = add_entry (tID tn) e s" and b: "busy s (tID tn) = None"
      and e: "live e \<longrightarrow> eConfig e = tn"
  have free: "\<not> live (sHeap s ! n)" if "lookup s (tID tn) = Some n" "entry_inv (sHeap s ! n)" for n
    using b that by (auto simp: busy_def Let_def entry_inv_def active_def split: if_splits)
  show ?thesis
  proof (intro conjI allI impI)
    show "n < length (sHeap s')" if "lookup s' i = Some n" for i n
      using that l by (auto simp: s' lookup_add less_Suc_eq split: if_splits)
    fix n
    assume n: "n < length (sHeap s')" "live (sHeap s' ! n)"
    show "lookup s' (tID (eConfig (sHeap s' ! n))) = Some n"
    proof (cases "n = length (sHeap s)")
      case True
      with n e show ?thesis by (simp add: s' lookup_add) (simp add: add_entry_def)
    next
      case False
      with n have o: "n < length (sHeap s)" "live (sHeap s ! n)" "sHeap s' ! n = sHeap s ! n"
        by (auto simp: s' add_entry_def nth_append split: if_splits)
      with m have k: "lookup s (tID (eConfig (sHeap s ! n))) = Some n" by blast
      have "tID (eConfig (sHeap s ! n)) \<noteq> tID tn"
      proof
        assume "tID (eConfig (sHeap s ! n)) = tID tn"
        with k free [of n] h o show False by simp
      qed
      with k o show ?thesis by (simp add: s' lookup_add)
    qed
  qed
  qed
qed

lemma safe_call: "safe s ts \<Longrightarrow> api_call t \<Longrightarrow> safe s (ts @ [t])"
  by (cases t) (auto simp: safe_def api_call_def)

lemma owners_pos: "t \<in> set ts \<Longrightarrow> owner t = Some n \<Longrightarrow> 0 < owners n ts"
  by (auto simp: owners_def filter_empty_conv)

lemma due_le: "due e \<le> 1"
  by (simp add: due_def)

lemma fresh_socks: "all_know ts s \<Longrightarrow> length (sHeap s) \<le> n \<Longrightarrow> socks n ts = []"
proof -
  assume a: "all_know ts s" "length (sHeap s) \<le> n"
  have "k \<notin> set (socks n ts)" for k
    using a fwds_address [of n k] by (force simp: socks_iff all_know_def)
  then show ?thesis by (metis list.set_intros(1) neq_Nil_conv)
qed

lemma fresh_owners:
  assumes "all_know ts s" "length (sHeap s) \<le> n"
  shows "owners n ts = 0"
proof -
  have "owner t \<noteq> Some n" if "t \<in> set ts" for t
  proof
    assume "owner t = Some n"
    from owner_address [OF this] assms that show False by (auto simp: all_know_def)
  qed
  then show ?thesis by (simp add: owners_def filter_empty_conv)
qed

lemma distinct_submset:
  assumes "mset as \<subseteq># mset bs" "distinct bs"
  shows "distinct as"
proof -
  obtain c where "mset bs = mset as + c" using assms(1) by (metis mset_subset_eq_exists_conv)
  moreover obtain cs where "mset cs = c" using ex_mset by blast
  ultimately have "mset bs = mset (as @ cs)" by simp
  with assms(2) have "distinct (as @ cs)" using mset_eq_imp_distinct_iff by blast
  then show ?thesis by simp
qed

lemma held_step:
  assumes "moves_sockets t us s s'" "distinct (held (xs @ t # ys))"
    "set (held (xs @ t # ys)) \<subseteq> {..<length (sSocks s)}"
  shows "distinct (held (xs @ us @ ys)) \<and> set (held (xs @ us @ ys)) \<subseteq> {..<length (sSocks s')}"
proof -
  from assms(1) consider "held us = [length (sSocks s)]" "held [t] = []"
      "length (sSocks s') = Suc (length (sSocks s))"
    | "mset (held us) \<subseteq># mset (held [t])" "length (sSocks s') = length (sSocks s)"
    unfolding moves_sockets_def by blast
  then show ?thesis
  proof cases
    case 1
    with assms(2,3) show ?thesis by (auto simp: less_Suc_eq)
  next
    case 2
    have "mset (held (xs @ us @ ys)) \<subseteq># mset (held (xs @ t # ys))"
      using 2(1) by (simp add: subset_mset.add_mono)
    then have "distinct (held (xs @ us @ ys))" using assms(2) by (rule distinct_submset)
    moreover have "set (held (xs @ us @ ys)) \<subseteq> set (held (xs @ t # ys))"
      using \<open>mset (held (xs @ us @ ys)) \<subseteq># mset (held (xs @ t # ys))\<close> by (metis set_mset_mono set_mset_mset)
    ultimately show ?thesis using assms(3) 2(2) by (metis subset_trans)
  qed
qed

theorem safe_run:
  assumes S: "safe s (xs @ t # ys)" and st: "thread_step ev t s = Some (us, s')"
  shows "safe s' (xs @ us @ ys)"
proof -
  let ?ts = "xs @ t # ys" and ?us = "xs @ us @ ys"
  have A: "may_act t s" by (rule safe_may_act [OF S]) simp
  note C = thread_step_changes [OF st A] and H = thread_step_hands [OF st A, unfolded hands_on_def]
    and M = thread_step_sockets [OF st A] and K = thread_step_knows [OF st A]
  from S have heap: "\<forall>e \<in> set (sHeap s). entry_inv e" and know: "all_know ?ts s"
    and own: "\<forall>n < length (sHeap s). owners n ?ts = due (sHeap s ! n)"
    and sock: "\<forall>n < length (sHeap s). mset (eSockets (sHeap s ! n)) = mset (socks n ?ts)"
    and hd: "distinct (held ?ts)" "set (held ?ts) \<subseteq> {..<length (sSocks s)}"
    and look: "\<forall>i n. lookup s i = Some n \<longrightarrow> n < length (sHeap s)"
    and map: "\<forall>n < length (sHeap s). live (sHeap s ! n) \<longrightarrow> lookup s (tID (eConfig (sHeap s ! n))) = Some n"
    and cl: "\<forall>u \<in> set ?ts. closing u s"
    by (simp_all add: safe_def)
  have alone: "owner u = None" if u: "u \<in> set xs \<union> set ys" and o: "owner t = Some n" "address u = Some n" for u n
  proof (rule ccontr)
    assume "owner u \<noteq> None"
    with o(2) have "owner u = Some n" using owner_address by fastforce
    with u have "0 < owners n xs + owners n ys" using owners_pos [of u xs n] owners_pos [of u ys n] by auto
    moreover have "n < length (sHeap s)" using know owner_address [OF o(1)] by simp
    with own o(1) have "Suc (owners n xs + owners n ys) \<le> 1" using due_le [of "sHeap s ! n"] by fastforce
    ultimately show False by simp
  qed
  have others: "all_know xs s' \<and> all_know ys s'"
    unfolding all_know_def
  proof (intro conjI ballI allI)
    show "address u = Some n \<longrightarrow> n < length (sHeap s') \<and> knows u (sHeap s' ! n)" if "u \<in> set xs" for u n
      by (rule know_kept [OF C]) (use alone that know in \<open>auto simp: all_know_def\<close>)
    show "address u = Some n \<longrightarrow> n < length (sHeap s') \<and> knows u (sHeap s' ! n)" if "u \<in> set ys" for u n
      by (rule know_kept [OF C]) (use alone that know in \<open>auto simp: all_know_def\<close>)
  qed
  have own': "owners n ?us = due (sHeap s' ! n)" if n: "n < length (sHeap s')" for n
  proof (cases "n < length (sHeap s)")
    case True
    with own have "owners n xs + owners n [t] + owners n ys = due (sHeap s ! n)" by auto
    moreover have "owners n us + due (sHeap s ! n) = owners n [t] + due (sHeap s' ! n)" using H True by blast
    ultimately show ?thesis unfolding owners_simps(3) by linarith
  next
    case False
    have "owners n xs = 0" "owners n ys = 0"
      using fresh_owners [of _ s n] know False by auto
    with H n False show ?thesis by simp
  qed
  have sock': "mset (eSockets (sHeap s' ! n)) = mset (socks n ?us)" if n: "n < length (sHeap s')" for n
  proof (cases "n < length (sHeap s)")
    case True
    with M sock have "mset (eSockets (sHeap s' ! n)) + mset (socks n [t])
        = (mset (socks n xs) + mset (socks n [t]) + mset (socks n ys)) + mset (socks n us)"
      unfolding moves_sockets_def by simp
    then show ?thesis by simp
  next
    case False
    with C n have "eSockets (sHeap s' ! n) = []"
      unfolding changes_heap_def
      by (auto simp: add_entry_def nth_append less_Suc_eq)
    moreover have "socks n ?us = []"
    proof -
      have "socks n xs = []" "socks n ys = []"
        using fresh_socks [of _ s n] know False by auto
      moreover have "t = StartCall tn \<Longrightarrow> socks n us = []" for tn
        using st by (auto simp: step_defs piece_defs split: event.splits option.splits sum.splits if_splits)
      ultimately show ?thesis using C n False unfolding changes_heap_def by auto
    qed
    ultimately show ?thesis by simp
  qed
  have cl': "closing u s'" if "u \<in> set ?us" for u
  proof (cases "u \<in> set us")
    case True
    with thread_step_closing [OF st _ A] cl show ?thesis by auto
  next
    case False
    with that cl have "closing u s" by auto
    with closing_kept [OF C _ this look] thread_step_closed [OF st] show ?thesis by blast
  qed
  show ?thesis
    unfolding safe_def
    using changes_entries [OF C heap] others K own' sock' held_step [OF M hd] changes_map [OF C heap look map] cl'
    by simp
qed

lemma safe_init: "safe (init_shared container) []"
  by (simp add: safe_def init_shared_def lookup_def)

theorem reachable_safe: "reachable container w \<Longrightarrow> safe (wShared w) (wThreads w)"
proof (induction rule: reachable.induct)
  case reach_init
  then show ?case by (simp add: safe_init)
next
  case (reach_step w w')
  from reach_step.hyps(2) reach_step.IH show ?case
    by (cases rule: step.cases) (auto intro: safe_call safe_run)
qed

end
