(* ===== verification/TunnelLive.thy ===== *)
theory TunnelLive
  imports TunnelSafety
begin

text \<open>
  No connection of the tunnel manager leaks, and nothing that waits for a tunnel's end waits
  forever: whatever state is reached, the goroutine in charge of a stopped tunnel can close its
  \<open>done\<close> channel by steps of its own.
\<close>

section \<open>Connections\<close>

fun keeps :: "thread \<Rightarrow> nat list" where
  "keeps (StartGot _ c) = [c]"
| "keeps (StartDiscard _ c) = [c]"
| "keeps (MonClose _ c _) = [c]"
| "keeps (MonGot _ c) = [c]"
| "keeps _ = []"

definition in_entry :: "nat \<Rightarrow> shared \<Rightarrow> bool" where
  "in_entry c s \<longleftrightarrow> (\<exists>n < length (sHeap s). eConn (sHeap s ! n) = Some c)"

definition kept :: "thread list \<Rightarrow> nat \<Rightarrow> bool" where
  "kept ts c \<longleftrightarrow> (\<exists>t \<in> set ts. c \<in> set (keeps t))"

lemma kept_simps [simp]:
  "\<not> kept [] c" "kept (t # ts) c \<longleftrightarrow> c \<in> set (keeps t) \<or> kept ts c" "kept (ts @ us) c \<longleftrightarrow> kept ts c \<or> kept us c"
  by (auto simp: kept_def)

definition is_open :: "nat \<Rightarrow> shared \<Rightarrow> bool" where
  "is_open c s \<longleftrightarrow> c < length (sConns s) \<and> sConns s ! c"

definition no_leak :: "shared \<Rightarrow> thread list \<Rightarrow> bool" where
  "no_leak s ts \<longleftrightarrow> (\<forall>c. is_open c s \<longrightarrow> in_entry c s \<or> kept ts c)"

text \<open>A step passes each open connection on.\<close>

definition passes :: "thread \<Rightarrow> thread list \<Rightarrow> shared \<Rightarrow> shared \<Rightarrow> bool" where
  "passes t us s s' \<longleftrightarrow>
     (\<forall>c. is_open c s' \<longrightarrow> kept us c \<or> in_entry c s' \<or>
        is_open c s \<and> c \<notin> set (keeps t) \<and> \<not> in_entry c s)"

lemma conn_simps [simp]:
  "eConn (set_error m e) = eConn e" "eConn (add_socket k e) = eConn e" "eConn (del_socket k e) = eConn e"
  "eConn (run_entry c now e) = Some c" "eConn (rerun_entry c now e) = Some c"
  "eConn (drop_entry x e) = None" "eConn (finish_entry r e) = None"
  by (auto simp: entry_simps split: option.split)

lemma is_open_simps [simp]:
  "is_open c (close_socks ks s) = is_open c s" "is_open c (upd n f s) = is_open c s"
  "is_open c (close_conn None s) = is_open c s"
  "is_open c (close_conn (Some d) s) \<longleftrightarrow> c \<noteq> d \<and> is_open c s"
  "is_open c (add_entry i e s) = is_open c s"
  by (cases "d < length (sConns s)";
      auto simp: is_open_def upd_def close_conn_def add_entry_def nth_list_update list_update_beyond)+

lemma is_open_new: "is_open c (s\<lparr>sConns := sConns s @ [True]\<rparr>) \<longleftrightarrow> c = length (sConns s) \<or> is_open c s"
  by (auto simp: is_open_def nth_append less_Suc_eq)

lemma in_entry_simps [simp]:
  "in_entry c (close_socks ks s) = in_entry c s" "in_entry c (close_conn d s) = in_entry c s"
  "in_entry c (s\<lparr>sConns := bs\<rparr>) = in_entry c s" "in_entry c (s\<lparr>sClosed := b\<rparr>) = in_entry c s"
  "in_entry c (s\<lparr>sSocks := bs\<rparr>) = in_entry c s"
  by (simp_all add: in_entry_def)

lemma in_entry_upd:
  "n < length (sHeap s) \<Longrightarrow> in_entry c (upd n f s) \<longleftrightarrow>
     eConn (f (sHeap s ! n)) = Some c \<or> (\<exists>m < length (sHeap s). m \<noteq> n \<and> eConn (sHeap s ! m) = Some c)"
  by (auto simp: in_entry_def upd_def nth_list_update)

lemma in_entry_same:
  "eConn (f (sHeap s ! n)) = eConn (sHeap s ! n) \<Longrightarrow> n < length (sHeap s) \<Longrightarrow>
     in_entry c (upd n f s) = in_entry c s"
  by (auto simp: in_entry_upd) (auto simp: in_entry_def)

lemma in_entry_finish:
  assumes "n < length (sHeap s)" "is_open c (finish n r s)" "in_entry c s"
  shows "in_entry c (finish n r s)"
proof -
  have "eConn (sHeap s ! n) \<noteq> Some c" using assms(2) by (auto simp: finish_def)
  with assms(3) obtain m where "m < length (sHeap s)" "m \<noteq> n" "eConn (sHeap s ! m) = Some c"
    by (auto simp: in_entry_def)
  then show ?thesis using assms(1) by (auto simp: finish_def in_entry_upd)
qed

lemma is_open_finish: "is_open c (finish n r s) \<Longrightarrow> is_open c s"
  by (cases "eConn (sHeap s ! n)") (auto simp: finish_def)

lemma passes_same:
  "(\<And>c. is_open c s' \<Longrightarrow> is_open c s) \<Longrightarrow> (\<And>c. in_entry c s \<Longrightarrow> is_open c s' \<Longrightarrow> in_entry c s') \<Longrightarrow>
     (\<And>c. c \<in> set (keeps t) \<Longrightarrow> is_open c s' \<Longrightarrow> kept us c) \<Longrightarrow> passes t us s s'"
  unfolding passes_def by blast

lemma start_step_passes:
  assumes "start_step ev t s = Some (us, s')" "may_act t s"
  shows "passes t us s s'"
proof (cases t)
  case (StartCall tn)
  have "in_entry c s \<Longrightarrow> in_entry c (add_entry i e s)" for c i e
    by (auto simp: in_entry_def add_entry_def nth_append less_Suc_eq)
  then have "start_call f tn s = (u, s') \<Longrightarrow> passes t [u] s s'" for f u
    using StartCall
    by (intro passes_same) (auto simp: start_call_def split: sum.splits if_splits option.splits)
  with StartCall assms(1) show ?thesis
    by (auto simp: start_step_def one_def split: event.splits)
next
  case (StartConnect n)
  with assms(1) show ?thesis
    by (auto simp: start_step_def one_def start_connect_def open_conn_def passes_def is_open_new
        split: event.splits option.splits)
next
  case (StartGot n c)
  have n: "n < length (sHeap s)" "entry_inv (sHeap s ! n)" "in_state Connecting (sHeap s ! n)"
    "eDone (sHeap s ! n) = Some False"
    using assms(2) StartGot by (auto simp: may_act_def)
  show ?thesis
  proof (cases "cancelled (sHeap s ! n)")
    case True
    with StartGot assms(1) show ?thesis
      by (auto simp: start_step_def start_got_def passes_def split: event.splits)
  next
    case False
    then have "live (sHeap s ! n)" using n live_or_cancelled by blast
    with n have "eConn (sHeap s ! n) = None" by (auto simp: entry_inv_def)
    then have "in_entry d s \<Longrightarrow> in_entry d (upd n (run_entry c now) s)" for d now
      using n by (auto simp: in_entry_upd) (auto simp: in_entry_def)
    then show ?thesis using n
      using StartGot assms(1) False
      by (auto simp: start_step_def start_got_def passes_def in_entry_upd split: event.splits)
  qed
next
  case (StartFinish n r x)
  with assms have "n < length (sHeap s)" by (auto simp: may_act_def)
  with StartFinish assms(1) show ?thesis
    by (auto simp: start_step_def on_step_def split: if_splits
        intro!: passes_same intro: is_open_finish in_entry_finish)
next
  case (StartDone n x)
  with assms have "n < length (sHeap s)" by (auto simp: may_act_def)
  with StartDone assms(1) show ?thesis
    by (auto simp: start_step_def on_step_def close_done_def in_entry_same split: if_splits intro!: passes_same)
qed (use assms(1) in \<open>auto simp: start_step_def on_step_def one_def start_fail_def passes_def split: if_splits\<close>)

lemma forward_step_passes:
  assumes "forward_step ev t s = Some (us, s')" "may_act t s"
  shows "passes t us s s'"
proof (cases t)
  case (Accepting n)
  with assms(1) show ?thesis
    by (auto simp: forward_step_def passes_def is_open_def split: if_splits)
next
  case (Accepted n k)
  with assms have "n < length (sHeap s)" by (auto simp: may_act_def)
  with Accepted assms(1) show ?thesis
    by (auto simp: forward_step_def on_step_def accepted_def Let_def in_entry_same
        split: if_splits option.splits intro!: passes_same)
next
  case (Dialing n c k)
  with assms(1) show ?thesis by (cases ev) (auto simp: forward_step_def passes_def)
next
  case (DialFailed n k x)
  with assms have "n < length (sHeap s)" by (auto simp: may_act_def)
  with DialFailed assms(1) show ?thesis
    by (auto simp: forward_step_def on_step_def in_entry_same split: if_splits intro!: passes_same)
next
  case (ForwardEnd n k)
  with assms have "n < length (sHeap s)" by (auto simp: may_act_def)
  with ForwardEnd assms(1) show ?thesis
    by (auto simp: forward_step_def on_step_def forward_end_def in_entry_same split: if_splits intro!: passes_same)
qed (use assms(1) in \<open>auto simp: forward_step_def on_step_def passes_def split: if_splits\<close>)

lemma monitor_step_passes:
  assumes "monitor_step ev t s = Some (us, s')" "may_act t s"
  shows "passes t us s s'"
proof (cases t)
  case (MonTick n m)
  with assms(1) show ?thesis by (auto simp: monitor_step_def select_done_def passes_def split: if_splits)
next
  case (MonProbe n c m)
  with assms(1) show ?thesis by (cases ev) (auto simp: monitor_step_def select_done_def passes_def split: if_splits)
next
  case (MonDrop n c x)
  have n: "n < length (sHeap s)" "entry_inv (sHeap s ! n)" "live (sHeap s ! n) \<longrightarrow> eConn (sHeap s ! n) = Some c"
    "eDone (sHeap s ! n) = Some False"
    using assms(2) MonDrop by (auto simp: may_act_def)
  show ?thesis
  proof (cases "cancelled (sHeap s ! n)")
    case True
    with MonDrop assms(1) show ?thesis
      by (auto simp: monitor_step_def one_def mon_drop_def passes_def split: if_splits)
  next
    case False
    then have "eConn (sHeap s ! n) = Some c" using n live_or_cancelled by blast
    then have D: "\<forall>d ks. in_entry d s \<longrightarrow> d = c \<or> in_entry d (upd n (drop_entry x) (close_socks ks s))"
      using n by (auto simp: in_entry_upd) (auto simp: in_entry_def)
    have "us = [MonClose n c x]" "s' = upd n (drop_entry x) (close_socks (eSockets (sHeap s ! n)) s)"
      using MonDrop assms(1) False by (auto simp: monitor_step_def one_def mon_drop_def split: if_splits)
    with D MonDrop show ?thesis by (auto simp: passes_def)
  qed
next
  case (MonClose n c x)
  with assms(1) show ?thesis
    by (auto simp: monitor_step_def one_def mon_close_def passes_def split: if_splits)
next
  case (MonFinish n x)
  with assms have "n < length (sHeap s)" by (auto simp: may_act_def)
  with MonFinish assms(1) show ?thesis
    by (auto simp: monitor_step_def on_step_def split: if_splits
        intro!: passes_same intro: is_open_finish in_entry_finish)
next
  case (MonBackoff n b)
  with assms(1) show ?thesis by (auto simp: monitor_step_def select_done_def passes_def split: if_splits)
next
  case (MonConnect n b)
  with assms(1) show ?thesis
    by (auto simp: monitor_step_def one_def mon_connect_def open_conn_def passes_def is_open_new
        split: event.splits option.splits)
next
  case (MonFailed n b x)
  with assms have "n < length (sHeap s)" by (auto simp: may_act_def)
  with MonFailed assms(1) show ?thesis
    by (auto simp: monitor_step_def on_step_def in_entry_same split: if_splits intro!: passes_same)
next
  case (MonGot n c)
  have n: "n < length (sHeap s)" "entry_inv (sHeap s ! n)" "in_state Reconnecting (sHeap s ! n)"
    "eDone (sHeap s ! n) = Some False"
    using assms(2) MonGot by (auto simp: may_act_def)
  show ?thesis
  proof (cases "cancelled (sHeap s ! n)")
    case True
    with MonGot assms(1) show ?thesis
      by (auto simp: monitor_step_def one_def mon_got_def passes_def split: event.splits)
  next
    case False
    then have "live (sHeap s ! n)" using n live_or_cancelled by blast
    with n have "eConn (sHeap s ! n) = None" by (auto simp: entry_inv_def)
    then have "in_entry d s \<Longrightarrow> in_entry d (upd n (rerun_entry c now) s)" for d now
      using n by (auto simp: in_entry_upd) (auto simp: in_entry_def)
    then show ?thesis using n
      using MonGot assms(1) False
      by (auto simp: monitor_step_def one_def mon_got_def passes_def in_entry_upd split: event.splits)
  qed
next
  case (MonEnd n)
  with assms have "n < length (sHeap s)" by (auto simp: may_act_def)
  with MonEnd assms(1) show ?thesis
    by (auto simp: monitor_step_def on_step_def close_done_def in_entry_same split: if_splits intro!: passes_same)
qed (use assms(1) in \<open>auto simp: monitor_step_def\<close>)

lemma control_step_passes:
  assumes "control_step ev t s = Some (us, s')" "may_act t s"
  shows "passes t us s s'"
proof (cases t)
  case (StopFinish n)
  with assms have "n < length (sHeap s)" by (auto simp: may_act_def)
  with StopFinish assms(1) show ?thesis
    by (auto simp: control_step_def on_step_def split: if_splits
        intro!: passes_same intro: is_open_finish in_entry_finish)
next
  case CloseCall
  with assms(1) show ?thesis
    by (auto simp: control_step_def one_def close_call_def passes_def is_open_def split: if_splits event.splits)
next
  case (CloseFinish n "is")
  with assms have "n < length (sHeap s)" by (auto simp: may_act_def)
  with CloseFinish assms(1) show ?thesis
    by (auto simp: control_step_def on_step_def split: if_splits
        intro!: passes_same intro: is_open_finish in_entry_finish)
next
  case (ReadyDial n c)
  with assms(1) show ?thesis by (cases ev) (auto simp: control_step_def passes_def)
next
  case (ReadyFailed n x)
  with assms have "n < length (sHeap s)" by (auto simp: may_act_def)
  with ReadyFailed assms(1) show ?thesis
    by (auto simp: control_step_def on_step_def in_entry_same split: if_splits intro!: passes_same)
qed (use assms(1) in \<open>auto simp: control_step_def on_step_def passes_def split: if_splits\<close>)

lemma thread_step_passes:
  "thread_step ev t s = Some (us, s') \<Longrightarrow> may_act t s \<Longrightarrow> passes t us s s'"
  by (auto simp: thread_step_def split: option.splits dest: start_step_passes forward_step_passes
      monitor_step_passes control_step_passes)

theorem reachable_no_leak: "reachable container w \<Longrightarrow> no_leak (wShared w) (wThreads w)"
proof (induction rule: reachable.induct)
  case reach_init
  then show ?case by (simp add: no_leak_def init_shared_def is_open_def)
next
  case (reach_step w w')
  note S = reachable_safe [OF reach_step.hyps(1)]
  from reach_step.hyps(2) show ?case
  proof (cases rule: step.cases)
    case (step_call t s ts)
    with reach_step.IH show ?thesis by (auto simp: no_leak_def)
  next
    case (step_run ev t s us s' xs ys)
    have "may_act t s" by (rule safe_may_act [where ts = "xs @ t # ys"]) (use S step_run in auto)
    from thread_step_passes [OF step_run(3) this] reach_step.IH show ?thesis
      unfolding step_run(1,2) by (auto simp: no_leak_def passes_def)
  qed
qed

section \<open>The end of a stopped tunnel\<close>

text \<open>How many steps the goroutine in charge of a cancelled entry is from closing \<open>done\<close>.\<close>

fun weight :: "thread \<Rightarrow> nat" where
  "weight (StartConnect _) = 3"
| "weight (StartGot _ _) = 3"
| "weight (StartFail _ _) = 2"
| "weight (StartDiscard _ _) = 2"
| "weight (StartFinish _ _ _) = 1"
| "weight (MonConnect _ _) = 2"
| "weight (MonFailed _ _ _) = 2"
| "weight (MonClose _ _ _) = 2"
| "weight (MonTick _ _) = 1"
| "weight (MonProbe _ _ _) = 1"
| "weight (MonDrop _ _ _) = 1"
| "weight (MonFinish _ _) = 1"
| "weight (MonBackoff _ _) = 1"
| "weight (MonGot _ _) = 1"
| "weight _ = 0"

definition advances :: "nat \<Rightarrow> thread \<Rightarrow> shared \<Rightarrow> bool" where
  "advances n t s \<longleftrightarrow>
     (\<exists>ev us s'. thread_step ev t s = Some (us, s') \<and>
        (eDone (sHeap s' ! n) = Some True
         \<or> cancelled (sHeap s' ! n) \<and> (\<exists>u. us = [u] \<and> owner u = Some n \<and> weight u < weight t)))"

lemma advancesI:
  "thread_step ev t s = Some ([u], s') \<Longrightarrow> cancelled (sHeap s' ! n) \<Longrightarrow> owner u = Some n \<Longrightarrow>
     weight u < weight t \<Longrightarrow> advances n t s"
  unfolding advances_def by blast

lemma advances_done:
  "thread_step ev t s = Some (us, s') \<Longrightarrow> eDone (sHeap s' ! n) = Some True \<Longrightarrow> advances n t s"
  unfolding advances_def by blast

lemma cancelled_finish: "n < length (sHeap s) \<Longrightarrow> cancelled (sHeap s ! n) \<Longrightarrow> cancelled (sHeap (finish n r s) ! n)"
  by (simp add: finish_entry_at finish_facts(2) cancelled_def [of "sHeap s ! n"])

lemma owner_advances:
  assumes "owner t = Some n" "cancelled (sHeap s ! n)" "n < length (sHeap s)"
  shows "advances n t s"
proof (cases t)
  case (StartConnect m)
  with assms show ?thesis
    by (intro advancesI [where ev = "SshConnect (\<lambda>_. Some (NetErr Canceled))" and u = "StartFail n (NetErr Canceled)"])
       (simp_all add: step_defs start_connect_def)
next
  case (StartFail m x)
  with assms show ?thesis
    by (intro advancesI [where ev = Step and u = "StartFinish n None x"]) (simp_all add: step_defs start_fail_def)
next
  case (StartGot m c)
  with assms show ?thesis
    by (intro advancesI [where ev = "At []" and u = "StartDiscard n c"]) (simp_all add: step_defs start_got_def)
next
  case (StartDiscard m c)
  with assms show ?thesis
    by (intro advancesI [where ev = Step and u = "StartFinish n None (NetErr Canceled)" and s' = "close_conn (Some c) s"])
       (simp_all add: step_defs)
next
  case (StartFinish m r x)
  with assms show ?thesis
    by (intro advancesI [where ev = Step and u = "StartDone n x" and s' = "finish n r s"])
       (simp_all add: step_defs cancelled_finish)
next
  case (StartDone m x)
  with assms show ?thesis
    by (intro advances_done [where ev = Step and s' = "close_done n s"]) (simp_all add: step_defs close_done_def upd_def)
next
  case (MonTick m k)
  with assms show ?thesis
    by (intro advancesI [where ev = CtxDone and u = "MonEnd n"]) (simp_all add: step_defs)
next
  case (MonProbe m c k)
  with assms show ?thesis
    by (intro advancesI [where ev = CtxDone and u = "MonEnd n"]) (simp_all add: step_defs)
next
  case (MonDrop m c x)
  with assms show ?thesis
    by (intro advancesI [where ev = Step and u = "MonEnd n"]) (simp_all add: step_defs mon_drop_def)
next
  case (MonClose m c x)
  with assms show ?thesis
    by (cases "tAutoReconnect (eConfig (sHeap s ! n))")
       (auto simp: step_defs mon_close_def intro!: advancesI [where ev = Step])
next
  case (MonFinish m x)
  with assms show ?thesis
    by (intro advancesI [where ev = Step and u = "MonEnd n" and s' = "finish n (Some x) s"])
       (simp_all add: step_defs cancelled_finish)
next
  case (MonBackoff m b)
  with assms show ?thesis
    by (intro advancesI [where ev = CtxDone and u = "MonEnd n"]) (simp_all add: step_defs)
next
  case (MonConnect m b)
  with assms show ?thesis
    by (intro advancesI [where ev = "SshConnect (\<lambda>_. None)" and u = "MonGot n (length (sConns s))"
          and s' = "s\<lparr>sConns := sConns s @ [True]\<rparr>"])
       (simp_all add: step_defs mon_connect_def open_conn_def)
next
  case (MonFailed m b x)
  with assms show ?thesis
    by (intro advancesI [where ev = Step and u = "MonBackoff n (next_backoff b)"
          and s' = "upd n (set_error (ConnMessage x)) s"])
       (simp_all add: step_defs upd_def cancelled_def set_error_def)
next
  case (MonGot m c)
  with assms show ?thesis
    by (intro advancesI [where ev = "At []" and u = "MonEnd n" and s' = "close_conn (Some c) s"])
       (simp_all add: step_defs mon_got_def)
next
  case (MonEnd m)
  with assms show ?thesis
    by (intro advances_done [where ev = Step and s' = "close_done n s"]) (simp_all add: step_defs close_done_def upd_def)
qed (use assms(1) in simp_all)

lemma drain:
  assumes "safe s (xs @ t # ys)" "owner t = Some n" "cancelled (sHeap s ! n)"
  shows "\<exists>w'. step\<^sup>*\<^sup>* \<lparr>wShared = s, wThreads = xs @ t # ys\<rparr> w' \<and> eDone (sHeap (wShared w') ! n) = Some True"
  using assms
proof (induction "weight t" arbitrary: t s rule: less_induct)
  case less
  have n: "n < length (sHeap s)"
    using less.prems(1) owner_address [OF less.prems(2)] by (simp add: safe_def)
  from owner_advances [OF less.prems(2,3) n] obtain ev us s' where
    st: "thread_step ev t s = Some (us, s')"
    and alt: "eDone (sHeap s' ! n) = Some True
      \<or> cancelled (sHeap s' ! n) \<and> (\<exists>u. us = [u] \<and> owner u = Some n \<and> weight u < weight t)"
    unfolding advances_def by blast
  have one: "step \<lparr>wShared = s, wThreads = xs @ t # ys\<rparr> \<lparr>wShared = s', wThreads = xs @ us @ ys\<rparr>"
    by (rule step_run [OF st])
  from alt show ?case
  proof (elim disjE conjE exE)
    assume "eDone (sHeap s' ! n) = Some True"
    with one show ?thesis by (intro exI [of _ "\<lparr>wShared = s', wThreads = xs @ us @ ys\<rparr>"]) auto
  next
    fix u
    assume u: "cancelled (sHeap s' ! n)" "us = [u]" "owner u = Some n" "weight u < weight t"
    from safe_run [OF less.prems(1) st] u(2) have "safe s' (xs @ u # ys)" by simp
    from less.hyps [OF u(4) this u(3,1)] obtain w' where
      "step\<^sup>*\<^sup>* \<lparr>wShared = s', wThreads = xs @ u # ys\<rparr> w'" "eDone (sHeap (wShared w') ! n) = Some True"
      by blast
    with one u(2) show ?thesis by (auto intro: converse_rtranclp_into_rtranclp)
  qed
qed

lemma waiting_ends:
  assumes "reachable container w" "n < length (sHeap (wShared w))" "\<not> live (sHeap (wShared w) ! n)"
  shows "\<exists>w'. step\<^sup>*\<^sup>* w w' \<and> done_passed n (wShared w')"
proof (cases "eDone (sHeap (wShared w) ! n) = Some False")
  case False
  then show ?thesis by (auto simp: done_passed_def)
next
  case True
  note S = reachable_safe [OF assms(1)]
  then have "owners n (wThreads w) = 1" using True assms(2) by (simp add: safe_def due_def)
  then obtain t where t: "t \<in> set (wThreads w)" "owner t = Some n"
    by (force simp: owners_def length_Suc_conv filter_eq_Cons_iff)
  then obtain xs ys where ts: "wThreads w = xs @ t # ys" by (meson split_list)
  have "cancelled (sHeap (wShared w) ! n)"
    using live_or_cancelled [of "sHeap (wShared w) ! n"] S assms(2,3) True by (auto simp: safe_def)
  from drain [OF S [unfolded ts] t(2) this] obtain w' where
    "step\<^sup>*\<^sup>* \<lparr>wShared = wShared w, wThreads = xs @ t # ys\<rparr> w'" "eDone (sHeap (wShared w') ! n) = Some True"
    by blast
  moreover have "\<lparr>wShared = wShared w, wThreads = xs @ t # ys\<rparr> = w" using ts by (cases w) simp
  ultimately show ?thesis by (auto simp: done_passed_def)
qed

section \<open>What steps preserve\<close>

lemma step_shared:
  assumes "reachable container w" "step w w'"
  shows "wShared w' = wShared w \<or>
    (\<exists>t. changes_heap t (wShared w) (wShared w') \<and> (sClosed (wShared w) \<longrightarrow> sClosed (wShared w')))"
  using assms(2)
proof (cases rule: step.cases)
  case (step_run ev t s us s' xs ys)
  have "may_act t s"
    by (rule safe_may_act [where ts = "xs @ t # ys"]) (use reachable_safe [OF assms(1)] step_run in auto)
  with step_run thread_step_changes thread_step_closed show ?thesis by fastforce
qed simp

lemma reachable_steps: "step\<^sup>*\<^sup>* w w' \<Longrightarrow> reachable container w \<Longrightarrow> reachable container w'"
  by (induction rule: rtranclp.induct) (auto intro: reach_step)

lemma heap_grows: "changes_heap t s s' \<Longrightarrow> length (sHeap s) \<le> length (sHeap s')"
  by (auto simp: changes_heap_def)

lemma dead_stays:
  assumes "step\<^sup>*\<^sup>* w w'" "reachable container w" "n < length (sHeap (wShared w))" "\<not> live (sHeap (wShared w) ! n)"
  shows "n < length (sHeap (wShared w')) \<and> \<not> live (sHeap (wShared w') ! n)"
  using assms
proof (induction rule: rtranclp.induct)
  case (rtrancl_into_rtrancl a b c)
  then have IH: "n < length (sHeap (wShared b))" "\<not> live (sHeap (wShared b) ! n)" by auto
  have "reachable container b" using rtrancl_into_rtrancl.hyps(1) rtrancl_into_rtrancl.prems(1) by (rule reachable_steps)
  from step_shared [OF this rtrancl_into_rtrancl.hyps(2)] IH show ?case
    using changes_live heap_grows by (metis order_less_le_trans)
qed simp

lemma closed_stays:
  assumes "step\<^sup>*\<^sup>* w w'" "reachable container w" "sClosed (wShared w)" "\<forall>e \<in> set (sHeap (wShared w)). \<not> live e"
  shows "sClosed (wShared w') \<and> (\<forall>e \<in> set (sHeap (wShared w')). \<not> live e)"
  using assms
proof (induction rule: rtranclp.induct)
  case (rtrancl_into_rtrancl a b c)
  then have IH: "sClosed (wShared b)" "\<forall>e \<in> set (sHeap (wShared b)). \<not> live e" by auto
  have "reachable container b" using rtrancl_into_rtrancl.hyps(1) rtrancl_into_rtrancl.prems(1) by (rule reachable_steps)
  from step_shared [OF this rtrancl_into_rtrancl.hyps(2)] show ?case
  proof (elim disjE exE conjE)
    fix t
    assume c: "changes_heap t (wShared b) (wShared c)" "sClosed (wShared b) \<longrightarrow> sClosed (wShared c)"
    with IH(1) have "length (sHeap (wShared c)) = length (sHeap (wShared b))"
      unfolding changes_heap_def by auto
    with changes_live [OF c(1)] IH c(2) show ?thesis
      by (auto simp: in_set_conv_nth) (metis nth_mem)
  qed (use IH in simp)
qed simp

end
