(* ===== verification/TunnelSpec.thy ===== *)
theory TunnelSpec
  imports TunnelSafety
begin

text \<open>
  The abstract specification of the tunnel manager: the life cycle of a tunnel as the user sees
  it, one phase per start, and the proof that the manager with all its goroutines implements it.
\<close>

section \<open>Simulations\<close>

text \<open>A concrete transition system that keeps an invariant and whose steps are runs of an abstract one.\<close>

locale simulation =
  fixes cstep :: "'c \<Rightarrow> 'c \<Rightarrow> bool" and astep :: "'a \<Rightarrow> 'a \<Rightarrow> bool" and view :: "'c \<Rightarrow> 'a" and inv :: "'c \<Rightarrow> bool"
  assumes kept: "inv c \<Longrightarrow> cstep c c' \<Longrightarrow> inv c'"
    and simulated: "inv c \<Longrightarrow> cstep c c' \<Longrightarrow> astep\<^sup>*\<^sup>* (view c) (view c')"
begin

lemma run:
  assumes "cstep\<^sup>*\<^sup>* c c'" "inv c"
  shows "inv c' \<and> astep\<^sup>*\<^sup>* (view c) (view c')"
  using assms
proof (induction rule: rtranclp_induct)
  case (step d e)
  then have "inv d" "astep\<^sup>*\<^sup>* (view c) (view d)" by auto
  with kept [OF _ step(2)] simulated [OF _ step(2)] show ?case by (metis rtranclp_trans)
qed simp

end

section \<open>The life cycle\<close>

fun may_become :: "tun_state \<Rightarrow> tun_state \<Rightarrow> bool" where
  "may_become Connecting q \<longleftrightarrow> q \<in> {Running, Stopped, Failed}"
| "may_become Running q \<longleftrightarrow> q \<in> {Reconnecting, Stopped, Failed}"
| "may_become Reconnecting q \<longleftrightarrow> q \<in> {Running, Stopped, Failed}"
| "may_become Failed q \<longleftrightarrow> q = Stopped"
| "may_become Stopped q \<longleftrightarrow> False"

text \<open>Every start adds a tunnel, which is connecting or has failed to bind its port.\<close>

inductive life_step :: "tun_state list \<Rightarrow> tun_state list \<Rightarrow> bool" where
  life_change: "n < length ps \<Longrightarrow> may_become (ps ! n) p \<Longrightarrow> life_step ps (ps[n := p])"
| life_start: "p = Connecting \<or> p = Failed \<Longrightarrow> life_step ps (ps @ [p])"

definition phase :: "entry \<Rightarrow> tun_state" where
  "phase e = State (eStatus e)"

definition phases :: "world \<Rightarrow> tun_state list" where
  "phases w = map phase (sHeap (wShared w))"

section \<open>Entries follow the life cycle\<close>

text \<open>A tunnel shows as stopped exactly if it was stopped on purpose.\<close>

definition stop_inv :: "entry \<Rightarrow> bool" where
  "stop_inv e \<longleftrightarrow> (phase e = Stopped \<longleftrightarrow> eStopped e)"

definition evolves :: "entry \<Rightarrow> entry \<Rightarrow> bool" where
  "evolves e e' \<longleftrightarrow> stop_inv e' \<and> (phase e' = phase e \<or> may_become (phase e) (phase e'))"

lemma evolves_same:
  "stop_inv e \<Longrightarrow> phase e' = phase e \<Longrightarrow> eStopped e' = eStopped e \<Longrightarrow> evolves e e'"
  by (simp add: evolves_def stop_inv_def)

lemma evolves_simps:
  assumes "stop_inv e"
  shows "evolves e (set_error m e)" "evolves e (add_socket k e)" "evolves e (del_socket k e)"
    "evolves e (e\<lparr>eDone := d\<rparr>)"
  using assms by (auto simp: phase_def entry_simps intro!: evolves_same)

lemma evolves_finish: "stop_inv e \<Longrightarrow> evolves e (finish_entry r e)"
  by (cases r; cases "phase e") (auto simp: evolves_def stop_inv_def phase_def entry_simps)

lemma evolves_live:
  assumes "stop_inv e" "entry_inv e" "live e"
  shows "phase e = Connecting \<Longrightarrow> evolves e (run_entry c now e)"
    "phase e = Reconnecting \<Longrightarrow> evolves e (rerun_entry c now e)"
    "phase e = Running \<Longrightarrow> evolves e (drop_entry x e)"
  using assms by (auto simp: evolves_def stop_inv_def phase_def entry_inv_def entry_simps)

lemma stop_inv_new: "stop_inv (failed_entry x)" "stop_inv (fresh_entry t)" "phase (failed_entry x) = Failed"
  "phase (fresh_entry t) = Connecting"
  by (simp_all add: stop_inv_def phase_def entry_simps)

text \<open>What a step does to the heap.\<close>

definition moves_on :: "shared \<Rightarrow> shared \<Rightarrow> bool" where
  "moves_on s s' \<longleftrightarrow> sHeap s' = sHeap s
     \<or> (\<exists>n e'. n < length (sHeap s) \<and> sHeap s' = (sHeap s)[n := e'] \<and> evolves (sHeap s ! n) e')
     \<or> (\<exists>e. sHeap s' = sHeap s @ [e] \<and> stop_inv e \<and> phase e \<in> {Connecting, Failed})"

lemma moves_on_upd:
  "n < length (sHeap s) \<Longrightarrow> evolves (sHeap s ! n) (f (sHeap s ! n)) \<Longrightarrow> sHeap s' = sHeap (upd n f s) \<Longrightarrow> moves_on s s'"
  unfolding moves_on_def upd_def by auto

lemma moves_on_same: "sHeap s' = sHeap s \<Longrightarrow> moves_on s s'"
  by (simp add: moves_on_def)

lemma addressed:
  assumes "may_act t s" "\<forall>e \<in> set (sHeap s). stop_inv e" "address t = Some n"
  shows "n < length (sHeap s)" "stop_inv (sHeap s ! n)" "entry_inv (sHeap s ! n)" "knows t (sHeap s ! n)"
  using assms by (auto simp: may_act_def)

lemma in_charge_live:
  assumes "may_act t s" "owner t = Some n" "\<not> cancelled (sHeap s ! n)"
  shows "live (sHeap s ! n)"
proof -
  have "n < length (sHeap s)" using may_actD(1) [OF assms(1) owner_address [OF assms(2)]] by simp
  then have "entry_inv (sHeap s ! n)" using assms(1) by (simp add: may_act_def)
  from live_or_cancelled [OF this may_actD(2) [OF assms(1,2)] assms(3)] show ?thesis .
qed

lemma start_step_moves:
  assumes "start_step ev t s = Some (us, s')" "may_act t s" "\<forall>e \<in> set (sHeap s). stop_inv e"
  shows "moves_on s s'"
proof (cases t)
  case (StartCall tn)
  have "start_call f tn s = (u, s') \<Longrightarrow> moves_on s s'" for f u
    by (auto simp: start_call_def moves_on_def add_entry_def stop_inv_new split: sum.splits if_splits option.splits)
  with StartCall assms(1) show ?thesis
    by (auto simp: start_step_def one_def split: event.splits) (metis prod.collapse)
next
  case (StartGot n c)
  then have o: "owner t = Some n" "address t = Some n" by simp_all
  note e = addressed [OF assms(2,3) o(2)]
  show ?thesis
  proof (cases "cancelled (sHeap s ! n)")
    case True
    with StartGot assms(1) show ?thesis
      by (auto simp: start_step_def start_got_def moves_on_same split: event.splits)
  next
    case False
    from in_charge_live [OF assms(2) o(1) this] have l: "live (sHeap s ! n)" .
    with e(4) StartGot have "phase (sHeap s ! n) = Connecting" by (simp add: phase_def)
    with evolves_live(1) [OF e(2,3) l] StartGot False assms(1) e(1) show ?thesis
      by (auto simp: start_step_def start_got_def split: event.splits intro: moves_on_upd)
  qed
next
  case (StartFinish n r x)
  then have "address t = Some n" by simp
  note e = addressed [OF assms(2,3) this]
  from StartFinish assms(1) e show ?thesis
    by (auto simp: start_step_def on_step_def finish_def upd_def split: if_splits
        intro!: moves_on_upd [where n = n and f = "finish_entry r"] evolves_finish)
next
  case (StartDone n x)
  then have "address t = Some n" by simp
  note e = addressed [OF assms(2,3) this]
  from StartDone assms(1) e show ?thesis
    by (auto simp: start_step_def on_step_def close_done_def split: if_splits
        intro!: moves_on_upd [where n = n and f = "\<lambda>e. e\<lparr>eDone := Some True\<rparr>"] evolves_simps)
qed (use assms in \<open>auto simp: start_step_def on_step_def one_def start_connect_def open_conn_def
    intro!: moves_on_same split: event.splits option.splits if_splits\<close>)

lemma forward_step_moves:
  assumes "forward_step ev t s = Some (us, s')" "may_act t s" "\<forall>e \<in> set (sHeap s). stop_inv e"
  shows "moves_on s s'"
proof (cases t)
  case (Accepted n k)
  then have "address t = Some n" by simp
  note e = addressed [OF assms(2,3) this]
  from Accepted assms(1) consider "s' = close_socks [k] s" | "s' = upd n (add_socket k) s"
    by (auto simp: forward_step_def on_step_def accepted_def Let_def split: if_splits option.splits)
  then show ?thesis
  proof cases
    case 1
    then show ?thesis by (simp add: moves_on_same)
  next
    case 2
    from moves_on_upd [where f = "add_socket k", OF e(1) evolves_simps(2) [OF e(2)]] 2 show ?thesis by simp
  qed
next
  case (DialFailed n k x)
  then have "address t = Some n" by simp
  note e = addressed [OF assms(2,3) this]
  from DialFailed assms(1) e show ?thesis
    by (auto simp: forward_step_def on_step_def split: if_splits
        intro!: moves_on_upd [where n = n and f = "set_error (RemoteMessage x)"] evolves_simps)
next
  case (ForwardEnd n k)
  then have "address t = Some n" by simp
  note e = addressed [OF assms(2,3) this]
  from ForwardEnd assms(1) e show ?thesis
    by (auto simp: forward_step_def on_step_def forward_end_def upd_def split: if_splits
        intro!: moves_on_upd [where n = n and f = "del_socket k"] evolves_simps)
qed (use assms in \<open>auto simp: forward_step_def on_step_def
    intro!: moves_on_same split: event.splits option.splits if_splits\<close>)

lemma monitor_step_moves:
  assumes "monitor_step ev t s = Some (us, s')" "may_act t s" "\<forall>e \<in> set (sHeap s). stop_inv e"
  shows "moves_on s s'"
proof (cases t)
  case (MonDrop n c x)
  then have o: "owner t = Some n" "address t = Some n" by simp_all
  note e = addressed [OF assms(2,3) o(2)]
  show ?thesis
  proof (cases "cancelled (sHeap s ! n)")
    case True
    with MonDrop assms(1) show ?thesis
      by (auto simp: monitor_step_def one_def mon_drop_def moves_on_same split: if_splits)
  next
    case False
    from in_charge_live [OF assms(2) o(1) this] have l: "live (sHeap s ! n)" .
    with e(4) MonDrop have "phase (sHeap s ! n) = Running" by (simp add: phase_def)
    with evolves_live(3) [OF e(2,3) l] MonDrop False assms(1) e(1) show ?thesis
      by (auto simp: monitor_step_def one_def mon_drop_def upd_def split: if_splits
          intro!: moves_on_upd [where n = n and f = "drop_entry x"])
  qed
next
  case (MonGot n c)
  then have o: "owner t = Some n" "address t = Some n" by simp_all
  note e = addressed [OF assms(2,3) o(2)]
  show ?thesis
  proof (cases "cancelled (sHeap s ! n)")
    case True
    with MonGot assms(1) show ?thesis
      by (auto simp: monitor_step_def one_def mon_got_def moves_on_same split: event.splits)
  next
    case False
    from in_charge_live [OF assms(2) o(1) this] have l: "live (sHeap s ! n)" .
    with e(4) MonGot have "phase (sHeap s ! n) = Reconnecting" by (simp add: phase_def)
    with evolves_live(2) [OF e(2,3) l] MonGot False assms(1) e(1) show ?thesis
      by (auto simp: monitor_step_def one_def mon_got_def split: event.splits intro: moves_on_upd)
  qed
next
  case (MonFinish n x)
  then have "address t = Some n" by simp
  note e = addressed [OF assms(2,3) this]
  from MonFinish assms(1) e show ?thesis
    by (auto simp: monitor_step_def on_step_def finish_def upd_def split: if_splits
        intro!: moves_on_upd [where n = n and f = "finish_entry (Some x)"] evolves_finish)
next
  case (MonFailed n b x)
  then have "address t = Some n" by simp
  note e = addressed [OF assms(2,3) this]
  from MonFailed assms(1) e show ?thesis
    by (auto simp: monitor_step_def on_step_def split: if_splits
        intro!: moves_on_upd [where n = n and f = "set_error (ConnMessage x)"] evolves_simps)
next
  case (MonEnd n)
  then have "address t = Some n" by simp
  note e = addressed [OF assms(2,3) this]
  from MonEnd assms(1) e show ?thesis
    by (auto simp: monitor_step_def on_step_def close_done_def split: if_splits
        intro!: moves_on_upd [where n = n and f = "\<lambda>e. e\<lparr>eDone := Some True\<rparr>"] evolves_simps)
qed (use assms in \<open>auto simp: monitor_step_def on_step_def one_def select_done_def mon_close_def
    mon_connect_def open_conn_def intro!: moves_on_same split: event.splits option.splits if_splits\<close>)

lemma control_step_moves:
  assumes "control_step ev t s = Some (us, s')" "may_act t s" "\<forall>e \<in> set (sHeap s). stop_inv e"
  shows "moves_on s s'"
proof (cases t)
  case (StopFinish n)
  then have "address t = Some n" by simp
  note e = addressed [OF assms(2,3) this]
  from StopFinish assms(1) e show ?thesis
    by (auto simp: control_step_def on_step_def finish_def upd_def split: if_splits
        intro!: moves_on_upd [where n = n and f = "finish_entry None"] evolves_finish)
next
  case (CloseFinish n "is")
  then have "address t = Some n" by simp
  note e = addressed [OF assms(2,3) this]
  from CloseFinish assms(1) e show ?thesis
    by (auto simp: control_step_def on_step_def finish_def upd_def split: if_splits
        intro!: moves_on_upd [where n = n and f = "finish_entry None"] evolves_finish)
next
  case (ReadyFailed n x)
  then have "address t = Some n" by simp
  note e = addressed [OF assms(2,3) this]
  from ReadyFailed assms(1) e show ?thesis
    by (auto simp: control_step_def on_step_def split: if_splits
        intro!: moves_on_upd [where n = n and f = "set_error (ProbeMessage x)"] evolves_simps)
qed (use assms in \<open>auto simp: control_step_def on_step_def one_def close_call_def
    intro!: moves_on_same split: event.splits option.splits if_splits\<close>)

lemma thread_step_moves:
  "thread_step ev t s = Some (us, s') \<Longrightarrow> may_act t s \<Longrightarrow> \<forall>e \<in> set (sHeap s). stop_inv e \<Longrightarrow> moves_on s s'"
  by (auto simp: thread_step_def split: option.splits dest: start_step_moves forward_step_moves
      monitor_step_moves control_step_moves)

section \<open>The manager implements the life cycle\<close>

definition life_inv :: "world \<Rightarrow> bool" where
  "life_inv w \<longleftrightarrow> safe (wShared w) (wThreads w) \<and> (\<forall>e \<in> set (sHeap (wShared w)). stop_inv e)"

lemma moves_on_stop_inv:
  "moves_on s s' \<Longrightarrow> \<forall>e \<in> set (sHeap s). stop_inv e \<Longrightarrow> \<forall>e \<in> set (sHeap s'). stop_inv e"
  unfolding moves_on_def evolves_def using set_update_subset_insert by fastforce

lemma moves_on_life:
  assumes "moves_on s s'"
  shows "life_step\<^sup>*\<^sup>* (map phase (sHeap s)) (map phase (sHeap s'))"
proof -
  from assms consider "sHeap s' = sHeap s"
    | n e' where "n < length (sHeap s)" "sHeap s' = (sHeap s)[n := e']" "phase e' = phase (sHeap s ! n)"
    | n e' where "n < length (sHeap s)" "sHeap s' = (sHeap s)[n := e']" "may_become (phase (sHeap s ! n)) (phase e')"
    | e where "sHeap s' = sHeap s @ [e]" "phase e = Connecting \<or> phase e = Failed"
    unfolding moves_on_def evolves_def by auto
  then show ?thesis
  proof cases
    case (2 n e')
    then have "map phase (sHeap s') = map phase (sHeap s)" by (simp add: map_update list_update_same_conv)
    then show ?thesis by simp
  next
    case (3 n e')
    with life_change [of n "map phase (sHeap s)" "phase e'"] show ?thesis by (simp add: map_update r_into_rtranclp)
  next
    case (4 e)
    with life_start [of "phase e" "map phase (sHeap s)"] show ?thesis by (simp add: r_into_rtranclp)
  qed simp
qed

lemma life_step_run:
  assumes "life_inv w" "step w w'"
  shows "life_inv w' \<and> life_step\<^sup>*\<^sup>* (phases w) (phases w')"
  using assms(2)
proof cases
  case (step_call t s ts)
  with assms(1) safe_call show ?thesis by (simp add: life_inv_def phases_def)
next
  case (step_run ev t s us s' xs ys)
  with assms(1) have i: "safe s (xs @ t # ys)" "\<forall>e \<in> set (sHeap s). stop_inv e" by (simp_all add: life_inv_def)
  have "may_act t s" by (rule safe_may_act [OF i(1)]) simp
  from thread_step_moves [OF step_run(3) this i(2)] have m: "moves_on s s'" .
  from safe_run [OF i(1) step_run(3)] step_run have "safe (wShared w') (wThreads w')" by simp
  with moves_on_stop_inv [OF m i(2)] moves_on_life [OF m] step_run show ?thesis by (simp add: life_inv_def phases_def)
qed

interpretation life: simulation step life_step phases life_inv
  by unfold_locales (simp_all add: life_step_run)

lemma reachable_life_inv: "reachable container w \<Longrightarrow> life_inv w"
proof (induction rule: reachable.induct)
  case reach_init
  show ?case using safe_init by (simp add: life_inv_def init_shared_def)
qed (rule life.kept)

end
