(* ===== verification/Tunnel_Correct.thy ===== *)
theory Tunnel_Correct
  imports TunnelLive TunnelSpec Store_Correct
begin

text \<open>
  What the tunnel manager promises, in every state that concurrent calls and goroutines can reach,
  with a sample run as the witness: a tunnel is started, connected, accepts a connection, and the
  manager is closed.
\<close>

section \<open>Sample runs\<close>

datatype move = Call thread | Run nat event

fun exec :: "move list \<Rightarrow> world \<Rightarrow> world option" where
  "exec [] w = Some w"
| "exec (Call t # ms) w =
     (if api_call t then exec ms (w\<lparr>wThreads := wThreads w @ [t]\<rparr>) else None)"
| "exec (Run i ev # ms) w =
     (if i < length (wThreads w) then
        (case thread_step ev (wThreads w ! i) (wShared w) of
           None \<Rightarrow> None
         | Some (us, s') \<Rightarrow>
             exec ms \<lparr>wShared = s', wThreads = take i (wThreads w) @ us @ drop (Suc i) (wThreads w)\<rparr>)
      else None)"

lemma exec_steps: "exec ms w = Some w' \<Longrightarrow> step\<^sup>*\<^sup>* w w'"
proof (induction ms w rule: exec.induct)
  case (2 t ms w)
  then have "api_call t" "step\<^sup>*\<^sup>* (w\<lparr>wThreads := wThreads w @ [t]\<rparr>) w'" by (auto split: if_splits)
  moreover have "step w (w\<lparr>wThreads := wThreads w @ [t]\<rparr>)"
    using step_call [OF \<open>api_call t\<close>, of "wShared w" "wThreads w"] by (cases w) simp
  ultimately show ?case by (meson converse_rtranclp_into_rtranclp)
next
  case (3 i ev ms w)
  from 3(2) obtain us s' where i: "i < length (wThreads w)"
    and st: "thread_step ev (wThreads w ! i) (wShared w) = Some (us, s')"
    and r: "exec ms \<lparr>wShared = s', wThreads = take i (wThreads w) @ us @ drop (Suc i) (wThreads w)\<rparr> = Some w'"
    by (auto split: if_splits option.splits)
  have "step w \<lparr>wShared = s', wThreads = take i (wThreads w) @ us @ drop (Suc i) (wThreads w)\<rparr>"
    using step_run [OF st, of "take i (wThreads w)" "drop (Suc i) (wThreads w)"] id_take_nth_drop [OF i]
    by (cases w) simp
  moreover have "step\<^sup>*\<^sup>* \<lparr>wShared = s', wThreads = take i (wThreads w) @ us @ drop (Suc i) (wThreads w)\<rparr> w'"
    by (rule 3(1) [OF i st refl r])
  ultimately show ?case by (rule converse_rtranclp_into_rtranclp)
qed simp

definition start_world :: "bool \<Rightarrow> world" where
  "start_world container = \<lparr>wShared = init_shared container, wThreads = []\<rparr>"

definition started :: "move list" where
  "started = [Call (StartCall sample_tunnel), Run 0 (Listen (\<lambda>_. None)), Run 0 (SshConnect (\<lambda>_. None)),
     Run 0 (At ''2026-01-01T00:00:00Z''), Run 1 Incoming, Run 1 Step]"

definition after :: "move list \<Rightarrow> world" where
  "after ms = (case exec ms (start_world False) of Some w \<Rightarrow> w | None \<Rightarrow> start_world False)"

lemma start_reachable: "reachable container (start_world container)"
  unfolding start_world_def by (rule reach_init)

lemma after_steps: "step\<^sup>*\<^sup>* (start_world False) (after ms)"
  by (auto simp: after_def dest: exec_steps split: option.splits)

lemma after_reachable: "reachable False (after ms)"
  by (rule reachable_steps [OF after_steps start_reachable])

section \<open>Entries\<close>

text \<open>C11. In every reachable state a tunnel is shown as running exactly if it has a connection; it is
  active exactly if its listener is open, and exactly if its context is not cancelled; and it is
  shown as stopped exactly if it was stopped on purpose, whatever error it may have had before.\<close>

theorem entries_are_consistent:
  assumes "reachable container w" "e \<in> set (sHeap (wShared w))"
  shows "(State (eStatus e) = Running \<longleftrightarrow> eConn e \<noteq> None) \<and> (active e \<longleftrightarrow> eListener e = Some True)
    \<and> (active e \<longleftrightarrow> live e) \<and> (State (eStatus e) = Stopped \<longleftrightarrow> eStopped e)"
proof -
  have i: "entry_inv e" using reachable_safe [OF assms(1)] assms(2) by (simp add: safe_def)
  have "stop_inv e" using reachable_life_inv [OF assms(1)] assms(2) by (simp add: life_inv_def)
  then have s: "State (eStatus e) = Stopped \<longleftrightarrow> eStopped e" by (simp add: stop_inv_def phase_def)
  show ?thesis
  proof (cases "eCancel e")
    case None
    with i s show ?thesis by (auto simp: entry_inv_def live_def active_def)
  next
    case (Some b)
    with i s show ?thesis by (cases b) (auto simp: entry_inv_def live_def cancelled_def active_def)
  qed
qed

theorem entries_are_consistent_witness:
  "eConn (hd (sHeap (wShared (after started)))) \<noteq> None"
proof -
  have "hd (sHeap (wShared (after started))) \<in> set (sHeap (wShared (after started)))
      \<and> State (eStatus (hd (sHeap (wShared (after started))))) = Running" by code_simp
  with entries_are_consistent [OF after_reachable, of "hd (sHeap (wShared (after started)))" started]
  show ?thesis by blast
qed

text \<open>C22. A tunnel never forwards more than 128 connections at once, and the number it shows is the
  number of its open sockets, each of which one goroutine forwards.\<close>

theorem sockets_are_bounded:
  assumes "reachable container w" "n < length (sHeap (wShared w))"
  shows "length (eSockets (sHeap (wShared w) ! n)) \<le> 128
    \<and> Connections (eStatus (sHeap (wShared w) ! n)) = int (length (eSockets (sHeap (wShared w) ! n)))
    \<and> mset (eSockets (sHeap (wShared w) ! n)) = mset (socks n (wThreads w))"
  using reachable_safe [OF assms(1)] assms(2)
  by (auto simp: safe_def entry_inv_def max_sockets_def)

theorem sockets_are_bounded_witness:
  "Connections (eStatus (sHeap (wShared (after started)) ! 0)) = 1
   \<and> eSockets (sHeap (wShared (after started)) ! 0) = [0]
   \<and> mset (socks 0 (wThreads (after started))) = {#0#}"
proof -
  have "0 < length (sHeap (wShared (after started)))" by code_simp
  note b = sockets_are_bounded [OF after_reachable this]
  have "eSockets (sHeap (wShared (after started)) ! 0) = [0]" by code_simp
  with b show ?thesis by simp
qed

text \<open>At most one entry of a tunnel is active, and it is the one the manager finds under the
  tunnel's identifier: a tunnel never listens twice.\<close>

theorem one_active_entry_per_tunnel:
  assumes "reachable container w" "m < length (sHeap (wShared w))" "n < length (sHeap (wShared w))"
    and "active (sHeap (wShared w) ! m)" "active (sHeap (wShared w) ! n)"
    and "tID (eConfig (sHeap (wShared w) ! m)) = tID (eConfig (sHeap (wShared w) ! n))"
  shows "m = n \<and> lookup (wShared w) (tID (eConfig (sHeap (wShared w) ! n))) = Some n"
proof -
  have "active e \<Longrightarrow> live e" if "e \<in> set (sHeap (wShared w))" for e
  proof -
    have "entry_inv e" using reachable_safe [OF assms(1)] that by (simp add: safe_def)
    then show "active e \<Longrightarrow> live e"
      by (cases "eCancel e") (auto simp: entry_inv_def live_def cancelled_def)
  qed
  with assms(2-5) have l: "live (sHeap (wShared w) ! m)" "live (sHeap (wShared w) ! n)" by simp_all
  have L: "\<forall>k < length (sHeap (wShared w)). live (sHeap (wShared w) ! k) \<longrightarrow>
      lookup (wShared w) (tID (eConfig (sHeap (wShared w) ! k))) = Some k"
    using reachable_safe [OF assms(1)] unfolding safe_def by (elim conjE)
  note k = L [rule_format, OF assms(2) l(1), unfolded assms(6)] L [rule_format, OF assms(3) l(2)]
  then have "m = n" by (metis option.inject)
  with k(2) show ?thesis by (intro conjI)
qed

theorem one_active_entry_per_tunnel_witness:
  "lookup (wShared (after started)) ''t'' = Some 0"
proof -
  have "0 < length (sHeap (wShared (after started))) \<and> active (sHeap (wShared (after started)) ! 0)
    \<and> tID (eConfig (sHeap (wShared (after started)) ! 0)) = ''t''" by code_simp
  with one_active_entry_per_tunnel [OF after_reachable, of 0 started 0] show ?thesis by simp
qed

section \<open>Stopping and closing\<close>

text \<open>An entry that is no longer active never becomes active again, whatever runs afterwards: no
  late connection or reconnection revives a stopped tunnel.\<close>

theorem stopped_stays_stopped:
  assumes "reachable container w" "n < length (sHeap (wShared w))" "\<not> active (sHeap (wShared w) ! n)"
    and "step\<^sup>*\<^sup>* w w'"
  shows "\<not> active (sHeap (wShared w') ! n)"
proof -
  have A: "active (sHeap (wShared v) ! n) \<longleftrightarrow> live (sHeap (wShared v) ! n)"
    if "reachable container v" "n < length (sHeap (wShared v))" for v
  proof -
    have "entry_inv (sHeap (wShared v) ! n)" using reachable_safe [OF that(1)] that(2) by (simp add: safe_def)
    then show ?thesis
      by (cases "eCancel (sHeap (wShared v) ! n)") (auto simp: entry_inv_def live_def cancelled_def)
  qed
  have "\<not> live (sHeap (wShared w) ! n)" using A [OF assms(1,2)] assms(3) by simp
  from dead_stays [OF assms(4,1,2) this] A [OF reachable_steps [OF assms(4,1)]] show ?thesis by simp
qed

theorem stopped_stays_stopped_witness:
  "\<not> active (sHeap (wShared (after (started @ [Call (StopCall ''t''), Run 4 Step, Run 4 Step]))) ! 0)"
proof -
  let ?w = "after (started @ [Call (StopCall ''t''), Run 4 Step, Run 4 Step])"
  have "0 < length (sHeap (wShared ?w)) \<and> \<not> active (sHeap (wShared ?w) ! 0)" by code_simp
  with stopped_stays_stopped [OF after_reachable, of 0 _ ?w] show ?thesis by blast
qed

text \<open>C23. When \<open>Close\<close> is about to return, no tunnel is active, and none becomes active afterwards.\<close>

theorem Close_stops_everything:
  assumes "reachable container w" "CloseNext [] \<in> set (wThreads w)" "step\<^sup>*\<^sup>* w w'"
  shows "\<forall>e \<in> set (sHeap (wShared w')). \<not> active e"
proof -
  note S = reachable_safe [OF assms(1), unfolded safe_def]
  have c: "sClosed (wShared w)" "\<forall>i n. lookup (wShared w) i = Some n \<longrightarrow> \<not> live (sHeap (wShared w) ! n)"
    using S assms(2) by force+
  have d: "\<forall>e \<in> set (sHeap (wShared w)). \<not> live e"
  proof (intro ballI notI)
    fix e
    assume "e \<in> set (sHeap (wShared w))" "live e"
    then obtain n where "n < length (sHeap (wShared w))" "live (sHeap (wShared w) ! n)"
      by (auto simp: in_set_conv_nth)
    with S c(2) show False by blast
  qed
  from closed_stays [OF assms(3,1) c(1) d] have "\<forall>e \<in> set (sHeap (wShared w')). \<not> live e" by blast
  moreover have "\<forall>e \<in> set (sHeap (wShared w')). entry_inv e"
    using reachable_safe [OF reachable_steps [OF assms(3,1)]] by (simp add: safe_def)
  ultimately show ?thesis
    by (metis entry_inv_def live_def cancelled_def not_None_eq)
qed

definition closed_run :: "move list" where
  "closed_run = started @ [Call CloseCall, Run 4 (MapOrder [''t'']), Run 4 Step, Run 4 Step, Run 3 CtxDone,
     Run 3 Step, Run 3 Step]"

theorem Close_stops_everything_witness:
  "map active (sHeap (wShared (after closed_run))) = [False]"
proof -
  have c: "CloseNext [] \<in> set (wThreads (after closed_run)) \<and> length (sHeap (wShared (after closed_run))) = 1"
    by code_simp
  with Close_stops_everything [OF after_reachable, of closed_run] have
    "\<forall>e \<in> set (sHeap (wShared (after closed_run))). \<not> active e" by blast
  with c show ?thesis by (auto simp: length_Suc_conv)
qed

text \<open>C5. The manager implements the life cycle of a tunnel: whatever its calls, goroutines and the
  network interleave, what the user sees of its entries changes only along the edges of the life
  cycle. Connecting leads to running; running to reconnecting and back; all of them to stopped or
  failed; a failed tunnel can only be stopped, and a stopped one never comes back.\<close>

theorem manager_refines_life_cycle:
  assumes "reachable container w" "step\<^sup>*\<^sup>* w w'"
  shows "life_step\<^sup>*\<^sup>* (phases w) (phases w')"
  using life.run [OF assms(2) reachable_life_inv [OF assms(1)]] by blast

theorem manager_refines_life_cycle_witness:
  "phases (after started) = [Running] \<and> phases (after closed_run) = [Stopped]
    \<and> life_step\<^sup>*\<^sup>* (phases (start_world False)) (phases (after closed_run))"
proof (intro conjI)
  show "phases (after started) = [Running]" "phases (after closed_run) = [Stopped]" by code_simp+
  show "life_step\<^sup>*\<^sup>* (phases (start_world False)) (phases (after closed_run))"
    by (rule manager_refines_life_cycle [OF start_reachable after_steps])
qed

text \<open>C13. Whoever waits in \<open>Stop\<close> or \<open>Close\<close> for a tunnel's goroutines can always go on: from
  every reachable state there is a run of the program after which the wait is over.\<close>

theorem Stop_never_blocks_forever:
  assumes "reachable container w" "StopWait n \<in> set (wThreads w) \<or> CloseWait n is \<in> set (wThreads w)"
  shows "\<exists>w'. step\<^sup>*\<^sup>* w w' \<and> done_passed n (wShared w')"
proof (rule waiting_ends [OF assms(1)])
  have "all_know (wThreads w) (wShared w)" using reachable_safe [OF assms(1)] by (simp add: safe_def)
  with assms(2) show "n < length (sHeap (wShared w))" "\<not> live (sHeap (wShared w) ! n)"
    by (force simp: all_know_def)+
qed

theorem Stop_never_blocks_forever_witness:
  "\<exists>w'. step\<^sup>*\<^sup>* (after (started @ [Call (StopCall ''t''), Run 4 Step, Run 4 Step])) w' \<and> done_passed 0 (wShared w')"
proof -
  have "StopWait 0 \<in> set (wThreads (after (started @ [Call (StopCall ''t''), Run 4 Step, Run 4 Step])))"
    by code_simp
  with Stop_never_blocks_forever [OF after_reachable] show ?thesis by blast
qed

text \<open>The \<open>done\<close> channel of a tunnel is closed at most once: the goroutine about to close it
  always finds it open (closing it twice would panic).\<close>

theorem done_closed_once:
  assumes "reachable container w" "MonEnd n \<in> set (wThreads w) \<or> StartDone n x \<in> set (wThreads w)"
  shows "eDone (sHeap (wShared w) ! n) = Some False"
proof -
  obtain t where "t \<in> set (wThreads w)" "owner t = Some n" using assms(2) by auto
  with safe_may_act [OF reachable_safe [OF assms(1)]] show ?thesis by (auto simp: may_act_def)
qed

theorem done_closed_once_witness:
  "eDone (sHeap (wShared (after (started @ [Call (StopCall ''t''), Run 4 Step, Run 4 Step, Run 3 CtxDone]))) ! 0)
     = Some False"
proof -
  have "MonEnd 0 \<in> set (wThreads (after (started @ [Call (StopCall ''t''), Run 4 Step, Run 4 Step, Run 3 CtxDone])))"
    by code_simp
  with done_closed_once [OF after_reachable] show ?thesis by blast
qed

text \<open>C4. No SSH connection leaks: every connection that is open belongs to an entry or to the
  goroutine that is about to install or close it, so once all tunnels are stopped and no goroutine
  runs, every connection is closed.\<close>

theorem connections_do_not_leak:
  assumes "reachable container w" "\<forall>e \<in> set (sHeap (wShared w)). \<not> active e"
    and "\<forall>t \<in> set (wThreads w). keeps t = []"
  shows "\<not> (\<exists>c < length (sConns (wShared w)). sConns (wShared w) ! c)"
proof
  assume "\<exists>c < length (sConns (wShared w)). sConns (wShared w) ! c"
  then obtain c where "is_open c (wShared w)" by (auto simp: is_open_def)
  with reachable_no_leak [OF assms(1)] assms(3) have "in_entry c (wShared w)"
    by (auto simp: no_leak_def kept_def)
  then obtain n where n: "n < length (sHeap (wShared w))" "eConn (sHeap (wShared w) ! n) = Some c"
    by (auto simp: in_entry_def)
  have i: "entry_inv (sHeap (wShared w) ! n)"
    using reachable_safe [OF assms(1)] n(1) by (simp add: safe_def)
  from n(1) assms(2) have "\<not> active (sHeap (wShared w) ! n)" by simp
  with i n(2) show False
    by (cases "eCancel (sHeap (wShared w) ! n)") (auto simp: entry_inv_def live_def cancelled_def)
qed

theorem connections_do_not_leak_witness:
  "sConns (wShared (after closed_run)) = [False]"
proof -
  have c: "map active (sHeap (wShared (after closed_run))) = [False]
    \<and> concat (map keeps (wThreads (after closed_run))) = [] \<and> length (sConns (wShared (after closed_run))) = 1"
    by code_simp
  then have "\<forall>e \<in> set (sHeap (wShared (after closed_run))). \<not> active e"
    "\<forall>t \<in> set (wThreads (after closed_run)). keeps t = []" by (auto simp: map_eq_Cons_conv)
  from connections_do_not_leak [OF after_reachable this] c show ?thesis
    by (auto simp: length_Suc_conv)
qed

section \<open>Starting and reconnecting\<close>

text \<open>\<open>Start\<close> of an invalid tunnel, of one that is active, or on a closed manager opens nothing
  and changes nothing; outside a container a valid tunnel listens on the loopback address only.\<close>

theorem Start_is_guarded:
  assumes "ValidateTunnel t \<noteq> Inr () \<or> sClosed s \<or> Active s (tID t)"
  shows "snd (start_call listen t s) = s \<and> (\<exists>r. fst (start_call listen t s) = Returned r)"
proof -
  have "busy s (tID t) \<noteq> None" if "Active s (tID t)"
    using that by (auto simp: Active_def busy_def active_def Let_def split: option.splits)
  with assms show ?thesis
    by (cases "ValidateTunnel t") (auto simp: start_call_def split: option.splits)
qed

theorem Start_is_guarded_witness:
  "snd (start_call (\<lambda>_. None) sample_tunnel (wShared (after started))) = wShared (after started)"
proof -
  have "Active (wShared (after started)) (tID sample_tunnel)" by code_simp
  with Start_is_guarded show ?thesis by blast
qed

theorem Start_binds_loopback:
  assumes "ValidateTunnel t = Inr ()"
  shows "bind_address False t = ''127.0.0.1:'' @ Itoa (tLocalPort t)"
  using assms by (simp add: ValidateTunnel_ok bind_address_def JoinHostPort_def)

text \<open>The delay before the k-th reconnection attempt doubles from one second and is capped at
  thirty seconds.\<close>

theorem backoff_is_capped_doubling:
  "(next_backoff ^^ k) first_backoff = min (first_backoff * 2 ^ k) max_backoff"
proof (induction k)
  case 0
  show ?case by (simp add: first_backoff_def max_backoff_def)
next
  case (Suc k)
  have step: "next_backoff b = min (2 * b) max_backoff" if "b \<le> max_backoff" for b
    using that by (auto simp: next_backoff_def max_backoff_def)
  have "(next_backoff ^^ Suc k) first_backoff = next_backoff (min (first_backoff * 2 ^ k) max_backoff)"
    by (simp add: Suc.IH)
  also have "\<dots> = min (2 * min (first_backoff * 2 ^ k) max_backoff) max_backoff"
    by (rule step) simp
  also have "\<dots> = min (first_backoff * 2 ^ Suc k) max_backoff"
    by (auto simp: min_def)
  finally show ?case .
qed

end
