(* ===== verification/TeamBundle.thy ===== *)
theory TeamBundle
  imports PlatformKey
begin

text \<open>
  internal/provision/bundle.go without \<open>Install\<close>: choosing what a team package holds, packing it
  with its private keys, attaching it to an executable and reading it back, and merging records.
  encoding/json enters as the codec \<open>codec\<close>, golang.org/x/crypto/ssh's key parser as \<open>pk\<close>.
\<close>

section \<open>The package and its encodings\<close>

record team_bundle =
  bSource :: "team_source option"
  bVersion :: int
  bState :: state
  bKeys :: "(string \<times> string) list"

record sync_message =
  mFeed :: string
  mNonce :: string
  mState :: state

record signed_sync =
  sMessage :: string
  sSignature :: string

text \<open>
  encoding/json on the types the program marshals: \<open>DecodeStrict\<close> is a decoder with
  \<open>DisallowUnknownFields\<close>, which stops after the first value; the others are \<open>json.Unmarshal\<close>.
\<close>

record codec =
  MarshalBundle :: "team_bundle \<Rightarrow> string res"
  DecodeStrict :: "string \<Rightarrow> team_bundle res"
  UnmarshalBundle :: "string \<Rightarrow> team_bundle res"
  MarshalIDs :: "string list \<Rightarrow> string res"
  UnmarshalIDs :: "string \<Rightarrow> string list res"
  MarshalMessage :: "sync_message \<Rightarrow> string res"
  UnmarshalMessage :: "string \<Rightarrow> sync_message res"
  MarshalSigned :: "signed_sync \<Rightarrow> string res"
  UnmarshalSigned :: "string \<Rightarrow> signed_sync res"

definition magic :: string where
  "magic = ''SSHDesk-Team-Bundle-v1''"

definition MaxPayload :: nat where
  "MaxPayload = 16 * 2 ^ 20"

section \<open>Selecting\<close>

text \<open>\<open>Select\<close>'s first loop keeps the identifiers seen and the keys found.\<close>

definition select_key :: "state \<Rightarrow> string list \<times> key list \<Rightarrow> string \<Rightarrow> (string list \<times> key list) res" where
  "select_key s acc i =
     rbind (State_Key s i)
     (\<lambda>k. if i \<in> set (fst acc) then Inr acc else Inr (i # fst acc, snd acc @ [k]))"

definition check_hop :: "state \<Rightarrow> string list \<Rightarrow> host \<Rightarrow> host \<Rightarrow> unit res" where
  "check_hop s selected h hop =
     (if hKeyID hop \<in> set selected then Inr ()
      else Inl (ShareErr (JumpKeyMissing (hName h)
             (case State_Key s (hKeyID hop) of Inr k \<Rightarrow> kName k | Inl _ \<Rightarrow> []))))"

definition selection :: "state \<Rightarrow> string list \<Rightarrow> key list \<Rightarrow> state" where
  "selection s selected ks =
     (let hs = filter (\<lambda>h. hKeyID h \<in> set selected) (Hosts s);
          ts = filter (\<lambda>t. tHostID t \<in> hID ` set hs) (Tunnels s);
          vs = filter (\<lambda>v. sTunnelID v \<in> tID ` set ts) (Services s)
      in empty_state\<lparr>Hosts := hs, Keys := ks, Tunnels := ts, Services := vs\<rparr>)"

definition Select :: "(string \<Rightarrow> url option) \<Rightarrow> state \<Rightarrow> string list \<Rightarrow> state res" where
  "Select up s ids =
     rbind (rfold (select_key s) ([], []) ids)
     (\<lambda>(selected, ks). rbind (check (selected \<noteq> []) (ShareErr NothingSelected))
     (\<lambda>_. let result = selection s selected ks in
       rbind (rall (\<lambda>h. rbind (Chain s (hID h)) (rall (check_hop s selected h))) (Hosts result))
     (\<lambda>_. rbind (Validate up result)
     (\<lambda>_. Inr result))))"

section \<open>Packing\<close>

definition bundle_key ::
  "os \<Rightarrow> fs \<Rightarrow> (string \<Rightarrow> 's key_parse) \<Rightarrow> (string \<times> string) list \<Rightarrow> key \<Rightarrow> (string \<times> string) list res" where
  "bundle_key os fs pk acc k =
     (case key_Read os fs (kPath k) of
        Inl e \<Rightarrow> Inl (Named (kName k) e)
      | Inr b \<Rightarrow>
          (case pk b of
             ParsedKey _ \<Rightarrow> Inr (AList.update (kID k) b acc)
           | _ \<Rightarrow> Inl (ShareErr (UnusableKey (kName k)))))"

definition marshal_bundle :: "codec \<Rightarrow> team_bundle \<Rightarrow> string res" where
  "marshal_bundle c b =
     rbind (MarshalBundle c b)
     (\<lambda>data. rbind (check (length data \<le> MaxPayload) (ShareErr BundleTooLarge))
     (\<lambda>_. Inr data))"

definition set_paths :: "string \<Rightarrow> state \<Rightarrow> state" where
  "set_paths p s = s\<lparr>Keys := map (\<lambda>k. k\<lparr>kPath := p\<rparr>) (Keys s)\<rparr>"

definition Create ::
  "(string \<Rightarrow> url option) \<Rightarrow> os \<Rightarrow> fs \<Rightarrow> (string \<Rightarrow> 's key_parse) \<Rightarrow> codec \<Rightarrow> state \<Rightarrow> string list \<Rightarrow> string res" where
  "Create up os fs pk c s ids =
     rbind (Select up s ids)
     (\<lambda>st. rbind (rfold (bundle_key os fs pk) [] (Keys st))
     (\<lambda>keys. marshal_bundle c \<lparr>bSource = None, bVersion = 1, bState = set_paths ''bundled-key'' st,
          bKeys = keys\<rparr>))"

section \<open>The package at the end of an executable\<close>

text \<open>An open file: its bytes, and whether \<open>Stat\<close> and reads succeed.\<close>

record exe =
  xBytes :: string
  xStat :: bool
  xRead :: bool

text \<open>encoding/binary, little endian, eight bytes.\<close>

definition put_uint64 :: "nat \<Rightarrow> string" where
  "put_uint64 n = map (\<lambda>i. char_of (n div 256 ^ i mod 256)) [0..<8]"

definition get_uint64 :: "string \<Rightarrow> nat" where
  "get_uint64 s = foldr (\<lambda>c acc. code c + 256 * acc) (take 8 s) 0"

definition footer :: nat where
  "footer = length magic + 8"

definition BaseSize :: "exe \<Rightarrow> nat res" where
  "BaseSize f =
     rbind (check (xStat f) (Ext ''stat''))
     (\<lambda>_. let size = length (xBytes f) in
       if size < footer then Inr size
       else rbind (check (xRead f) (Ext ''read''))
       (\<lambda>_. let tail = drop (size - footer) (xBytes f) in
         if drop 8 tail \<noteq> magic then Inr size
         else let n = get_uint64 (take 8 tail) in
           rbind (check (\<not> (MaxPayload < n \<or> size - footer < n)) (ShareErr BadExecutable))
           (\<lambda>_. Inr (size - footer - n))))"

text \<open>The writes of \<open>WriteExecutable\<close>; each may fail.\<close>

datatype part = BasePart | PayloadPart | LengthPart | MagicPart

definition emit :: "(part \<Rightarrow> bool) \<Rightarrow> part \<Rightarrow> string \<Rightarrow> string \<Rightarrow> string res" where
  "emit w p bytes out = rbind (check (w p) (Ext ''write'')) (\<lambda>_. Inr (out @ bytes))"

definition WriteExecutable :: "(part \<Rightarrow> bool) \<Rightarrow> exe \<Rightarrow> string \<Rightarrow> string res" where
  "WriteExecutable w f payload =
     rbind (BaseSize f)
     (\<lambda>size. rbind (if size = 0 then Inr []
         else rbind (check (xRead f) (Ext ''read'')) (\<lambda>_. emit w BasePart (take size (xBytes f)) []))
     (\<lambda>out. if payload = [] then Inr out
       else rbind (emit w PayloadPart payload out)
       (\<lambda>out. rbind (emit w LengthPart (put_uint64 (length payload)) out)
       (\<lambda>out. emit w MagicPart magic out))))"

definition ReadExecutable :: "(string \<Rightarrow> exe option) \<Rightarrow> string \<Rightarrow> string res" where
  "ReadExecutable files path =
     (case files path of
        None \<Rightarrow> Inl (Ext ''open'')
      | Some f \<Rightarrow>
          rbind (BaseSize f)
          (\<lambda>size. if size = length (xBytes f) then Inr []
            else rbind (check (xRead f) (Ext ''read''))
            (\<lambda>_. Inr (take (length (xBytes f) - size - footer) (drop size (xBytes f))))))"

section \<open>Merging records\<close>

text \<open>\<open>merge\<close>: \<open>records\<close> is the Go map, in which a later record with the same identifier wins.\<close>

definition record_map :: "('a \<Rightarrow> string) \<Rightarrow> 'a list \<Rightarrow> string \<Rightarrow> 'a option" where
  "record_map f vs = fold (\<lambda>v m. m(f v \<mapsto> v)) vs (\<lambda>_. None)"

definition merge_step ::
  "('a \<Rightarrow> string) \<Rightarrow> 'a list \<times> (string \<Rightarrow> 'a option) \<Rightarrow> 'a \<Rightarrow> ('a list \<times> (string \<Rightarrow> 'a option)) res" where
  "merge_step f acc v =
     (case snd acc (f v) of
        Some x \<Rightarrow> rbind (check (x = v) (ShareErr MergeConflict)) (\<lambda>_. Inr acc)
      | None \<Rightarrow> Inr (fst acc @ [v], (snd acc)(f v \<mapsto> v)))"

definition merge :: "'a list \<Rightarrow> 'a list \<Rightarrow> ('a \<Rightarrow> string) \<Rightarrow> 'a list res" where
  "merge old incoming f =
     rbind (rfold (merge_step f) (old, record_map f old) incoming) (\<lambda>acc. Inr (fst acc))"


section \<open>Facts about selecting\<close>

definition selecting :: "state \<Rightarrow> string list \<times> key list \<Rightarrow> bool" where
  "selecting s acc \<longleftrightarrow> map kID (snd acc) = rev (fst acc) \<and> distinct (fst acc)
     \<and> (\<forall>k \<in> set (snd acc). State_Key s (kID k) = Inr k)"

lemma select_key_Inr:
  assumes "select_key s acc i = Inr acc'" "selecting s acc"
  shows "selecting s acc' \<and> set (fst acc') = insert i (set (fst acc))"
proof -
  obtain k where k: "State_Key s i = Inr k" "acc' = (if i \<in> set (fst acc) then acc else (i # fst acc, snd acc @ [k]))"
    using assms(1) by (auto simp: select_key_def res_simps split: if_splits)
  from k(1) have "kID k = i" by (auto dest: State_KeyD)
  with k assms(2) show ?thesis by (auto simp: selecting_def)
qed

lemma select_keys_Inr:
  assumes "rfold (select_key s) acc ids = Inr acc'" "selecting s acc"
  shows "selecting s acc' \<and> set (fst acc') = set (fst acc) \<union> set ids"
  using assms
proof (induction ids arbitrary: acc)
  case (Cons i ids)
  then obtain a where a: "select_key s acc i = Inr a" "rfold (select_key s) a ids = Inr acc'"
    by (auto simp: res_simps)
  from select_key_Inr [OF a(1) Cons.prems(2)] have "selecting s a" "set (fst a) = insert i (set (fst acc))"
    by simp_all
  with Cons.IH [OF a(2)] show ?case by auto
qed simp

lemma selection_cong: "set a = set b \<Longrightarrow> selection s a ks = selection s b ks"
  by (simp add: selection_def)

lemma selection_simps [simp]:
  "Hosts (selection s sel ks) = filter (\<lambda>h. hKeyID h \<in> set sel) (Hosts s)"
  "Keys (selection s sel ks) = ks"
  "Tunnels (selection s sel ks) =
     filter (\<lambda>t. tHostID t \<in> hID ` {h \<in> set (Hosts s). hKeyID h \<in> set sel}) (Tunnels s)"
  "Team (selection s sel ks) = []" "History (selection s sel ks) = []"
  "Settings (selection s sel ks) = empty_settings"
  by (simp_all add: selection_def Let_def empty_state_def)

lemma check_hop_Inr: "check_hop s sel h hop = Inr u \<longleftrightarrow> hKeyID hop \<in> set sel"
  by (simp add: check_hop_def)

lemma rall_check_hop:
  "rall (check_hop s sel h) hops = Inr u \<longleftrightarrow> (\<forall>hop \<in> set hops. hKeyID hop \<in> set sel)"
  by (simp add: rall_eq_Inr check_hop_Inr)

text \<open>What a successful selection is.\<close>

lemma Select_Inr:
  assumes "Select up s ids = Inr r"
  obtains ks where "r = selection s ids ks" "kID ` set ks = set ids" "distinct (map kID ks)"
    "\<forall>k \<in> set ks. State_Key s (kID k) = Inr k" "ids \<noteq> []" "well_formed up r"
    "\<forall>h \<in> set (Hosts r). \<exists>hs. Chain s (hID h) = Inr hs \<and> (\<forall>hop \<in> set hs. hKeyID hop \<in> set ids)"
proof -
  obtain sel ks where l: "rfold (select_key s) ([], []) ids = Inr (sel, ks)" "sel \<noteq> []"
    and ch: "rall (\<lambda>h. rbind (Chain s (hID h)) (rall (check_hop s sel h))) (Hosts (selection s sel ks)) = Inr ()"
    and r: "r = selection s sel ks" and v: "Validate up r = Inr ()"
    using assms by (auto simp: Select_def Let_def rbind_eq_Inr check_eq_Inr split: prod.splits)
  have "selecting s ([], [])" by (simp add: selecting_def)
  from select_keys_Inr [OF l(1) this] have inv: "selecting s (sel, ks)" and sel: "set sel = set ids"
    by simp_all
  have "map kID ks = rev sel" "distinct sel" using inv by (simp_all add: selecting_def)
  then have ids: "kID ` set ks = set ids" "distinct (map kID ks)"
    using sel by (metis set_map set_rev, metis distinct_rev)
  show ?thesis
  proof
    show "r = selection s ids ks" using r selection_cong [OF sel] by simp
    show "\<forall>k \<in> set ks. State_Key s (kID k) = Inr k" using inv by (simp add: selecting_def)
    show "ids \<noteq> []" using l(2) sel by auto
    show "well_formed up r" using v by (simp add: Validate_iff)
    show "\<forall>h \<in> set (Hosts r). \<exists>hs. Chain s (hID h) = Inr hs \<and> (\<forall>hop \<in> set hs. hKeyID hop \<in> set ids)"
      using ch sel r by (auto simp: rall_eq_Inr rbind_eq_Inr check_hop_Inr)
  qed (fact ids)+
qed

lemma State_Host_selection:
  assumes "State_Host s i = Inr h" "hKeyID h \<in> set sel"
  shows "State_Host (selection s sel ks) i = Inr h"
  using find_id_filter [of hID i "Hosts s" h "\<lambda>h. hKeyID h \<in> set sel"] assms
  by (simp add: State_Host_Inr)

text \<open>A selected host connects through the same hosts as in the source.\<close>

lemma Select_Chain:
  assumes "Select up s ids = Inr r" "h \<in> set (Hosts r)"
  shows "Chain r (hID h) = Chain s (hID h) \<and> ok (Chain s (hID h))"
proof -
  obtain ks where r: "r = selection s ids ks"
    and "\<forall>h \<in> set (Hosts r). \<exists>hs. Chain s (hID h) = Inr hs \<and> (\<forall>hop \<in> set hs. hKeyID hop \<in> set ids)"
    using Select_Inr [OF assms(1)] by metis
  with assms(2) obtain hs where hs: "Chain s (hID h) = Inr hs" "\<forall>hop \<in> set hs. hKeyID hop \<in> set ids"
    by blast
  then have route: "route s (hID h) hs" "length hs \<le> 16" by (simp_all add: Chain_iff_route)
  have "State_Host r (hID g) = Inr g" if "g \<in> set hs" for g
    unfolding r using route_ids [OF route(1) that] hs(2) that
    by (intro State_Host_selection) auto
  with route_mono [OF route(1)] have "route r (hID h) hs" by blast
  with route(2) hs(1) show ?thesis by (metis Chain_iff_route ok_simps(2))
qed

section \<open>Facts about packing\<close>

lemma rfold_cong:
  "(\<And>a x. x \<in> set xs \<Longrightarrow> f a x = g a x) \<Longrightarrow> rfold f a xs = rfold g a xs"
proof (induction xs arbitrary: a)
  case (Cons x xs)
  then show ?case by (cases "g a x") auto
qed simp

text \<open>Packing reads no file but those of the chosen keys.\<close>

lemma Create_reads_chosen:
  assumes "\<And>k p. k \<in> set (Keys s) \<Longrightarrow> kID k \<in> set ids \<Longrightarrow> Path os (kPath k) = Inr p \<Longrightarrow> fs p = fs' p"
  shows "Create up os fs pk c s ids = Create up os fs' pk c s ids"
proof (cases "Select up s ids")
  case (Inr r)
  then obtain ks where r: "r = selection s ids ks" "kID ` set ks = set ids"
    "\<forall>k \<in> set ks. State_Key s (kID k) = Inr k"
    using Select_Inr by metis
  have "key_Read os fs (kPath k) = key_Read os fs' (kPath k)" if "k \<in> set ks" for k
  proof -
    have "k \<in> set (Keys s)" "kID k \<in> set ids" using that r(2,3) by (auto dest: State_KeyD)
    with assms show ?thesis by (cases "Path os (kPath k)") (auto simp: key_Read_def)
  qed
  then have "rfold (bundle_key os fs pk) [] (Keys r) = rfold (bundle_key os fs' pk) [] (Keys r)"
    by (intro rfold_cong) (simp add: r(1) bundle_key_def)
  with Inr show ?thesis by (simp add: Create_def)
qed (simp add: Create_def)

text \<open>A package holds one valid private key per chosen key, and no path of the sender.\<close>

lemma bundle_keys_Inr:
  "rfold (bundle_key os fs pk) acc ks = Inr kb \<Longrightarrow>
     dom (map_of kb) = dom (map_of acc) \<union> kID ` set ks"
  by (induction ks arbitrary: acc)
    (auto simp: res_simps bundle_key_def dom_map_of_update split: sum.splits key_parse.splits)

text \<open>What the package holds of each key.\<close>

definition holds_key :: "os \<Rightarrow> fs \<Rightarrow> (string \<Rightarrow> 's key_parse) \<Rightarrow> (string \<times> string) list \<Rightarrow> key \<Rightarrow> bool" where
  "holds_key os fs pk kb k \<longleftrightarrow>
     (\<exists>b sg. key_Read os fs (kPath k) = Inr b \<and> pk b = ParsedKey sg \<and> map_of kb (kID k) = Some b)"

lemma bundle_key_Inr:
  "bundle_key os fs pk acc k = Inr acc' \<longleftrightarrow>
     (\<exists>b sg. key_Read os fs (kPath k) = Inr b \<and> pk b = ParsedKey sg \<and> acc' = AList.update (kID k) b acc)"
  by (auto simp: bundle_key_def split: sum.splits key_parse.splits)

lemma bundle_keys_hold:
  "rfold (bundle_key os fs pk) acc ks = Inr kb \<Longrightarrow> distinct (map kID ks) \<Longrightarrow>
     (\<forall>k \<in> set ks. holds_key os fs pk kb k) \<and> (\<forall>i. i \<notin> kID ` set ks \<longrightarrow> map_of kb i = map_of acc i)"
proof (induction ks arbitrary: acc)
  case (Cons k ks)
  then obtain a where a: "bundle_key os fs pk acc k = Inr a" "rfold (bundle_key os fs pk) a ks = Inr kb"
    by (auto simp: res_simps)
  then obtain b sg where b: "key_Read os fs (kPath k) = Inr b" "pk b = ParsedKey sg" "a = AList.update (kID k) b acc"
    by (auto simp: bundle_key_Inr)
  from Cons.IH [OF a(2)] Cons.prems(2) have IH: "\<forall>k \<in> set ks. holds_key os fs pk kb k"
    "\<forall>i. i \<notin> kID ` set ks \<longrightarrow> map_of kb i = map_of a i" by auto
  with Cons.prems(2) b(3) have "map_of kb (kID k) = Some b" by (simp add: map_of_update)
  with IH b show ?case by (auto simp: holds_key_def map_of_update)
qed simp

lemma Create_Inr:
  assumes "Create up os fs pk c s ids = Inr data"
  shows "\<exists>r kb. Select up s ids = Inr r \<and> dom (map_of kb) = set ids \<and> length data \<le> MaxPayload \<and>
    (\<forall>k \<in> set (Keys r). holds_key os fs pk kb k) \<and>
    MarshalBundle c \<lparr>bSource = None, bVersion = 1, bState = set_paths ''bundled-key'' r, bKeys = kb\<rparr> = Inr data"
proof -
  obtain r kb where r: "Select up s ids = Inr r" "rfold (bundle_key os fs pk) [] (Keys r) = Inr kb"
    "marshal_bundle c \<lparr>bSource = None, bVersion = 1, bState = set_paths ''bundled-key'' r, bKeys = kb\<rparr> = Inr data"
    using assms by (auto simp: Create_def res_simps)
  obtain ks where ks: "r = selection s ids ks" "kID ` set ks = set ids" "distinct (map kID ks)"
    using Select_Inr [OF r(1)] by metis
  then have "dom (map_of kb) = set ids" using bundle_keys_Inr [OF r(2)] by simp
  moreover have "\<forall>k \<in> set (Keys r). holds_key os fs pk kb k"
    using bundle_keys_hold [OF r(2)] ks by simp
  ultimately show ?thesis using r by (auto simp: marshal_bundle_def res_simps)
qed

text \<open>Only names and presence of key paths matter to validation.\<close>

lemma well_formed_keys:
  assumes "well_formed up s" "Hosts s' = Hosts s" "Tunnels s' = Tunnels s" "Services s' = Services s"
    "map kID (Keys s') = map kID (Keys s)" "map kName (Keys s') = map kName (Keys s)"
    "\<forall>k \<in> set (Keys s'). kPath k \<noteq> []"
  shows "well_formed up s'"
proof -
  have "kID ` set (Keys s') = kID ` set (Keys s)" "kName ` set (Keys s') = kName ` set (Keys s)"
    using assms(5,6) by (metis set_map)+
  moreover have "State_Tunnel s' = State_Tunnel s" using assms(3) by (simp add: State_Tunnel_def fun_eq_iff)
  moreover have "\<forall>k \<in> set (Keys s'). Name (kName k)"
    using assms(1) calculation(2) by (auto simp: well_formed_checks) (metis imageE imageI)
  ultimately show ?thesis
    using assms route_cong [OF assms(2)] by (simp add: well_formed_checks)
qed

lemma set_paths_simps [simp]:
  "Hosts (set_paths p s) = Hosts s" "Tunnels (set_paths p s) = Tunnels s"
  "Services (set_paths p s) = Services s" "Team (set_paths p s) = Team s"
  "History (set_paths p s) = History s" "Settings (set_paths p s) = Settings s"
  "Keys (set_paths p s) = map (\<lambda>k. k\<lparr>kPath := p\<rparr>) (Keys s)"
  by (simp_all add: set_paths_def)

lemma well_formed_set_paths: "well_formed up s \<Longrightarrow> p \<noteq> [] \<Longrightarrow> well_formed up (set_paths p s)"
  by (rule well_formed_keys) auto

lemma utf8_clean_iff:
  "utf8_clean s \<longleftrightarrow> (\<forall>m \<in> set (Team s). json_team m = m) \<and> (\<forall>h \<in> set (Hosts s). json_host h = h) \<and>
     (\<forall>k \<in> set (Keys s). json_key k = k) \<and> (\<forall>t \<in> set (Tunnels s). json_tunnel t = t) \<and>
     (\<forall>v \<in> set (Services s). json_service v = v) \<and> json_settings (Settings s) = Settings s"
proof -
  have m: "map f xs = xs \<longleftrightarrow> (\<forall>x \<in> set xs. f x = x)" for f :: "'x \<Rightarrow> 'x" and xs
    by (induction xs) auto
  show ?thesis
    by (cases s) (simp add: utf8_clean_def json_state_def m)
qed

lemma utf8_empty_settings [simp]: "json_settings empty_settings = empty_settings"
  by (simp add: json_settings_def empty_settings_def to_valid_def runes_def encode_runes_def)

lemma json_key_path: "json_key (k\<lparr>kPath := p\<rparr>) = (json_key k)\<lparr>kPath := to_valid p\<rparr>"
  by (cases k) (simp add: json_key_def)

lemma utf8_clean_set_paths:
  assumes "utf8_clean s" "utf8_valid p"
  shows "utf8_clean (set_paths p s)"
  using assms by (simp add: utf8_clean_iff json_key_path to_valid_id)

lemma utf8_clean_Select:
  assumes "Select up s ids = Inr r" "utf8_clean s"
  shows "utf8_clean r"
proof -
  obtain ks where r: "r = selection s ids ks" "\<forall>k \<in> set ks. State_Key s (kID k) = Inr k"
    using Select_Inr [OF assms(1)] by metis
  then have "set (Keys r) \<subseteq> set (Keys s)" by (auto dest: State_KeyD)
  moreover have "set (Services r) \<subseteq> set (Services s)" using r(1) by (auto simp: selection_def Let_def)
  ultimately show ?thesis using assms(2) r(1) by (auto simp: utf8_clean_iff)
qed

section \<open>What encoding/json keeps\<close>

text \<open>
  What decoding the encoding of a value gives: \<open>Team\<close> has the tag \<open>json:"-"\<close> and is left out,
  invalid UTF-8 in strings is replaced, byte slices are kept.
\<close>

definition wire_state :: "state \<Rightarrow> state" where
  "wire_state s = (json_state s)\<lparr>Team := [], History := map json_history (History s)\<rparr>"

definition wire_bundle :: "team_bundle \<Rightarrow> team_bundle" where
  "wire_bundle b = b\<lparr>bSource := map_option json_source (bSource b), bState := wire_state (bState b)\<rparr>"

definition wire_message :: "sync_message \<Rightarrow> sync_message" where
  "wire_message m = \<lparr>mFeed = to_valid (mFeed m), mNonce = to_valid (mNonce m), mState = wire_state (mState m)\<rparr>"

lemma wire_state_id: "utf8_clean s \<Longrightarrow> Team s = [] \<Longrightarrow> History s = [] \<Longrightarrow> wire_state s = s"
  by (cases s) (auto simp: wire_state_def utf8_clean_def)

text \<open>A selection is written and read back without loss.\<close>

lemma wire_selection:
  assumes "Select up s ids = Inr r" "utf8_clean s" "utf8_valid p"
  shows "wire_state (set_paths p r) = set_paths p r" "\<And>i. i \<in> kID ` set (Keys r) \<Longrightarrow> utf8_valid i"
proof -
  obtain ks where "r = selection s ids ks" using Select_Inr [OF assms(1)] by metis
  then have "Team r = []" "History r = []" by (simp_all add: selection_def Let_def empty_state_def)
  then show "wire_state (set_paths p r) = set_paths p r"
    by (intro wire_state_id utf8_clean_set_paths utf8_clean_Select [OF assms(1,2)] assms(3)) simp_all
  have "\<forall>k \<in> set (Keys r). json_key k = k" using utf8_clean_Select [OF assms(1,2)] by (simp add: utf8_clean_iff)
  then show "utf8_valid i" if "i \<in> kID ` set (Keys r)" for i
    using that by (metis image_iff json_key_def key.select_convs(1) utf8_valid_to_valid)
qed

section \<open>Facts about executables\<close>

lemma le_bytes: "foldr (\<lambda>c acc. code c + 256 * acc) (map (\<lambda>i. char_of (n div 256 ^ i mod 256)) [0..<k]) 0 = n mod 256 ^ k"
proof (induction k arbitrary: n)
  case (Suc k)
  have "[0..<Suc k] = 0 # map Suc [0..<k]" by (simp add: map_Suc_upt upt_conv_Cons del: upt_Suc)
  then have "foldr (\<lambda>c acc. code c + 256 * acc) (map (\<lambda>i. char_of (n div 256 ^ i mod 256)) [0..<Suc k]) 0 =
      n mod 256 + 256 * foldr (\<lambda>c acc. code c + 256 * acc) (map (\<lambda>i. char_of (n div 256 div 256 ^ i mod 256)) [0..<k]) 0"
    by (simp add: o_def div_mult2_eq del: upt_Suc)
  also have "\<dots> = n mod 256 + 256 * (n div 256 mod 256 ^ k)" by (simp only: Suc.IH)
  also have "\<dots> = n mod 256 ^ Suc k" by (simp add: mod_mult2_eq)
  finally show ?case .
qed simp

lemma length_put_uint64 [simp]: "length (put_uint64 n) = 8"
  by (simp add: put_uint64_def)

lemma get_put_uint64: "n < 2 ^ 64 \<Longrightarrow> get_uint64 (put_uint64 n) = n"
proof -
  assume "n < 2 ^ 64"
  moreover have "(256 :: nat) ^ 8 = 2 ^ 64" by simp
  ultimately show ?thesis
    using le_bytes [of n 8] by (simp add: get_uint64_def put_uint64_def)
qed

lemma BaseSize_le: "BaseSize f = Inr n \<Longrightarrow> n \<le> length (xBytes f)"
  by (auto simp: BaseSize_def Let_def res_simps split: if_splits)

text \<open>An executable that carries a package.\<close>

definition attached :: "string \<Rightarrow> string \<Rightarrow> string" where
  "attached base payload = base @ payload @ put_uint64 (length payload) @ magic"

lemma length_attached: "length (attached base payload) = length base + length payload + footer"
  by (simp add: attached_def footer_def)

lemma BaseSize_attached:
  assumes "xBytes f = attached base payload" "length payload \<le> MaxPayload" "xStat f" "xRead f"
  shows "BaseSize f = Inr (length base)"
proof -
  have "length payload < 2 ^ 64" using assms(2) by (simp add: MaxPayload_def)
  then have g: "get_uint64 (put_uint64 (length payload)) = length payload" by (rule get_put_uint64)
  have tail: "drop (length (xBytes f) - footer) (xBytes f) = put_uint64 (length payload) @ magic"
    using assms(1) by (simp add: attached_def footer_def)
  have l: "length (xBytes f) = length base + length payload + footer"
    using assms(1) by (simp add: length_attached)
  show ?thesis
    using assms(2,3,4) unfolding BaseSize_def Let_def tail by (simp add: g l)
qed

lemma WriteExecutable_Inr:
  assumes "WriteExecutable w f payload = Inr out"
  shows "\<exists>n. BaseSize f = Inr n \<and>
    out = (if payload = [] then take n (xBytes f) else attached (take n (xBytes f)) payload)"
  using assms
  by (auto simp: WriteExecutable_def emit_def attached_def res_simps split: if_splits)

lemma WriteExecutable_total:
  assumes "BaseSize f = Inr n" "xRead f" "\<And>p. w p"
  shows "\<exists>out. WriteExecutable w f payload = Inr out"
  using assms by (auto simp: WriteExecutable_def emit_def)

lemma ReadExecutable_attached:
  assumes "files path = Some f" "xBytes f = attached base payload" "length payload \<le> MaxPayload"
    "xStat f" "xRead f"
  shows "ReadExecutable files path = Inr payload"
  using assms BaseSize_attached [OF assms(2-5)] length_attached [of base payload]
  by (simp add: ReadExecutable_def footer_def attached_def)

section \<open>Facts about merging\<close>

text \<open>What the program's two ways of merging records share: nothing that exists is changed, what
  comes in is there afterwards.\<close>

locale record_merge =
  fixes m :: "'a list \<Rightarrow> 'a list \<Rightarrow> ('a \<Rightarrow> string) \<Rightarrow> 'a list res"
  assumes extends: "m old inc f = Inr r \<Longrightarrow> \<exists>new. r = old @ new \<and> set new \<subseteq> set inc
      \<and> distinct (map f new) \<and> f ` set new \<inter> f ` set old = {}"
    and covers: "m old inc f = Inr r \<Longrightarrow> set inc \<subseteq> set r"
begin

lemma keeps:
  assumes "m old inc f = Inr r" "find_id f i old = Some x"
  shows "find_id f i r = Some x"
  using extends [OF assms(1)] assms(2) by (auto simp: find_id_append)

lemma distinct_result:
  assumes "m old inc f = Inr r" "distinct (map f old)"
  shows "distinct (map f r)"
proof -
  obtain new where "r = old @ new" "distinct (map f new)" "f ` set new \<inter> f ` set old = {}"
    using extends [OF assms(1)] by blast
  with assms(2) show ?thesis by (simp add: Int_commute)
qed

lemma finds:
  assumes "m old inc f = Inr r" "distinct (map f old)" "v \<in> set inc"
  shows "find_id f (f v) r = Some v"
  using find_id_distinct [OF distinct_result [OF assms(1,2)]] covers [OF assms(1)] assms(3) by blast

text \<open>A record with the identifier of another one cannot get past the merge.\<close>

lemma agrees:
  assumes "m old inc f = Inr r" "distinct (map f old)" "v \<in> set inc" "find_id f (f v) old = Some x"
  shows "x = v"
  using keeps [OF assms(1,4)] finds [OF assms(1-3)] by simp

end

lemma record_map_snoc: "record_map f (vs @ [v]) = (record_map f vs)(f v \<mapsto> v)"
  by (simp add: record_map_def)

lemma record_map_mem: "record_map f vs i = Some v \<Longrightarrow> v \<in> set vs \<and> f v = i"
  by (induction vs rule: rev_induct) (auto simp: record_map_snoc record_map_def split: if_splits)

lemma record_map_None: "record_map f vs i = None \<longleftrightarrow> i \<notin> f ` set vs"
  by (induction vs rule: rev_induct) (auto simp: record_map_snoc record_map_def)

definition merging :: "('a \<Rightarrow> string) \<Rightarrow> 'a list \<Rightarrow> 'a list \<Rightarrow> 'a list \<times> (string \<Rightarrow> 'a option) \<Rightarrow> bool" where
  "merging f old seen acc \<longleftrightarrow> snd acc = record_map f (fst acc) \<and>
     (\<exists>new. fst acc = old @ new \<and> set new \<subseteq> set seen \<and> distinct (map f new) \<and> f ` set new \<inter> f ` set old = {})
     \<and> set seen \<subseteq> set (fst acc)"

lemma merge_step_merging:
  assumes "merging f old seen acc" "merge_step f acc v = Inr acc'"
  shows "merging f old (seen @ [v]) acc'"
proof (cases "snd acc (f v)")
  case None
  with assms(2) have acc': "acc' = (fst acc @ [v], (snd acc)(f v \<mapsto> v))" by (simp add: merge_step_def)
  obtain new where new: "fst acc = old @ new" "set new \<subseteq> set seen" "distinct (map f new)"
    "f ` set new \<inter> f ` set old = {}" and rm: "snd acc = record_map f (fst acc)" "set seen \<subseteq> set (fst acc)"
    using assms(1) by (auto simp: merging_def)
  have "f v \<notin> f ` set (old @ new)" using None rm(1) new(1) by (metis record_map_None)
  with new have "fst acc' = old @ new @ [v]" "set (new @ [v]) \<subseteq> set (seen @ [v])"
    "distinct (map f (new @ [v]))" "f ` set (new @ [v]) \<inter> f ` set old = {}"
    unfolding acc' by auto
  moreover have "snd acc' = record_map f (fst acc')" "set (seen @ [v]) \<subseteq> set (fst acc')"
    using rm by (auto simp: acc' record_map_snoc)
  ultimately show ?thesis unfolding merging_def by blast
next
  case (Some x)
  with assms(2) have "acc' = acc" "x = v" by (simp_all add: merge_step_def res_simps)
  moreover have "x \<in> set (fst acc)" using Some assms(1) record_map_mem [of f "fst acc" "f v" x]
    by (simp add: merging_def)
  ultimately show ?thesis using assms(1) by (auto simp: merging_def)
qed

lemma merge_fold_merging:
  "rfold (merge_step f) acc inc = Inr acc' \<Longrightarrow> merging f old seen acc \<Longrightarrow> merging f old (seen @ inc) acc'"
proof (induction inc arbitrary: acc seen)
  case (Cons v inc)
  then obtain a where a: "merge_step f acc v = Inr a" "rfold (merge_step f) a inc = Inr acc'"
    by (auto simp: res_simps)
  from Cons.IH [OF a(2) merge_step_merging [OF Cons.prems(2) a(1)]] show ?case by simp
qed simp

lemma merge_merging:
  assumes "merge old inc f = Inr r"
  shows "merging f old inc (r, record_map f r)"
proof -
  obtain acc where acc: "rfold (merge_step f) (old, record_map f old) inc = Inr acc" "r = fst acc"
    using assms by (auto simp: merge_def res_simps)
  have "merging f old [] (old, record_map f old)" by (simp add: merging_def)
  from merge_fold_merging [OF acc(1) this] have "merging f old inc acc" by simp
  with acc(2) show ?thesis by (cases acc) (simp add: merging_def)
qed

lemma merge_fresh:
  "distinct (map f (old @ inc)) \<Longrightarrow> merge old inc f = Inr (old @ inc)"
proof -
  have "distinct (map f (old @ inc)) \<Longrightarrow>
      rfold (merge_step f) (old, record_map f old) inc = Inr (old @ inc, record_map f (old @ inc))"
  proof (induction inc arbitrary: old)
    case (Cons v inc)
    then have "record_map f old (f v) = None" by (auto simp: record_map_None)
    then have "merge_step f (old, record_map f old) v = Inr (old @ [v], record_map f (old @ [v]))"
      by (simp add: merge_step_def record_map_snoc)
    with Cons.IH [of "old @ [v]"] Cons.prems show ?case by simp
  qed simp
  then show "distinct (map f (old @ inc)) \<Longrightarrow> merge old inc f = Inr (old @ inc)"
    by (simp add: merge_def)
qed

interpretation bundle_merge: record_merge merge
proof
  fix old inc f r
  assume "merge old inc f = Inr r"
  from merge_merging [OF this]
  show "\<exists>new. r = old @ new \<and> set new \<subseteq> set inc \<and> distinct (map f new) \<and> f ` set new \<inter> f ` set old = {}"
    and "set inc \<subseteq> set r"
    by (simp_all add: merging_def)
qed

end
