(* ===== verification/TeamSync.thy ===== *)
theory TeamSync
  imports TeamBundle
begin

text \<open>
  internal/provision/sync.go: the signed feed a master serves and a member follows. crypto/ed25519
  enters as \<open>ed25519\<close>, the network as the answer to a request; \<open>us raw host\<close> is net/url's
  \<open>Parse\<close>, assignment to \<open>Host\<close> and \<open>String\<close>. A feed applied refines an override of partial
  functions and leaves everything alone that the source does not manage.
\<close>

section \<open>Sources and signatures\<close>

record ed25519 =
  edSign :: "string \<Rightarrow> string \<Rightarrow> string"
  edVerify :: "string \<Rightarrow> string \<Rightarrow> string \<Rightarrow> bool"
  edPublic :: "string \<Rightarrow> string"

definition PrivateKeySize :: nat where "PrivateKeySize = 64"
definition PublicKeySize :: nat where "PublicKeySize = 32"

definition validHex :: "string \<Rightarrow> bool" where
  "validHex s \<longleftrightarrow> (case DecodeString s of None \<Rightarrow> False | Some b \<Rightarrow> length b = 32)"

definition source_url_ok :: "url \<Rightarrow> bool" where
  "source_url_ok u \<longleftrightarrow> uScheme u = ''http'' \<and> \<not> uHasUser u \<and> uRawQuery u = [] \<and> uFragment u = []
     \<and> uPath u = [] \<and> url_Port u = ''9877''"

definition local_ipv4 :: "string \<Rightarrow> bool" where
  "local_ipv4 s \<longleftrightarrow>
     (case ParseIP s of
        None \<Rightarrow> False
      | Some ip \<Rightarrow> To4 ip \<noteq> None \<and> (IsPrivate ip \<or> IsLoopback ip \<or> IsLinkLocalUnicast ip))"

definition ValidateSource :: "(string \<Rightarrow> url option) \<Rightarrow> team_source \<Rightarrow> unit res" where
  "ValidateSource up src =
     (case up (tsURL src) of
        None \<Rightarrow> Inl (ShareErr BadSourceURL)
      | Some u \<Rightarrow>
          rbind (check (source_url_ok u) (ShareErr BadSourceURL))
          (\<lambda>_. rbind (check (local_ipv4 (Hostname u)) (ShareErr SourceNotLocal))
          (\<lambda>_. check (validHex (tsFeed src) \<and> length (tsPublicKey src) = PublicKeySize) (ShareErr BadSyncInfo))))"

definition SameSource :: "team_source \<Rightarrow> team_source \<Rightarrow> bool" where
  "SameSource a b \<longleftrightarrow> tsFeed a = tsFeed b \<and> tsPublicKey a = tsPublicKey b"

section \<open>The master: preparing and signing a feed\<close>

text \<open>\<open>gen\<close> is the new signing key; the feed is named by two identifiers.\<close>

definition PrepareFeed ::
  "(stmt \<Rightarrow> bool) \<Rightarrow> codec \<Rightarrow> ed25519 \<Rightarrow> string res \<Rightarrow> (nat \<Rightarrow> string) \<Rightarrow> nat \<Rightarrow> string list \<Rightarrow> db \<Rightarrow>
   (string \<times> string) res \<times> db" where
  "PrepareFeed q c ed gen rnd n ids d =
     (case LocalValue q ''team-signing-key'' (Some gen) d of
        (Inl e, d1) \<Rightarrow> (Inl e, d1)
      | (Inr secret, d1) \<Rightarrow>
          if length secret \<noteq> PrivateKeySize then (Inl (ShareErr BadSharingIdentity), d1)
          else let feed = ID rnd n @ ID rnd (Suc n) in
            (case LocalValue q (''feed/'' @ feed) (Some (MarshalIDs c ids)) d1 of
               (Inl e, d2) \<Rightarrow> (Inl e, d2)
             | (Inr _, d2) \<Rightarrow> (Inr (feed, edPublic ed secret), d2)))"

definition SignFeed ::
  "(string \<Rightarrow> url option) \<Rightarrow> (stmt \<Rightarrow> bool) \<Rightarrow> codec \<Rightarrow> ed25519 \<Rightarrow> db \<Rightarrow> string \<Rightarrow> string \<Rightarrow> signed_sync res" where
  "SignFeed up q c ed d feed nonce =
     rbind (check (validHex feed \<and> validHex nonce) (ShareErr BadFeedRequest))
     (\<lambda>_. rbind (case fst (LocalValue q (''feed/'' @ feed) None d) of
              Inl _ \<Rightarrow> Inl (ShareErr FeedNotFound) | Inr data \<Rightarrow> Inr data)
     (\<lambda>data. rbind (UnmarshalIDs c data)
     (\<lambda>ids. rbind (Snapshot q d)
     (\<lambda>s. let existing = filter (\<lambda>i. ok (State_Key s i)) ids in
       rbind (if existing \<noteq> [] then Select up s existing else Inr empty_state)
     (\<lambda>scoped. rbind (MarshalMessage c \<lparr>mFeed = feed, mNonce = nonce,
                  mState = set_paths ''local-key-preserved'' scoped\<rparr>)
     (\<lambda>msg. rbind (fst (LocalValue q ''team-signing-key'' None d))
     (\<lambda>secret. rbind (check (length secret = PrivateKeySize) (ShareErr BadSharingIdentity))
     (\<lambda>_. Inr \<lparr>sMessage = msg, sSignature = edSign ed secret msg\<rparr>))))))))"

section \<open>The member: fetching and verifying\<close>

definition VerifyFeed ::
  "(string \<Rightarrow> url option) \<Rightarrow> codec \<Rightarrow> ed25519 \<Rightarrow> team_source \<Rightarrow> string \<Rightarrow> string \<Rightarrow> state res" where
  "VerifyFeed up c ed src nonce raw =
     (case UnmarshalSigned c raw of
        Inl _ \<Rightarrow> Inl (ShareErr BadSignature)
      | Inr sg \<Rightarrow>
          if length (tsPublicKey src) \<noteq> PublicKeySize
             \<or> \<not> edVerify ed (tsPublicKey src) (sMessage sg) (sSignature sg)
          then Inl (ShareErr BadSignature)
          else (case UnmarshalMessage c (sMessage sg) of
              Inl _ \<Rightarrow> Inl (ShareErr SyncMismatch)
            | Inr m \<Rightarrow>
                if mFeed m \<noteq> tsFeed src \<or> mNonce m \<noteq> nonce then Inl (ShareErr SyncMismatch)
                else rbind (Validate up (mState m)) (\<lambda>_. Inr (mState m))))"

text \<open>What a request yields: no request, no answer, or a status with a body that can be read or not.\<close>

datatype http_answer = NoRequest string | NoAnswer | Answer int string bool

definition FetchFeed ::
  "(string \<Rightarrow> url option) \<Rightarrow> codec \<Rightarrow> ed25519 \<Rightarrow> (string \<Rightarrow> http_answer) \<Rightarrow> (nat \<Rightarrow> string) \<Rightarrow> nat \<Rightarrow>
   team_source \<Rightarrow> state res" where
  "FetchFeed up c ed get rnd n src =
     rbind (ValidateSource up src)
     (\<lambda>_. let nonce = ID rnd n @ ID rnd (Suc n) in
       case get (tsURL src @ ''/sync/'' @ tsFeed src @ ''?nonce='' @ nonce) of
         NoRequest e \<Rightarrow> Inl (Ext e)
       | NoAnswer \<Rightarrow> Inl (ShareErr SourceUnreachable)
       | Answer status body readable \<Rightarrow>
           if status \<noteq> 200 then Inl (ShareErr (SourceStatus status))
           else let raw = take (MaxPayload + 1) body in
             if \<not> readable \<or> MaxPayload < length raw then Inl (ShareErr SyncTooLarge)
             else VerifyFeed up c ed src nonce raw)"

section \<open>Applying a feed\<close>

definition item_key :: "string \<Rightarrow> string \<Rightarrow> string" where
  "item_key kind i = kind @ ''/'' @ i"

definition track :: "(string \<times> string) list \<Rightarrow> string \<Rightarrow> ('a \<Rightarrow> string) \<Rightarrow> 'a list \<Rightarrow> (string \<times> string) list" where
  "track items kind f vs = fold (\<lambda>v. AList.update (item_key kind (f v)) ''current'') vs items"

definition Track :: "state \<Rightarrow> (string \<times> string) list" where
  "Track s = track (track (track (track [] ''hosts'' hID (Hosts s)) ''keys'' kID (Keys s))
     ''tunnels'' tID (Tunnels s)) ''services'' sID (Services s)"

definition bad_id :: "string \<Rightarrow> bool" where
  "bad_id k \<longleftrightarrow> k = [] \<or> 128 < length k
     \<or> ContainsAny k (''/'' @ [CHR 0x5C, CHR 0x00, CHR 0x0D, CHR 0x0A])"

text \<open>One turn of \<open>syncRecords\<close>: the identifiers seen, and the slice so far.\<close>

definition sync_step ::
  "string \<Rightarrow> (string \<times> string) list \<Rightarrow> ('a \<Rightarrow> string) \<Rightarrow> string list \<times> 'a list \<Rightarrow> 'a \<Rightarrow> (string list \<times> 'a list) res" where
  "sync_step kind owned f acc v =
     rbind (check (\<not> (bad_id (f v) \<or> f v \<in> set (fst acc))) (ShareErr SyncBadID))
     (\<lambda>_. case replace_first f (f v) v (snd acc) of
        None \<Rightarrow> Inr (f v # fst acc, snd acc @ [v])
      | Some ys \<Rightarrow>
          rbind (check (map_of owned (item_key kind (f v)) \<noteq> None) (ShareErr SyncPersonalConflict))
          (\<lambda>_. Inr (f v # fst acc, ys)))"

definition syncRecords ::
  "'a list \<Rightarrow> 'a list \<Rightarrow> string \<Rightarrow> (string \<times> string) list \<Rightarrow> ('a \<Rightarrow> string) \<Rightarrow> 'a list res" where
  "syncRecords old incoming kind owned f =
     rbind (rfold (sync_step kind owned f) ([], old) incoming) (\<lambda>acc. Inr (snd acc))"

definition local_path :: "state \<Rightarrow> (string \<times> string) list \<Rightarrow> key \<Rightarrow> key res" where
  "local_path s owned k =
     (case State_Key s (kID k) of
        Inl _ \<Rightarrow> Inl (ShareErr SyncNewKey)
      | Inr l \<Rightarrow>
          rbind (check (item owned (item_key ''keys'' (kID k)) \<noteq> []) (ShareErr SyncNewKey))
          (\<lambda>_. Inr (k\<lparr>kPath := kPath l\<rparr>)))"

definition mark_missing :: "(string \<times> string) list \<Rightarrow> (string \<times> string) list \<Rightarrow> (string \<times> string) list" where
  "mark_missing owned current =
     fold (\<lambda>(i, _) c. if item c i = [] then AList.update i ''missing'' c else c) owned current"

definition relink ::
  "(string \<Rightarrow> string \<Rightarrow> string option) \<Rightarrow> state \<Rightarrow> (string \<times> string) list \<Rightarrow> service \<Rightarrow> service res" where
  "relink us s current v =
     (if item current (item_key ''services'' (sID v)) \<noteq> ''missing'' then Inr v
      else rbind (State_Tunnel s (sTunnelID v))
        (\<lambda>t. case us (sURL v) (JoinHostPort ''127.0.0.1'' (Itoa (tLocalPort t))) of
           None \<Rightarrow> Inl (ShareErr BadURL)
         | Some u \<Rightarrow> Inr (v\<lparr>sURL := u\<rparr>)))"

text \<open>\<open>now\<close> is the time as RFC 3339.\<close>

definition ApplyFeed ::
  "(string \<Rightarrow> string \<Rightarrow> string option) \<Rightarrow> string \<Rightarrow> nat \<Rightarrow> state \<Rightarrow> state \<Rightarrow> state res" where
  "ApplyFeed us now i incoming s =
     (let sub = Team s ! i; owned = Items sub in
      rbind (rmap (local_path s owned) (Keys incoming))
      (\<lambda>inkeys. rbind (syncRecords (Keys s) inkeys ''keys'' owned kID)
      (\<lambda>ks. rbind (syncRecords (Hosts s) (Hosts incoming) ''hosts'' owned hID)
      (\<lambda>hs. rbind (syncRecords (Tunnels s) (Tunnels incoming) ''tunnels'' owned tID)
      (\<lambda>ts. rbind (syncRecords (Services s) (Services incoming) ''services'' owned sID)
      (\<lambda>vs. let current = mark_missing owned (Track incoming);
              s1 = s\<lparr>Keys := ks, Hosts := hs, Tunnels := ts, Services := vs\<rparr> in
        rbind (rmap (relink us s1 current) vs)
        (\<lambda>vs'. Inr (s1\<lparr>Services := vs',
             Team := (Team s)[i := sub\<lparr>Items := current, LastSync := now, SubError := []\<rparr>]\<rparr>))))))))"

section \<open>Sources of a package\<close>

definition AttachSource ::
  "(string \<Rightarrow> url option) \<Rightarrow> codec \<Rightarrow> string \<Rightarrow> team_source \<Rightarrow> string res" where
  "AttachSource up c payload src =
     rbind (ValidateSource up src)
     (\<lambda>_. rbind (UnmarshalBundle c payload)
     (\<lambda>b. marshal_bundle c (b\<lparr>bSource := Some src\<rparr>)))"

definition retained :: "(string \<times> string) list \<Rightarrow> key list \<Rightarrow> (string \<times> string) list" where
  "retained old ks = fold (\<lambda>k. AList.update (kID k) (item old (kID k))) ks []"

definition RefreshBundle ::
  "(string \<Rightarrow> url option) \<Rightarrow> (stmt \<Rightarrow> bool) \<Rightarrow> codec \<Rightarrow> string \<Rightarrow> db \<Rightarrow> string res" where
  "RefreshBundle up q c payload d =
     (if payload = [] then Inr []
      else rbind (UnmarshalBundle c payload)
      (\<lambda>b. rbind (Snapshot q d)
      (\<lambda>s. let ids = filter (\<lambda>i. ok (State_Key s i)) (map kID (Keys (bState b))) in
        rbind (check (ids \<noteq> []) (ShareErr NoSharedKeys))
      (\<lambda>_. rbind (Select up s ids)
      (\<lambda>st. marshal_bundle c (b\<lparr>bState := set_paths ''bundled-key'' st,
            bKeys := retained (bKeys b) (Keys st)\<rparr>))))))"

text \<open>The loop of \<open>registerSource\<close>: the subscriptions with the source's address brought up to
  date, or none when the source is new.\<close>

fun register_loop ::
  "team_source \<Rightarrow> (string \<times> string) list \<Rightarrow> team_subscription list \<Rightarrow> team_subscription list option res" where
  "register_loop src items [] = Inr None"
| "register_loop src items (sub # subs) =
     (if SameSource (Source sub) src
      then Inr (Some (sub\<lparr>Source := (Source sub)\<lparr>tsURL := tsURL src\<rparr>\<rparr> # subs))
      else if list_ex (\<lambda>(i, _). item (Items sub) i \<noteq> []) items
      then Inl (ShareErr OtherSourceConflict)
      else rbind (register_loop src items subs) (\<lambda>r. Inr (map_option ((#) sub) r)))"

definition registerSource :: "state \<Rightarrow> team_source \<Rightarrow> state \<Rightarrow> state res" where
  "registerSource s src incoming =
     rbind (register_loop src (Track incoming) (Team s))
     (\<lambda>r. Inr (s\<lparr>Team := (case r of
          Some team \<Rightarrow> team
        | None \<Rightarrow> Team s @ [\<lparr>Source = src, Items = Track incoming, LastSync = [], SubError = [], Paused = False\<rparr>])\<rparr>))"


section \<open>Facts about the tracked items\<close>

lemma item_update: "item (AList.update k v m) j = (if j = k then v else item m j)"
  by (simp add: item_def map_of_update)

lemma item_map_of: "item m k \<noteq> [] \<Longrightarrow> map_of m k \<noteq> None"
  by (cases "map_of m k") (auto simp: item_def)

lemma item_track:
  "item (track m kind f vs) i = (if i \<in> item_key kind ` f ` set vs then ''current'' else item m i)"
  by (induction vs arbitrary: m) (auto simp: track_def item_update)

lemma map_of_track:
  "map_of (track m kind f vs) i = (if i \<in> item_key kind ` f ` set vs then Some ''current'' else map_of m i)"
  by (induction vs arbitrary: m) (auto simp: track_def map_of_update)

definition tracked :: "state \<Rightarrow> string set" where
  "tracked s = item_key ''hosts'' ` hID ` set (Hosts s) \<union> item_key ''keys'' ` kID ` set (Keys s)
     \<union> item_key ''tunnels'' ` tID ` set (Tunnels s) \<union> item_key ''services'' ` sID ` set (Services s)"

lemma map_of_Track: "map_of (Track s) i = (if i \<in> tracked s then Some ''current'' else None)"
  by (auto simp: Track_def map_of_track tracked_def)

lemma item_Track: "item (Track s) i = (if i \<in> tracked s then ''current'' else [])"
  by (simp add: item_def map_of_Track)

lemma item_mark_missing:
  "item (mark_missing owned c) i =
     (if item c i \<noteq> [] then item c i else if i \<in> fst ` set owned then ''missing'' else [])"
proof (induction owned arbitrary: c)
  case (Cons p owned)
  obtain j v where p: "p = (j, v)" by (cases p)
  have "mark_missing (p # owned) c = mark_missing owned (if item c j = [] then AList.update j ''missing'' c else c)"
    by (simp add: mark_missing_def p)
  with Cons.IH show ?case by (auto simp: p item_update)
qed (auto simp: mark_missing_def)

lemma item_marked:
  "item (mark_missing owned (Track s)) i =
     (if i \<in> tracked s then ''current'' else if i \<in> fst ` set owned then ''missing'' else [])"
  by (simp add: item_mark_missing item_Track)

lemma dom_mark_missing: "dom (map_of (mark_missing owned c)) = dom (map_of c) \<union> {i \<in> fst ` set owned. item c i = []}"
proof (induction owned arbitrary: c)
  case (Cons p owned)
  obtain j v where p: "p = (j, v)" by (cases p)
  have "mark_missing (p # owned) c = mark_missing owned (if item c j = [] then AList.update j ''missing'' c else c)"
    by (simp add: mark_missing_def p)
  with Cons.IH show ?case by (auto simp: p item_update dom_map_of_update split: if_splits)
qed (auto simp: mark_missing_def)

text \<open>Keys of different kinds are different items.\<close>

lemma item_key_inj: "CHR ''/'' \<notin> set k \<Longrightarrow> CHR ''/'' \<notin> set l \<Longrightarrow> item_key k i = item_key l j \<longleftrightarrow> k = l \<and> i = j"
  unfolding item_key_def
proof (induction k arbitrary: l)
  case Nil
  then show ?case by (cases l) auto
next
  case (Cons a k)
  then show ?case by (cases l) auto
qed

section \<open>Facts about replacing records\<close>

lemma replace_first_ids: "replace_first f (f v) v xs = Some ys \<Longrightarrow> map f ys = map f xs"
  by (auto simp: replace_first_Some)

lemma find_id_replace_first:
  "replace_first f (f v) v xs = Some ys \<Longrightarrow> find_id f i ys = (if i = f v then Some v else find_id f i xs)"
proof (induction xs arbitrary: ys)
  case (Cons x xs)
  then show ?case by (cases "f x = f v") auto
qed simp

lemma sync_step_Inr:
  assumes "sync_step kind owned f acc v = Inr acc'"
  shows "fst acc' = f v # fst acc" "\<not> bad_id (f v)" "f v \<notin> set (fst acc)"
    "find_id f i (snd acc') = (if i = f v then Some v else find_id f i (snd acc))"
    "f v \<in> f ` set (snd acc) \<Longrightarrow> map_of owned (item_key kind (f v)) \<noteq> None"
    "\<exists>new. map f (snd acc') = map f (snd acc) @ new"
    "set (snd acc') \<subseteq> insert v (set (snd acc))"
proof -
  have b: "\<not> bad_id (f v)" "f v \<notin> set (fst acc)"
    and c: "case replace_first f (f v) v (snd acc) of
        None \<Rightarrow> acc' = (f v # fst acc, snd acc @ [v])
      | Some ys \<Rightarrow> map_of owned (item_key kind (f v)) \<noteq> None \<and> acc' = (f v # fst acc, ys)"
    using assms by (auto simp: sync_step_def res_simps split: option.splits)
  show "\<not> bad_id (f v)" "f v \<notin> set (fst acc)" by (fact b)+
  consider (new) "replace_first f (f v) v (snd acc) = None" "acc' = (f v # fst acc, snd acc @ [v])"
    | (old) ys where "replace_first f (f v) v (snd acc) = Some ys"
        "map_of owned (item_key kind (f v)) \<noteq> None" "acc' = (f v # fst acc, ys)"
    using c by (auto split: option.splits)
  then have "fst acc' = f v # fst acc
    \<and> find_id f i (snd acc') = (if i = f v then Some v else find_id f i (snd acc))
    \<and> (f v \<in> f ` set (snd acc) \<longrightarrow> map_of owned (item_key kind (f v)) \<noteq> None)
    \<and> (\<exists>new. map f (snd acc') = map f (snd acc) @ new)
    \<and> set (snd acc') \<subseteq> insert v (set (snd acc))"
  proof cases
    case new
    then have fresh: "f v \<notin> f ` set (snd acc)" by (simp add: replace_first_None)
    then have "find_id f (f v) (snd acc) = None" by (simp add: find_id_None_iff)
    with new fresh show ?thesis by (auto simp: find_id_append split: option.splits)
  next
    case old
    from old(1) have "set ys \<subseteq> insert v (set (snd acc))" by (auto simp: replace_first_Some)
    with old replace_first_ids [OF old(1)] find_id_replace_first [OF old(1)] show ?thesis by simp
  qed
  then show "fst acc' = f v # fst acc"
    "find_id f i (snd acc') = (if i = f v then Some v else find_id f i (snd acc))"
    "f v \<in> f ` set (snd acc) \<Longrightarrow> map_of owned (item_key kind (f v)) \<noteq> None"
    "\<exists>new. map f (snd acc') = map f (snd acc) @ new"
    "set (snd acc') \<subseteq> insert v (set (snd acc))"
    by blast+
qed

lemma sync_fold_Inr:
  assumes "rfold (sync_step kind owned f) acc inc = Inr acc'"
  shows "distinct (map f inc) \<and> (\<forall>v \<in> set inc. \<not> bad_id (f v) \<and> f v \<notin> set (fst acc))
    \<and> by_id f (snd acc') = by_id f (snd acc) ++ by_id f inc
    \<and> (\<forall>v \<in> set inc. f v \<in> f ` set (snd acc) \<longrightarrow> map_of owned (item_key kind (f v)) \<noteq> None)
    \<and> (\<exists>new. map f (snd acc') = map f (snd acc) @ new)
    \<and> set (snd acc') \<subseteq> set inc \<union> set (snd acc)"
  using assms
proof (induction inc arbitrary: acc)
  case Nil
  then show ?case by (auto simp: by_id_def map_add_def)
next
  case (Cons v inc)
  then obtain a where a: "sync_step kind owned f acc v = Inr a" "rfold (sync_step kind owned f) a inc = Inr acc'"
    by (auto simp: res_simps)
  note s = sync_step_Inr [OF a(1)] and IH = Cons.IH [OF a(2)]
  have v: "f v \<notin> f ` set inc" using IH s(1) by auto
  have "by_id f (snd acc') i = (by_id f (snd acc) ++ by_id f (v # inc)) i" for i
  proof (cases "i = f v")
    case True
    with v have "find_id f i inc = None" by (simp add: find_id_None_iff)
    with True IH s(4) [of i] show ?thesis by (simp add: by_id_def map_add_def)
  next
    case False
    have "by_id f (snd acc') i = (by_id f (snd a) ++ by_id f inc) i" using IH by simp
    with False s(4) [of i] show ?thesis by (simp add: by_id_def map_add_def split: option.splits)
  qed
  moreover have "\<forall>w \<in> set (v # inc). f w \<in> f ` set (snd acc) \<longrightarrow> map_of owned (item_key kind (f w)) \<noteq> None"
  proof
    fix w
    assume "w \<in> set (v # inc)"
    moreover have "f ` set (snd acc) \<subseteq> f ` set (snd a)" using s(6) by (metis Un_upper1 set_append set_map)
    moreover have "w \<in> set inc \<Longrightarrow> f w \<in> f ` set (snd a) \<Longrightarrow> map_of owned (item_key kind (f w)) \<noteq> None"
      using IH by simp
    ultimately show "f w \<in> f ` set (snd acc) \<longrightarrow> map_of owned (item_key kind (f w)) \<noteq> None"
      using s(5) by (metis set_ConsD subsetD)
  qed
  moreover have "\<exists>new. map f (snd acc') = map f (snd acc) @ new" using IH s(6) by fastforce
  moreover have "set (snd acc') \<subseteq> set (v # inc) \<union> set (snd acc)" using IH s(7) by auto
  ultimately show ?case
    using IH s(1-3) v by (simp add: fun_eq_iff)
qed

text \<open>
  \<open>syncRecords\<close> overrides the old records by the incoming ones: identifiers are proper and used
  once, only managed records are replaced, and no record disappears.
\<close>

lemma syncRecords_Inr:
  assumes "syncRecords old inc kind owned f = Inr r"
  shows "by_id f r = by_id f old ++ by_id f inc" "distinct (map f inc)"
    "v \<in> set inc \<Longrightarrow> \<not> bad_id (f v)"
    "v \<in> set inc \<Longrightarrow> f v \<in> f ` set old \<Longrightarrow> map_of owned (item_key kind (f v)) \<noteq> None"
    "\<exists>new. map f r = map f old @ new" "set r \<subseteq> set inc \<union> set old"
proof -
  obtain acc where "rfold (sync_step kind owned f) ([], old) inc = Inr acc" "r = snd acc"
    using assms by (auto simp: syncRecords_def res_simps)
  with sync_fold_Inr [OF this(1)] show "by_id f r = by_id f old ++ by_id f inc" "distinct (map f inc)"
    "v \<in> set inc \<Longrightarrow> \<not> bad_id (f v)"
    "v \<in> set inc \<Longrightarrow> f v \<in> f ` set old \<Longrightarrow> map_of owned (item_key kind (f v)) \<noteq> None"
    "\<exists>new. map f r = map f old @ new" "set r \<subseteq> set inc \<union> set old"
    by auto
qed

text \<open>A record the source does not manage is out of its reach.\<close>

lemma syncRecords_personal:
  assumes "syncRecords old inc kind owned f = Inr r" "find_id f i old = Some x"
    "map_of owned (item_key kind i) = None"
  shows "find_id f i r = Some x"
proof -
  have "i \<in> f ` set old" using find_id_SomeD [OF assms(2)] by auto
  have "i \<notin> f ` set inc"
  proof
    assume "i \<in> f ` set inc"
    then obtain v where "v \<in> set inc" "f v = i" by auto
    with syncRecords_Inr(4) [OF assms(1) this(1)] \<open>i \<in> f ` set old\<close> assms(3) show False by simp
  qed
  then have "find_id f i inc = None" by (simp add: find_id_None_iff)
  with assms(2) fun_cong [OF syncRecords_Inr(1) [OF assms(1)], of i]
  show ?thesis by (simp add: by_id_def map_add_def)
qed

section \<open>Facts about applying a feed\<close>

lemma local_path_Inr:
  "local_path s owned k = Inr k' \<longleftrightarrow>
     (\<exists>l. State_Key s (kID k) = Inr l \<and> item owned (item_key ''keys'' (kID k)) \<noteq> [] \<and> k' = k\<lparr>kPath := kPath l\<rparr>)"
  by (auto simp: local_path_def res_simps split: sum.splits)

text \<open>Relinking a service: only its URL may change, and only if the source no longer has it.\<close>

lemma relink_Inr:
  assumes "relink us s current v = Inr v'"
  shows "v' = v\<lparr>sURL := sURL v'\<rparr>" "item current (item_key ''services'' (sID v)) \<noteq> ''missing'' \<Longrightarrow> v' = v"
  using assms by (auto simp: relink_def res_simps split: if_splits option.splits)

lemma relink_id: "relink us s current v = Inr v' \<Longrightarrow> sID v' = sID v"
  using relink_Inr(1) [of us s current v v'] by (cases v, cases v') auto

text \<open>Everything a successful application does, in one place.\<close>

lemma ApplyFeed_Inr:
  assumes "ApplyFeed us now i incoming s = Inr s'"
  obtains inkeys vs where
    "rmap (local_path s (Items (Team s ! i))) (Keys incoming) = Inr inkeys"
    "syncRecords (Keys s) inkeys ''keys'' (Items (Team s ! i)) kID = Inr (Keys s')"
    "syncRecords (Hosts s) (Hosts incoming) ''hosts'' (Items (Team s ! i)) hID = Inr (Hosts s')"
    "syncRecords (Tunnels s) (Tunnels incoming) ''tunnels'' (Items (Team s ! i)) tID = Inr (Tunnels s')"
    "syncRecords (Services s) (Services incoming) ''services'' (Items (Team s ! i)) sID = Inr vs"
    "list_all2 (\<lambda>v v'. relink us s' (mark_missing (Items (Team s ! i)) (Track incoming)) v = Inr v') vs (Services s')"
    "History s' = History s" "Settings s' = Settings s"
    "Team s' = (Team s)[i := (Team s ! i)\<lparr>Items := mark_missing (Items (Team s ! i)) (Track incoming),
        LastSync := now, SubError := []\<rparr>]"
proof -
  have relink_cong: "Tunnels a = Tunnels b \<Longrightarrow> relink us a = relink us b" for a b
    by (simp add: relink_def State_Tunnel_def fun_eq_iff)
  from assms obtain inkeys ks hs ts vs vs' where
    e: "rmap (local_path s (Items (Team s ! i))) (Keys incoming) = Inr inkeys"
    "syncRecords (Keys s) inkeys ''keys'' (Items (Team s ! i)) kID = Inr ks"
    "syncRecords (Hosts s) (Hosts incoming) ''hosts'' (Items (Team s ! i)) hID = Inr hs"
    "syncRecords (Tunnels s) (Tunnels incoming) ''tunnels'' (Items (Team s ! i)) tID = Inr ts"
    "syncRecords (Services s) (Services incoming) ''services'' (Items (Team s ! i)) sID = Inr vs"
    and r: "rmap (relink us (s\<lparr>Keys := ks, Hosts := hs, Tunnels := ts, Services := vs\<rparr>)
        (mark_missing (Items (Team s ! i)) (Track incoming))) vs = Inr vs'"
    and s': "s' = s\<lparr>Keys := ks, Hosts := hs, Tunnels := ts, Services := vs',
        Team := (Team s)[i := (Team s ! i)\<lparr>Items := mark_missing (Items (Team s ! i)) (Track incoming),
        LastSync := now, SubError := []\<rparr>]\<rparr>"
    by (auto simp: ApplyFeed_def Let_def rbind_eq_Inr)
  have "relink us (s\<lparr>Keys := ks, Hosts := hs, Tunnels := ts, Services := vs\<rparr>) = relink us s'"
    by (rule relink_cong) (simp add: s')
  with r have "list_all2 (\<lambda>v v'. relink us s' (mark_missing (Items (Team s ! i)) (Track incoming)) v = Inr v') vs vs'"
    by (simp add: rmap_Inr)
  with e s' that show ?thesis by simp
qed

lemma list_all2_eq_set:
  assumes "list_all2 R xs ys" "\<And>x y. R x y \<Longrightarrow> P y"
  shows "\<forall>y \<in> set ys. P y"
  using assms by (induction rule: list_all2_induct) auto

lemma find_id_local_keys:
  assumes "rmap (local_path s owned) inc = Inr inkeys"
  shows "find_id kID i inkeys = map_option (\<lambda>k. k\<lparr>kPath := kPath (projr (State_Key s i))\<rparr>) (find_id kID i inc)"
proof -
  have all: "list_all2 (\<lambda>k k'. local_path s owned k = Inr k') inc inkeys" using assms by (simp add: rmap_Inr)
  have "rel_option (\<lambda>k k'. local_path s owned k = Inr k') (find_id kID i inc) (find_id kID i inkeys)"
    by (rule find_id_all2 [OF all]) (auto simp: local_path_Inr)
  then show ?thesis
    by (cases "find_id kID i inc"; cases "find_id kID i inkeys") (auto simp: local_path_Inr dest: find_id_SomeD)
qed

lemma ids_local_keys:
  assumes "rmap (local_path s owned) inc = Inr inkeys"
  shows "kID ` set inkeys = kID ` set inc" "kID ` set inc \<subseteq> kID ` set (Keys s)"
proof -
  have all: "list_all2 (\<lambda>k k'. local_path s owned k = Inr k') inc inkeys" using assms by (simp add: rmap_Inr)
  then have "map kID inkeys = map kID inc"
    by (induction rule: list_all2_induct) (auto simp: local_path_Inr)
  then show "kID ` set inkeys = kID ` set inc" by (metis set_map)
  from all show "kID ` set inc \<subseteq> kID ` set (Keys s)"
    by (induction rule: list_all2_induct) (auto simp: local_path_Inr ok_State_Key [symmetric])
qed


section \<open>The specification of a feed\<close>

text \<open>A configuration as partial functions of identifiers.\<close>

record config_view =
  vKeys :: "string \<Rightarrow> key option"
  vHosts :: "string \<Rightarrow> host option"
  vTunnels :: "string \<Rightarrow> tunnel option"
  vServices :: "string \<Rightarrow> service option"

definition view :: "state \<Rightarrow> config_view" where
  "view s = \<lparr>vKeys = by_id kID (Keys s), vHosts = by_id hID (Hosts s), vTunnels = by_id tID (Tunnels s),
     vServices = by_id sID (Services s)\<rparr>"

text \<open>
  What a feed does: its records override the member's, except for the paths of keys. A web link
  the source managed and no longer sends is kept, its URL moved to the local port its tunnel now
  has; every other link of the member stays as it is. \<open>managed\<close> are the items of the subscription.
\<close>

definition moved_link :: "(string \<Rightarrow> string \<Rightarrow> string option) \<Rightarrow> (string \<Rightarrow> tunnel option) \<Rightarrow> service \<Rightarrow> service" where
  "moved_link us tunnels v =
     v\<lparr>sURL := the (us (sURL v) (''127.0.0.1:'' @ Itoa (tLocalPort (the (tunnels (sTunnelID v))))))\<rparr>"

definition feed_spec ::
  "(string \<Rightarrow> string \<Rightarrow> string option) \<Rightarrow> string set \<Rightarrow> config_view \<Rightarrow> config_view \<Rightarrow> config_view" where
  "feed_spec us managed a b =
     \<lparr>vKeys = (\<lambda>j. case vKeys b j of None \<Rightarrow> vKeys a j
          | Some k \<Rightarrow> Some (k\<lparr>kPath := kPath (the (vKeys a j))\<rparr>)),
      vHosts = vHosts a ++ vHosts b, vTunnels = vTunnels a ++ vTunnels b,
      vServices = (\<lambda>j. case vServices b j of Some v \<Rightarrow> Some v
          | None \<Rightarrow> if ''services/'' @ j \<in> managed
              then map_option (moved_link us (vTunnels a ++ vTunnels b)) (vServices a j)
              else vServices a j)\<rparr>"

lemma find_id_relinked:
  assumes "list_all2 (\<lambda>v v'. relink us s current v = Inr v') vs vs'"
  shows "rel_option (\<lambda>v v'. relink us s current v = Inr v') (find_id sID j vs) (find_id sID j vs')"
  using assms by (rule find_id_all2) (rule relink_id)

lemma by_id_relinked:
  assumes l: "list_all2 (\<lambda>v v'. relink us s' (mark_missing owned (Track incoming)) v = Inr v') vs vs'"
    and vs: "syncRecords old (Services incoming) ''services'' owned sID = Inr vs"
  shows "by_id sID vs' j = (case by_id sID (Services incoming) j of Some v \<Rightarrow> Some v
    | None \<Rightarrow> if ''services/'' @ j \<in> fst ` set owned
        then map_option (moved_link us (by_id tID (Tunnels s'))) (by_id sID old j) else by_id sID old j)"
proof -
  have k: "''services/'' @ j = item_key ''services'' j" by (simp add: item_key_def)
  have t: "item_key ''services'' j \<in> tracked incoming \<longleftrightarrow> by_id sID (Services incoming) j \<noteq> None"
  proof -
    have "item_key ''services'' j \<in> tracked incoming \<longleftrightarrow> j \<in> sID ` set (Services incoming)"
      by (auto simp: tracked_def item_key_def)
    then show ?thesis by (simp add: by_id_def find_id_None_iff)
  qed
  have sync: "find_id sID j vs = (case by_id sID (Services incoming) j of Some v \<Rightarrow> Some v | None \<Rightarrow> by_id sID old j)"
    using fun_cong [OF syncRecords_Inr(1) [OF vs], of j] by (simp add: by_id_def map_add_def cong: option.case_cong)
  show ?thesis
  proof (cases "find_id sID j vs")
    case None
    with find_id_relinked [OF l, of j] sync show ?thesis by (auto simp: by_id_def split: option.splits)
  next
    case (Some v)
    then obtain v' where v': "find_id sID j vs' = Some v'" "relink us s' (mark_missing owned (Track incoming)) v = Inr v'"
      using find_id_relinked [OF l, of j] by (cases "find_id sID j vs'") auto
    have j: "sID v = j" using find_id_SomeD [OF Some] by simp
    show ?thesis
    proof (cases "item (mark_missing owned (Track incoming)) (item_key ''services'' j) = ''missing''")
      case True
      then have m: "by_id sID (Services incoming) j = None" "item_key ''services'' j \<in> fst ` set owned"
        using t by (auto simp: item_marked split: if_splits)
      from True v'(2) j have "v' = moved_link us (by_id tID (Tunnels s')) v"
        by (auto simp: relink_def moved_link_def by_id_def State_Tunnel_Inr JoinHostPort_def rbind_eq_Inr split: option.splits)
      with m v'(1) Some sync show ?thesis unfolding k by (simp add: by_id_def)
    next
      case False
      with v'(2) j have "v' = v" by (simp add: relink_def)
      moreover have "by_id sID (Services incoming) j \<noteq> None \<or> item_key ''services'' j \<notin> fst ` set owned"
        using False t by (auto simp: item_marked split: if_splits)
      ultimately show ?thesis using v'(1) Some sync unfolding k by (auto simp: by_id_def split: option.splits)
    qed
  qed
qed

lemma ApplyFeed_view:
  assumes "ApplyFeed us now i incoming s = Inr s'"
  shows "view s' = feed_spec us (fst ` set (Items (Team s ! i))) (view s) (view incoming)"
proof -
  let ?owned = "Items (Team s ! i)"
  obtain inkeys vs where k: "rmap (local_path s ?owned) (Keys incoming) = Inr inkeys"
    and ks: "syncRecords (Keys s) inkeys ''keys'' ?owned kID = Inr (Keys s')"
    and hs: "syncRecords (Hosts s) (Hosts incoming) ''hosts'' ?owned hID = Inr (Hosts s')"
    and ts: "syncRecords (Tunnels s) (Tunnels incoming) ''tunnels'' ?owned tID = Inr (Tunnels s')"
    and vs: "syncRecords (Services s) (Services incoming) ''services'' ?owned sID = Inr vs"
    and l: "list_all2 (\<lambda>v v'. relink us s' (mark_missing ?owned (Track incoming)) v = Inr v') vs (Services s')"
    by (rule ApplyFeed_Inr [OF assms]) (rule that)
  have "by_id kID (Keys s') j = (case by_id kID (Keys incoming) j of None \<Rightarrow> by_id kID (Keys s) j
      | Some x \<Rightarrow> Some (x\<lparr>kPath := kPath (the (by_id kID (Keys s) j))\<rparr>))" for j
  proof (cases "find_id kID j (Keys incoming)")
    case None
    then have "find_id kID j inkeys = None" by (simp add: find_id_local_keys [OF k])
    with None fun_cong [OF syncRecords_Inr(1) [OF ks], of j] show ?thesis by (simp add: by_id_def map_add_def)
  next
    case (Some x)
    then have "j \<in> kID ` set (Keys s)" using ids_local_keys(2) [OF k] by (auto dest!: find_id_SomeD)
    then obtain y where "find_id kID j (Keys s) = Some y" using find_id_Some_iff_mem [of kID j "Keys s"] by auto
    with Some fun_cong [OF syncRecords_Inr(1) [OF ks], of j] show ?thesis
      by (simp add: by_id_def map_add_def find_id_local_keys [OF k] State_Key_def)
  qed
  then have "by_id kID (Keys s') = (\<lambda>j. case by_id kID (Keys incoming) j of None \<Rightarrow> by_id kID (Keys s) j
      | Some x \<Rightarrow> Some (x\<lparr>kPath := kPath (the (by_id kID (Keys s) j))\<rparr>))" by (simp add: fun_eq_iff)
  moreover have "by_id sID (Services s') = (\<lambda>j. case by_id sID (Services incoming) j of Some v \<Rightarrow> Some v
    | None \<Rightarrow> if ''services/'' @ j \<in> fst ` set ?owned
        then map_option (moved_link us (by_id tID (Tunnels s) ++ by_id tID (Tunnels incoming))) (by_id sID (Services s) j)
        else by_id sID (Services s) j)"
    by (rule ext) (simp only: by_id_relinked [OF l vs] syncRecords_Inr(1) [OF ts])
  ultimately show ?thesis
    unfolding view_def feed_spec_def config_view.select_convs
    by (simp add: syncRecords_Inr(1) [OF hs] syncRecords_Inr(1) [OF ts])
qed

text \<open>Nothing disappears, no key is added and no key file is exchanged.\<close>

lemma syncRecords_ids: "syncRecords old inc kind owned f = Inr r \<Longrightarrow> f ` set old \<subseteq> f ` set r"
  using syncRecords_Inr(5) [of old inc kind owned f r] by (metis Un_upper1 set_append set_map)

lemma ApplyFeed_ids:
  assumes "ApplyFeed us now i incoming s = Inr s'"
  shows "hID ` set (Hosts s) \<subseteq> hID ` set (Hosts s')" "tID ` set (Tunnels s) \<subseteq> tID ` set (Tunnels s')"
    "sID ` set (Services s) \<subseteq> sID ` set (Services s')" "kID ` set (Keys s') = kID ` set (Keys s)"
proof -
  let ?owned = "Items (Team s ! i)"
  obtain inkeys vs where k: "rmap (local_path s ?owned) (Keys incoming) = Inr inkeys"
    and ks: "syncRecords (Keys s) inkeys ''keys'' ?owned kID = Inr (Keys s')"
    and hs: "syncRecords (Hosts s) (Hosts incoming) ''hosts'' ?owned hID = Inr (Hosts s')"
    and ts: "syncRecords (Tunnels s) (Tunnels incoming) ''tunnels'' ?owned tID = Inr (Tunnels s')"
    and vs: "syncRecords (Services s) (Services incoming) ''services'' ?owned sID = Inr vs"
    and l: "list_all2 (\<lambda>v v'. relink us s' (mark_missing ?owned (Track incoming)) v = Inr v') vs (Services s')"
    by (rule ApplyFeed_Inr [OF assms]) (rule that)
  show "hID ` set (Hosts s) \<subseteq> hID ` set (Hosts s')" "tID ` set (Tunnels s) \<subseteq> tID ` set (Tunnels s')"
    by (rule syncRecords_ids [OF hs], rule syncRecords_ids [OF ts])
  from l have "map sID vs = map sID (Services s')"
    by (induction rule: list_all2_induct) (auto dest: relink_id)
  then show "sID ` set (Services s) \<subseteq> sID ` set (Services s')"
    using syncRecords_ids [OF vs] by (metis set_map)
  have "kID ` set (Keys s') \<subseteq> kID ` set inkeys \<union> kID ` set (Keys s)" using syncRecords_Inr(6) [OF ks] by auto
  then have "kID ` set (Keys s') \<subseteq> kID ` set (Keys s)"
    using ids_local_keys [OF k] by (metis Un_absorb1)
  with syncRecords_ids [OF ks] show "kID ` set (Keys s') = kID ` set (Keys s)" by (rule equalityI [rotated])
qed

lemma ApplyFeed_paths:
  assumes "ApplyFeed us now i incoming s = Inr s'"
  shows "map_option kPath (find_id kID j (Keys s')) = map_option kPath (find_id kID j (Keys s))"
proof -
  have "by_id kID (Keys s') j = (case by_id kID (Keys incoming) j of None \<Rightarrow> by_id kID (Keys s) j
      | Some x \<Rightarrow> Some (x\<lparr>kPath := kPath (the (by_id kID (Keys s) j))\<rparr>))"
    using ApplyFeed_view [OF assms]
    by (cases "by_id kID (Keys incoming) j") (simp_all add: view_def feed_spec_def fun_eq_iff)
  moreover have "find_id kID j (Keys s) = None \<longleftrightarrow> find_id kID j (Keys s') = None"
    using ApplyFeed_ids(4) [OF assms] by (simp add: find_id_None_iff)
  ultimately show ?thesis by (auto simp: by_id_def split: option.splits)
qed

text \<open>A record the source does not manage is left exactly as it is.\<close>

definition unmanaged :: "(string \<times> string) list \<Rightarrow> string \<Rightarrow> string \<Rightarrow> bool" where
  "unmanaged owned kind j \<longleftrightarrow> map_of owned (item_key kind j) = None"

definition keeps_personal :: "(string \<times> string) list \<Rightarrow> state \<Rightarrow> state \<Rightarrow> bool" where
  "keeps_personal owned s s' \<longleftrightarrow> (\<forall>j.
     (unmanaged owned ''keys'' j \<and> find_id kID j (Keys s) \<noteq> None \<longrightarrow> find_id kID j (Keys s') = find_id kID j (Keys s)) \<and>
     (unmanaged owned ''hosts'' j \<and> find_id hID j (Hosts s) \<noteq> None \<longrightarrow> find_id hID j (Hosts s') = find_id hID j (Hosts s)) \<and>
     (unmanaged owned ''tunnels'' j \<and> find_id tID j (Tunnels s) \<noteq> None \<longrightarrow> find_id tID j (Tunnels s') = find_id tID j (Tunnels s)) \<and>
     (unmanaged owned ''services'' j \<and> find_id sID j (Services s) \<noteq> None \<longrightarrow> find_id sID j (Services s') = find_id sID j (Services s)))"

lemma syncRecords_keep:
  assumes "syncRecords old inc kind owned f = Inr r" "unmanaged owned kind j" "find_id f j old \<noteq> None"
  shows "find_id f j r = find_id f j old"
  using syncRecords_personal [OF assms(1)] assms(2,3) by (auto simp: unmanaged_def)

lemma item_mark_unmanaged:
  assumes "unmanaged owned kind j"
  shows "item (mark_missing owned (Track incoming)) (item_key kind j) \<noteq> ''missing''"
proof -
  have "item_key kind j \<notin> fst ` set owned" using assms by (simp add: unmanaged_def map_of_eq_None_iff)
  then show ?thesis by (simp add: item_marked)
qed

lemma ApplyFeed_personal:
  assumes "ApplyFeed us now i incoming s = Inr s'"
  shows "keeps_personal (Items (Team s ! i)) s s'"
proof -
  let ?owned = "Items (Team s ! i)"
  obtain inkeys vs where ks: "syncRecords (Keys s) inkeys ''keys'' ?owned kID = Inr (Keys s')"
    and hs: "syncRecords (Hosts s) (Hosts incoming) ''hosts'' ?owned hID = Inr (Hosts s')"
    and ts: "syncRecords (Tunnels s) (Tunnels incoming) ''tunnels'' ?owned tID = Inr (Tunnels s')"
    and vs: "syncRecords (Services s) (Services incoming) ''services'' ?owned sID = Inr vs"
    and l: "list_all2 (\<lambda>v v'. relink us s' (mark_missing ?owned (Track incoming)) v = Inr v') vs (Services s')"
    by (rule ApplyFeed_Inr [OF assms]) (rule that)
  have "find_id sID j (Services s') = find_id sID j (Services s)"
    if u: "unmanaged ?owned ''services'' j" "find_id sID j (Services s) \<noteq> None" for j
  proof -
    obtain v where v: "find_id sID j vs = Some v" "find_id sID j (Services s) = Some v"
      using syncRecords_keep [OF vs u] u(2) by auto
    then obtain v' where v': "find_id sID j (Services s') = Some v'"
      "relink us s' (mark_missing ?owned (Track incoming)) v = Inr v'"
      using find_id_relinked [OF l, of j] by (auto simp: option_rel_Some1)
    have "sID v = j" using v(1) by (auto dest: find_id_SomeD)
    with item_mark_unmanaged [OF u(1)] relink_Inr(2) [OF v'(2)] have "v' = v" by simp
    with v v' show ?thesis by simp
  qed
  then show ?thesis
    unfolding keeps_personal_def
    using syncRecords_keep [OF ks] syncRecords_keep [OF hs] syncRecords_keep [OF ts] by blast
qed

text \<open>What the source sends arrives verbatim.\<close>

lemma ApplyFeed_delivers:
  assumes "ApplyFeed us now i incoming s = Inr s'"
  shows "h \<in> set (Hosts incoming) \<Longrightarrow> find_id hID (hID h) (Hosts s') = Some h"
    "t \<in> set (Tunnels incoming) \<Longrightarrow> find_id tID (tID t) (Tunnels s') = Some t"
    "v \<in> set (Services incoming) \<Longrightarrow> find_id sID (sID v) (Services s') = Some v"
proof -
  let ?owned = "Items (Team s ! i)"
  obtain vs where hs: "syncRecords (Hosts s) (Hosts incoming) ''hosts'' ?owned hID = Inr (Hosts s')"
    and ts: "syncRecords (Tunnels s) (Tunnels incoming) ''tunnels'' ?owned tID = Inr (Tunnels s')"
    and vs: "syncRecords (Services s) (Services incoming) ''services'' ?owned sID = Inr vs"
    and l: "list_all2 (\<lambda>v v'. relink us s' (mark_missing ?owned (Track incoming)) v = Inr v') vs (Services s')"
    by (rule ApplyFeed_Inr [OF assms]) (rule that)
  have sync: "find_id f (f x) r = Some x"
    if "syncRecords old inc kind owned f = Inr r" "x \<in> set inc" for old inc kind owned r x and f :: "'x \<Rightarrow> string"
    using fun_cong [OF syncRecords_Inr(1) [OF that(1)], of "f x"] find_id_distinct [OF syncRecords_Inr(2) [OF that(1)] that(2)]
    by (simp add: by_id_def map_add_def)
  show "h \<in> set (Hosts incoming) \<Longrightarrow> find_id hID (hID h) (Hosts s') = Some h"
    "t \<in> set (Tunnels incoming) \<Longrightarrow> find_id tID (tID t) (Tunnels s') = Some t"
    by (rule sync [OF hs], assumption, rule sync [OF ts], assumption)
  assume v: "v \<in> set (Services incoming)"
  from sync [OF vs v] obtain v' where v': "find_id sID (sID v) (Services s') = Some v'"
    "relink us s' (mark_missing ?owned (Track incoming)) v = Inr v'"
    using find_id_relinked [OF l, of "sID v"] by (auto simp: option_rel_Some1)
  moreover have "item (mark_missing ?owned (Track incoming)) (item_key ''services'' (sID v)) = ''current''"
    using v by (simp add: item_marked tracked_def)
  ultimately show "find_id sID (sID v) (Services s') = Some v" using relink_Inr(2) [OF v'(2)] by simp
qed

end
