(* ===== verification/TeamInstall.thy ===== *)
theory TeamInstall
  imports TeamSync
begin

text \<open>
  \<open>Install\<close> of internal/provision/bundle.go: a package's keys become files of the recipient, its
  records are merged into the store in one transaction, and files written by a failed
  installation are removed. Which calls of the operating system succeed is a parameter.
\<close>

section \<open>The disk\<close>

text \<open>A failing write of key \<open>i\<close> leaves \<open>ioShort i\<close> bytes behind.\<close>

datatype disk_op = StatMarker | MkdirAll | SecureDirectory | CreateKey nat | WriteKey nat
  | CloseKey nat | RemoveKey string | CreateMarker | WriteMarker

record disk_io =
  ioOk :: "disk_op \<Rightarrow> bool"
  ioShort :: "nat \<Rightarrow> nat"

definition file_of :: "string \<Rightarrow> file_info" where
  "file_of b = \<lparr>fRegular = True, fSize = length b, fContent = b, fReadOk = True\<rparr>"

text \<open>The files, and the paths created so far.\<close>

type_synonym work = "fs \<times> string list"

definition write_key :: "disk_io \<Rightarrow> string \<Rightarrow> nat \<Rightarrow> string \<Rightarrow> work \<Rightarrow> string res \<times> work" where
  "write_key io path i raw w =
     (case fst w path of
        Some f \<Rightarrow>
          if \<not> fReadOk f then (Inl (Ext ''read''), w)
          else if fContent f = raw then (Inr path, w)
          else (Inl (ShareErr KeyFileConflict), w)
      | None \<Rightarrow>
          if \<not> ioOk io (CreateKey i) then (Inl (Ext ''create''), w)
          else let created = snd w @ [path] in
            if \<not> ioOk io (WriteKey i)
            then (Inl (Ext ''write''), (fst w)(path \<mapsto> file_of (take (ioShort io i) raw)), created)
            else if \<not> ioOk io (CloseKey i)
            then (Inl (Ext ''close''), (fst w)(path \<mapsto> file_of raw), created)
            else (Inr path, (fst w)(path \<mapsto> file_of raw), created))"

definition remove_created :: "disk_io \<Rightarrow> string list \<Rightarrow> fs \<Rightarrow> fs" where
  "remove_created io created fs = fold (\<lambda>p fs. if ioOk io (RemoveKey p) then fs(p := None) else fs) created fs"

section \<open>Installing the keys\<close>

text \<open>A package of a known source may bring a key the recipient already has as a file.\<close>

definition reuse_path ::
  "os \<Rightarrow> (stmt \<Rightarrow> bool) \<Rightarrow> db \<Rightarrow> team_bundle \<Rightarrow> key \<Rightarrow> string \<Rightarrow> fs \<Rightarrow> string option res" where
  "reuse_path os q d b k raw fs =
     (if bSource b = None then Inr None
      else rbind (Snapshot q d)
        (\<lambda>s. case State_Key s (kID k) of
           Inl _ \<Rightarrow> Inr None
         | Inr l \<Rightarrow>
             (case key_Read os fs (kPath l) of
                Inl _ \<Rightarrow> Inr None
              | Inr old \<Rightarrow> if old = raw then Inr (Some (kPath l)) else Inr None)))"

definition key_file :: "os \<Rightarrow> string \<Rightarrow> nat \<Rightarrow> string" where
  "key_file os root i = os_Join os root (''key-'' @ Itoa (int i))"

definition install_key ::
  "disk_io \<Rightarrow> os \<Rightarrow> (stmt \<Rightarrow> bool) \<Rightarrow> (string \<Rightarrow> 's key_parse) \<Rightarrow> db \<Rightarrow> team_bundle \<Rightarrow> string \<Rightarrow>
   nat \<Rightarrow> key \<Rightarrow> work \<Rightarrow> string res \<times> work" where
  "install_key io os q pk d b root i k w =
     (case map_of (bKeys b) (kID k) of
        None \<Rightarrow> (Inl (ShareErr BundleKeyData), w)
      | Some raw \<Rightarrow>
          if 2 ^ 20 < length raw then (Inl (ShareErr BundleKeyData), w)
          else (case pk raw of
              ParsedKey _ \<Rightarrow>
                (case reuse_path os q d b k raw (fst w) of
                   Inl e \<Rightarrow> (Inl e, w)
                 | Inr (Some p) \<Rightarrow> (Inr p, w)
                 | Inr None \<Rightarrow> write_key io (key_file os root i) i raw w)
            | _ \<Rightarrow> (Inl (ShareErr BundleKeyFormat), w)))"

fun install_keys ::
  "(nat \<Rightarrow> key \<Rightarrow> work \<Rightarrow> string res \<times> work) \<Rightarrow> nat \<Rightarrow> key list \<Rightarrow> work \<Rightarrow> key list res \<times> work" where
  "install_keys step i [] w = (Inr [], w)"
| "install_keys step i (k # ks) w =
     (case step i k w of
        (Inl e, w1) \<Rightarrow> (Inl e, w1)
      | (Inr p, w1) \<Rightarrow>
          (case install_keys step (Suc i) ks w1 of
             (Inl e, w2) \<Rightarrow> (Inl e, w2)
           | (Inr ks', w2) \<Rightarrow> (Inr (k\<lparr>kPath := p\<rparr> # ks'), w2)))"

section \<open>Installing the records\<close>

text \<open>A package of a source that is followed already: its keys first, one at a time.\<close>

definition resync_key :: "nat \<Rightarrow> state \<Rightarrow> key \<Rightarrow> state res" where
  "resync_key i s k =
     (let items = Items (Team s ! i); it = item_key ''keys'' (kID k) in
      rbind (check (\<not> (ok (State_Key s (kID k)) \<and> item items it = [])) (ShareErr PersonalKeyConflict))
      (\<lambda>_. rbind (syncRecords (Keys s) [k] ''keys'' items kID)
      (\<lambda>ks. Inr (s\<lparr>Keys := ks,
           Team := (Team s)[i := (Team s ! i)\<lparr>Items := AList.update it ''current'' items\<rparr>]\<rparr>))))"

definition install_resync ::
  "(string \<Rightarrow> string \<Rightarrow> string option) \<Rightarrow> string \<Rightarrow> team_source \<Rightarrow> state \<Rightarrow> nat \<Rightarrow> state \<Rightarrow> state res" where
  "install_resync us now src incoming i s =
     rbind (rfold (resync_key i) s (Keys incoming))
     (\<lambda>s1. ApplyFeed us now i incoming (s1\<lparr>Team := (Team s1)[i := (Team s1 ! i)\<lparr>Source := src\<rparr>]\<rparr>))"

definition install_merge :: "team_source option \<Rightarrow> state \<Rightarrow> state \<Rightarrow> state res" where
  "install_merge src incoming s =
     rbind (merge (Keys s) (Keys incoming) kID)
     (\<lambda>ks. rbind (merge (Hosts s) (Hosts incoming) hID)
     (\<lambda>hs. rbind (merge (Tunnels s) (Tunnels incoming) tID)
     (\<lambda>ts. rbind (merge (Services s) (Services incoming) sID)
     (\<lambda>vs. let s1 = s\<lparr>Keys := ks, Hosts := hs, Tunnels := ts, Services := vs\<rparr> in
       case src of None \<Rightarrow> Inr s1 | Some sr \<Rightarrow> registerSource s1 sr incoming))))"

text \<open>The first subscription to the same master.\<close>

definition sub_index :: "team_source \<Rightarrow> state \<Rightarrow> nat option" where
  "sub_index src s = find (\<lambda>i. tsPublicKey (Source (Team s ! i)) = tsPublicKey src) [0..<length (Team s)]"

definition install_update ::
  "(string \<Rightarrow> string \<Rightarrow> string option) \<Rightarrow> string \<Rightarrow> team_source option \<Rightarrow> state \<Rightarrow> state \<Rightarrow> state res" where
  "install_update us now src incoming s =
     (case src of
        None \<Rightarrow> install_merge None incoming s
      | Some sr \<Rightarrow>
          (case sub_index sr s of
             Some i \<Rightarrow> install_resync us now sr incoming i s
           | None \<Rightarrow> install_merge (Some sr) incoming s))"

section \<open>Install\<close>

text \<open>A master opening its own installer must not subscribe to itself.\<close>

definition is_self :: "(stmt \<Rightarrow> bool) \<Rightarrow> ed25519 \<Rightarrow> db \<Rightarrow> team_source \<Rightarrow> bool" where
  "is_self q ed d src \<longleftrightarrow>
     (case fst (LocalValue q ''team-signing-key'' None d) of
        Inl _ \<Rightarrow> False
      | Inr secret \<Rightarrow> length secret = PrivateKeySize \<and> edPublic ed secret = tsPublicKey src)"

definition map_len :: "('k \<times> 'v) list \<Rightarrow> nat" where
  "map_len m = length (remdups (map fst m))"

text \<open>Decoding and the checks before anything is written; \<open>None\<close> is the master's own package.\<close>

definition install_check ::
  "(string \<Rightarrow> url option) \<Rightarrow> (stmt \<Rightarrow> bool) \<Rightarrow> codec \<Rightarrow> ed25519 \<Rightarrow> string \<Rightarrow> db \<Rightarrow> team_bundle option res" where
  "install_check up q c ed payload d =
     (case DecodeStrict c payload of
        Inl _ \<Rightarrow> Inl (ShareErr BundleDecode)
      | Inr b \<Rightarrow>
          rbind (check (bVersion b = 1 \<and> map_len (bKeys b) = length (Keys (bState b))) (ShareErr BundleFormat))
          (\<lambda>_. rbind (case bSource b of None \<Rightarrow> Inr False
                 | Some src \<Rightarrow> rbind (ValidateSource up src) (\<lambda>_. Inr (is_self q ed d src)))
          (\<lambda>self. if self then Inr None
            else rbind (Validate up (bState b)) (\<lambda>_. Inr (Some b)))))"

definition bundle_root :: "os \<Rightarrow> (string \<Rightarrow> string) \<Rightarrow> string \<Rightarrow> string \<Rightarrow> string" where
  "bundle_root os sha dir payload = os_Join os (os_Join os dir ''team-bundles'') (EncodeToString (sha payload))"

definition marker_file :: "os \<Rightarrow> string \<Rightarrow> string" where
  "marker_file os root = os_Join os root ''installed''"

definition marker_text :: string where
  "marker_text = ''installed'' @ [CHR 0x0A]"

text \<open>The part after the checks: directory, keys, transaction, marker.\<close>

definition install_run ::
  "(string \<Rightarrow> url option) \<Rightarrow> (string \<Rightarrow> string \<Rightarrow> string option) \<Rightarrow> (stmt \<Rightarrow> bool) \<Rightarrow> disk_io \<Rightarrow> os \<Rightarrow>
   (string \<Rightarrow> 's key_parse) \<Rightarrow> string \<Rightarrow> string \<Rightarrow> team_bundle \<Rightarrow> db \<Rightarrow> fs \<Rightarrow> (bool \<times> err option) \<times> db \<times> fs" where
  "install_run up us q io os pk now root b d fs =
     (if \<not> ioOk io MkdirAll then ((False, Some (Ext ''mkdir'')), d, fs)
      else if \<not> ioOk io SecureDirectory then ((False, Some (Ext ''secure'')), d, fs)
      else case install_keys (install_key io os q pk d b root) 0 (Keys (bState b)) (fs, []) of
        (Inl e, fs1, created) \<Rightarrow> ((False, Some e), d, remove_created io created fs1)
      | (Inr ks, fs1, created) \<Rightarrow>
          (case Update up q (install_update us now (bSource b) ((bState b)\<lparr>Keys := ks\<rparr>)) d of
             (Inl e, d1) \<Rightarrow> ((False, Some e), d1, remove_created io created fs1)
           | (Inr _, d1) \<Rightarrow>
               if \<not> ioOk io CreateMarker then ((True, Some (Ext ''create'')), d1, fs1)
               else if \<not> ioOk io WriteMarker
               then ((True, Some (Ext ''write'')), d1, fs1(marker_file os root \<mapsto> file_of []))
               else ((True, None), d1, fs1(marker_file os root \<mapsto> file_of marker_text))))"

definition Install ::
  "(string \<Rightarrow> url option) \<Rightarrow> (string \<Rightarrow> string \<Rightarrow> string option) \<Rightarrow> (stmt \<Rightarrow> bool) \<Rightarrow> codec \<Rightarrow> ed25519 \<Rightarrow>
   disk_io \<Rightarrow> os \<Rightarrow> (string \<Rightarrow> 's key_parse) \<Rightarrow> (string \<Rightarrow> string) \<Rightarrow> string \<Rightarrow> string \<Rightarrow> string \<Rightarrow> db \<Rightarrow> fs \<Rightarrow>
   (bool \<times> err option) \<times> db \<times> fs" where
  "Install up us q c ed io os pk sha now dir payload d fs =
     (if payload = [] then ((False, None), d, fs)
      else if MaxPayload < length payload then ((False, Some (ShareErr BundleTooLarge)), d, fs)
      else let root = bundle_root os sha dir payload in
        if fs (marker_file os root) \<noteq> None \<and> ioOk io StatMarker then ((False, None), d, fs)
        else (case install_check up q c ed payload d of
            Inl e \<Rightarrow> ((False, Some e), d, fs)
          | Inr None \<Rightarrow> ((False, None), d, fs)
          | Inr (Some b) \<Rightarrow> install_run up us q io os pk now root b d fs))"

section \<open>Facts about key files\<close>

text \<open>What the work so far has changed: exactly the created paths, all of them key files of the
  package's own directory, none of which existed.\<close>

definition tracks :: "os \<Rightarrow> string \<Rightarrow> fs \<Rightarrow> work \<Rightarrow> bool" where
  "tracks os root fs w \<longleftrightarrow> set (snd w) \<subseteq> range (key_file os root) \<and> (\<forall>p \<in> set (snd w). fs p = None)
     \<and> (\<forall>p. p \<notin> set (snd w) \<longrightarrow> fst w p = fs p)"

lemma write_key_tracks:
  assumes "tracks os root fs w" "write_key io (key_file os root i) n raw w = (r, w')"
  shows "tracks os root fs w'"
proof (cases "fst w (key_file os root i)")
  case None
  with assms(1) have "fs (key_file os root i) = None" by (metis tracks_def)
  with None assms show ?thesis by (auto simp: write_key_def tracks_def Let_def split: if_splits)
next
  case (Some f)
  with assms show ?thesis by (auto simp: write_key_def split: if_splits)
qed

lemma install_key_tracks:
  assumes "tracks os root fs w" "install_key io os q pk d b root i k w = (r, w')"
  shows "tracks os root fs w'"
proof (cases "\<exists>raw. write_key io (key_file os root i) i raw w = (r, w')")
  case True
  with write_key_tracks [OF assms(1)] show ?thesis by blast
next
  case False
  with assms show ?thesis
    by (auto simp: install_key_def split: option.splits if_splits key_parse.splits sum.splits)
qed

lemma install_keys_tracks:
  assumes "\<And>i k w r w'. tracks os root fs w \<Longrightarrow> step i k w = (r, w') \<Longrightarrow> tracks os root fs w'"
  shows "tracks os root fs w \<Longrightarrow> install_keys step i ks w = (r, w') \<Longrightarrow> tracks os root fs w'"
proof (induction ks arbitrary: i w r w')
  case (Cons k ks)
  obtain rk w1 where s: "step i k w = (rk, w1)" by (cases "step i k w")
  from assms [OF Cons.prems(1) s] have t: "tracks os root fs w1" .
  obtain rs w2 where t2: "install_keys step (Suc i) ks w1 = (rs, w2)" by (cases "install_keys step (Suc i) ks w1")
  from Cons.IH [OF t t2] t Cons.prems(2) s t2 show ?case by (auto split: sum.splits)
qed simp

lemma remove_created_eq:
  "remove_created io ps g p = (if p \<in> set ps \<and> ioOk io (RemoveKey p) then None else g p)"
  by (induction ps arbitrary: g) (auto simp: remove_created_def)

text \<open>Cleaning up: nothing is left but new key files whose removal the operating system refused.\<close>

definition left_over :: "disk_io \<Rightarrow> os \<Rightarrow> string \<Rightarrow> string \<Rightarrow> bool" where
  "left_over io os root p \<longleftrightarrow> p \<in> range (key_file os root) \<and> \<not> ioOk io (RemoveKey p)"

lemma remove_created_tracks:
  assumes "tracks os root fs w"
  shows "remove_created io (snd w) (fst w) p = fs p \<or> fs p = None \<and> left_over io os root p"
  using assms by (auto simp: remove_created_eq tracks_def left_over_def)

lemma install_work_tracks:
  "install_keys (install_key io os q pk d b root) i ks (fs, []) = (r, w) \<Longrightarrow> tracks os root fs w"
  by (rule install_keys_tracks [OF install_key_tracks]) (auto simp: tracks_def)


text \<open>With an obliging disk and no file in the way, every key is written to its own file.\<close>

lemma install_keys_ok:
  assumes "\<And>op. ioOk io op" "bSource b = None" "inj (key_file os root)"
    "\<And>k. k \<in> set ks \<Longrightarrow> \<exists>sg. map_of (bKeys b) (kID k) = Some (raw k) \<and> length (raw k) \<le> 2 ^ 20 \<and> pk (raw k) = ParsedKey sg"
  shows "\<forall>j \<ge> i. fs (key_file os root j) = None \<Longrightarrow>
    \<exists>fs' cr'. install_keys (install_key io os q pk d b root) i ks (fs, cr) =
        (Inr (map (\<lambda>(j, k). k\<lparr>kPath := key_file os root j\<rparr>) (enumerate i ks)), fs', cr')
      \<and> (\<forall>j < length ks. fs' (key_file os root (i + j)) = Some (file_of (raw (ks ! j))))
      \<and> (\<forall>p. p \<notin> key_file os root ` {i..} \<longrightarrow> fs' p = fs p)"
  using assms(4)
proof (induction ks arbitrary: i fs cr)
  case (Cons k ks)
  let ?p = "key_file os root i"
  obtain sg where k: "map_of (bKeys b) (kID k) = Some (raw k)" "length (raw k) \<le> 2 ^ 20" "pk (raw k) = ParsedKey sg"
    using Cons.prems(2) by force
  have w: "install_key io os q pk d b root i k (fs, cr) = (Inr ?p, fs(?p \<mapsto> file_of (raw k)), cr @ [?p])"
    using k assms(1,2) Cons.prems(1)
    by (simp add: install_key_def reuse_path_def write_key_def)
  have "\<forall>j \<ge> Suc i. (fs(?p \<mapsto> file_of (raw k))) (key_file os root j) = None"
  proof (intro allI impI)
    fix j
    assume "Suc i \<le> j"
    then have "key_file os root j \<noteq> ?p" using injD [OF assms(3), of j i] by auto
    with Cons.prems(1) \<open>Suc i \<le> j\<close> show "(fs(?p \<mapsto> file_of (raw k))) (key_file os root j) = None" by simp
  qed
  note IH = Cons.IH [OF this, of "cr @ [?p]"]
  obtain fs' cr' where
    r: "install_keys (install_key io os q pk d b root) (Suc i) ks (fs(?p \<mapsto> file_of (raw k)), cr @ [?p]) =
      (Inr (map (\<lambda>(j, k). k\<lparr>kPath := key_file os root j\<rparr>) (enumerate (Suc i) ks)), fs', cr')"
    and f: "\<forall>j < length ks. fs' (key_file os root (Suc i + j)) = Some (file_of (raw (ks ! j)))"
    and o: "\<forall>p. p \<notin> key_file os root ` {Suc i..} \<longrightarrow> fs' p = (fs(?p \<mapsto> file_of (raw k))) p"
    using IH Cons.prems(2) by (meson list.set_intros(2))
  have "?p \<notin> key_file os root ` {Suc i..}" using injD [OF assms(3)] by fastforce
  with o have p: "fs' ?p = Some (file_of (raw k))" by simp
  have "fs' (key_file os root (i + j)) = Some (file_of (raw ((k # ks) ! j)))" if "j < length (k # ks)" for j
    using p f that by (cases j) auto
  moreover have "fs' p = fs p" if "p \<notin> key_file os root ` {i..}" for p
  proof -
    have "p \<notin> key_file os root ` {Suc i..}" "p \<noteq> ?p" using that by auto
    with o show ?thesis by simp
  qed
  ultimately show ?case using w r by simp
qed simp

section \<open>Installing into an empty configuration\<close>

lemma rall_skip [simp]: "rall (\<lambda>_. Inr ()) xs = Inr ()"
  by (induction xs) simp_all

lemma Update_ok:
  assumes "\<And>st. q st" "fn (load d) = Inr s" "well_formed up s"
  shows "fst (Update up q fn d) = Inr ()"
  using assms by (simp add: Update_def Snapshot_def read_order_def Validate_iff [symmetric] write_state_def
      write_rows_def res_simps rall_eq_Inr split: sum.splits)

lemma map_len_card: "map_len m = card (dom (map_of m))"
  by (simp add: map_len_def dom_map_of_conv_image_fst length_remdups_card_conv)

definition empty_config :: "state \<Rightarrow> bool" where
  "empty_config s \<longleftrightarrow> Hosts s = [] \<and> Keys s = [] \<and> Tunnels s = [] \<and> Services s = []"

definition unique_ids :: "state \<Rightarrow> bool" where
  "unique_ids s \<longleftrightarrow> distinct (map hID (Hosts s)) \<and> distinct (map kID (Keys s)) \<and>
     distinct (map tID (Tunnels s)) \<and> distinct (map sID (Services s))"

lemma install_merge_empty:
  assumes "empty_config s" "unique_ids inc"
  shows "install_merge None inc s =
    Inr (s\<lparr>Keys := Keys inc, Hosts := Hosts inc, Tunnels := Tunnels inc, Services := Services inc\<rparr>)"
  using assms merge_fresh [of kID "[]" "Keys inc"] merge_fresh [of hID "[]" "Hosts inc"]
    merge_fresh [of tID "[]" "Tunnels inc"] merge_fresh [of sID "[]" "Services inc"]
  by (simp add: install_merge_def empty_config_def unique_ids_def)

lemma unique_ids_Select:
  assumes "Select up s ids = Inr r" "unique_ids s"
  shows "unique_ids r"
proof -
  have d: "distinct (map f xs) \<Longrightarrow> distinct (map f (filter P xs))" for f :: "'x \<Rightarrow> string" and P xs
    by (auto simp: distinct_map intro: inj_on_subset)
  obtain ks where "r = selection s ids ks" "distinct (map kID ks)" using Select_Inr [OF assms(1)] by metis
  with assms(2) show ?thesis by (simp add: unique_ids_def selection_def Let_def d)
qed

text \<open>
  The recipient's directory for a package on Unix, and the files in it, by name.
\<close>

lemma hex_chars: "c \<in> set (EncodeToString b) \<Longrightarrow> 48 \<le> code c \<and> code c < 128"
proof -
  have "n < 16 \<Longrightarrow> 48 \<le> code (hex_digit n) \<and> code (hex_digit n) < 128" for n by (simp add: hex_digit_def)
  then show "c \<in> set (EncodeToString b) \<Longrightarrow> 48 \<le> code c \<and> code c < 128"
    using code_less by (fastforce simp: EncodeToString_def less_mult_imp_div_less)
qed

lemma hex_name:
  assumes "b \<noteq> []"
  shows "EncodeToString b \<noteq> []" "EncodeToString b \<noteq> ''.''" "EncodeToString b \<noteq> ''..''"
    "CHR ''/'' \<notin> set (EncodeToString b)" "ascii (EncodeToString b)"
proof -
  have "CHR ''/'' \<notin> set (EncodeToString b)" "CHR ''.'' \<notin> set (EncodeToString b)"
    using hex_chars [of _ b] by fastforce+
  then show "EncodeToString b \<noteq> ''.''" "EncodeToString b \<noteq> ''..''" "CHR ''/'' \<notin> set (EncodeToString b)"
    by auto
  show "EncodeToString b \<noteq> []" using assms by (simp add: EncodeToString_def)
  show "ascii (EncodeToString b)" using hex_chars [of _ b] by (simp add: ascii_def list_all_iff)
qed

lemma bundle_root_unix:
  assumes "unix_IsAbs dir" "unix_Clean dir = dir" "sha payload \<noteq> []"
  shows "unix_IsAbs (bundle_root (unix_os home) sha dir payload)"
    "unix_Clean (bundle_root (unix_os home) sha dir payload) = bundle_root (unix_os home) sha dir payload"
    "bundle_root (unix_os home) sha dir payload \<noteq> ''/''"
    "utf8_valid dir \<Longrightarrow> utf8_valid (bundle_root (unix_os home) sha dir payload)"
proof -
  note j = unix_Join_canonical [OF assms(1,2), of "''team-bundles''"] and h = hex_name [OF assms(3)]
  show "unix_IsAbs (bundle_root (unix_os home) sha dir payload)"
    "unix_Clean (bundle_root (unix_os home) sha dir payload) = bundle_root (unix_os home) sha dir payload"
    "bundle_root (unix_os home) sha dir payload \<noteq> ''/''"
    using unix_Join_canonical [OF j(1,2) h(1-4)] by (simp_all add: bundle_root_def unix_os_def)
  assume "utf8_valid dir"
  then have "utf8_valid (unix_Join dir ''team-bundles'')"
    using unix_Join_name [OF assms(1,2), of "''team-bundles''"]
    by (simp add: utf8_valid_append utf8_valid_ascii)
  then have "utf8_valid (unix_Join dir ''team-bundles'' @ (''/'' @ EncodeToString (sha payload)))"
    using h(5) by (intro utf8_valid_append) (simp_all add: utf8_valid_ascii)
  then show "utf8_valid (bundle_root (unix_os home) sha dir payload)"
    using unix_Join_name [OF j(1,2) h(1-4)] h(5)
    by (simp add: bundle_root_def unix_os_def utf8_valid_ascii)
qed

lemma Itoa_digits: "CHR ''/'' \<notin> set (Itoa (int i))"
  using nat_digits_digits [of i] by (auto simp: Itoa_def is_digit_def)

lemma key_file_unix:
  assumes "unix_IsAbs r" "unix_Clean r = r" "r \<noteq> ''/''"
  shows "key_file (unix_os home) r i = r @ ''/key-'' @ Itoa (int i)"
  using unix_Join_name [OF assms(1,2), of "''key-'' @ Itoa (int i)"] assms(3) Itoa_digits [of i]
  by (simp add: key_file_def unix_os_def)

lemma marker_file_unix:
  assumes "unix_IsAbs r" "unix_Clean r = r" "r \<noteq> ''/''"
  shows "marker_file (unix_os home) r = r @ ''/installed''"
  using unix_Join_name [OF assms(1,2), of "''installed''"] assms(3)
  by (simp add: marker_file_def unix_os_def)

lemma inj_key_file:
  assumes "unix_IsAbs r" "unix_Clean r = r" "r \<noteq> ''/''"
  shows "inj (key_file (unix_os home) r)"
  by (rule injI) (simp add: key_file_unix [OF assms] Itoa_def nat_digits_inj)


text \<open>The keys of a package with the paths of their files.\<close>

definition placed :: "os \<Rightarrow> string \<Rightarrow> key list \<Rightarrow> key list" where
  "placed os root ks = map (\<lambda>(j, k). k\<lparr>kPath := key_file os root j\<rparr>) (enumerate 0 ks)"

lemma placed_simps [simp]:
  "map kID (placed os root ks) = map kID ks" "map kName (placed os root ks) = map kName ks"
  "length (placed os root ks) = length ks"
  by (auto simp: placed_def comp_def case_prod_beta intro!: nth_equalityI simp: nth_enumerate_eq)

lemma nth_placed: "j < length ks \<Longrightarrow> placed os root ks ! j = (ks ! j)\<lparr>kPath := key_file os root j\<rparr>"
  by (simp add: placed_def nth_enumerate_eq)

lemma placed_mem: "k \<in> set (placed os root ks) \<Longrightarrow> \<exists>j k0. k0 \<in> set ks \<and> k = k0\<lparr>kPath := key_file os root j\<rparr>"
  by (metis in_set_conv_nth nth_placed placed_simps(3))

text \<open>File names that can be stored.\<close>

definition proper_files :: "os \<Rightarrow> string \<Rightarrow> bool" where
  "proper_files os root \<longleftrightarrow> inj (key_file os root) \<and> marker_file os root \<notin> range (key_file os root)
     \<and> (\<forall>j. key_file os root j \<noteq> [] \<and> utf8_valid (key_file os root j))"

lemma placed_clean:
  assumes "proper_files os root" "\<forall>k \<in> set ks. json_key k = k"
  shows "\<forall>k \<in> set (placed os root ks). json_key k = k"
proof
  fix k
  assume "k \<in> set (placed os root ks)"
  then obtain j k0 where "k0 \<in> set ks" "k = k0\<lparr>kPath := key_file os root j\<rparr>" using placed_mem by blast
  with assms show "json_key k = k" by (simp add: json_key_path proper_files_def to_valid_id)
qed

lemma update_placed:
  assumes "\<And>st. q st" "proper_files os root"
    and "empty_config (load d)" "utf8_clean (load d)" "well_formed up inc" "unique_ids inc" "utf8_clean inc"
  shows "\<exists>d'. Update up q (install_update us now None (inc\<lparr>Keys := placed os root (Keys inc)\<rparr>)) d = (Inr (), d') \<and>
    load d' = (load d)\<lparr>Keys := placed os root (Keys inc), Hosts := Hosts inc, Tunnels := Tunnels inc, Services := Services inc\<rparr>"
proof -
  let ?f = "install_update us now None (inc\<lparr>Keys := placed os root (Keys inc)\<rparr>)"
  let ?s = "(load d)\<lparr>Keys := placed os root (Keys inc), Hosts := Hosts inc, Tunnels := Tunnels inc, Services := Services inc\<rparr>"
  have f: "?f (load d) = Inr ?s"
    using install_merge_empty [OF assms(3), of "inc\<lparr>Keys := placed os root (Keys inc)\<rparr>"] assms(6)
    by (simp add: install_update_def unique_ids_def)
  have "\<forall>k \<in> set (placed os root (Keys inc)). kPath k \<noteq> []"
    using assms(2) by (auto simp: proper_files_def dest!: placed_mem)
  then have wf: "well_formed up ?s" by (intro well_formed_keys [OF assms(5)]) auto
  have "utf8_clean ?s"
    using assms(4,7) placed_clean [OF assms(2), of "Keys inc"] by (simp add: utf8_clean_iff)
  then have clean: "json_state ?s = ?s" by (simp only: utf8_clean_def)
  obtain d' where u: "Update up q ?f d = (Inr (), d')"
    using Update_ok [of q ?f d ?s up, OF assms(1) f wf] by (metis prod.collapse)
  obtain s where "?f (load d) = Inr s" "write_state q s d = Inr d'" using Update_Inr [OF u] by blast
  with f write_state_Inr(1) have "load d' = (json_state ?s)\<lparr>History := History (load d)\<rparr>" by (metis Inr_inject)
  with u show ?thesis by (simp only: clean) simp
qed

text \<open>An installation into an empty configuration, when every call succeeds.\<close>

lemma install_run_fresh:
  assumes "\<And>op. ioOk io op" "\<And>st. q st" "proper_files os root"
    and "bSource b = None" "\<forall>j. fs (key_file os root j) = None"
    and "\<forall>k \<in> set (Keys (bState b)). \<exists>raw sg. map_of (bKeys b) (kID k) = Some raw \<and> length raw \<le> 2 ^ 20 \<and> pk raw = ParsedKey sg"
    and "empty_config (load d)" "utf8_clean (load d)" "well_formed up (bState b)" "unique_ids (bState b)" "utf8_clean (bState b)"
  shows "\<exists>d' fs'. install_run up us q io os pk now root b d fs = ((True, None), d', fs')
    \<and> load d' = (load d)\<lparr>Keys := placed os root (Keys (bState b)), Hosts := Hosts (bState b),
        Tunnels := Tunnels (bState b), Services := Services (bState b)\<rparr>
    \<and> (\<forall>j < length (Keys (bState b)).
        fs' (key_file os root j) = map_option file_of (map_of (bKeys b) (kID (Keys (bState b) ! j))))
    \<and> fs' (marker_file os root) \<noteq> None"
proof -
  let ?ks = "Keys (bState b)" and ?raw = "\<lambda>k. the (map_of (bKeys b) (kID k))"
  have files: "inj (key_file os root)" "marker_file os root \<notin> range (key_file os root)"
    using assms(3) by (simp_all add: proper_files_def)
  have raw: "\<exists>sg. map_of (bKeys b) (kID k) = Some (?raw k) \<and> length (?raw k) \<le> 2 ^ 20 \<and> pk (?raw k) = ParsedKey sg"
    if "k \<in> set ?ks" for k using assms(6) that by fastforce
  obtain fs1 cr where i: "install_keys (install_key io os q pk d b root) 0 ?ks (fs, []) = (Inr (placed os root ?ks), fs1, cr)"
    and f: "\<forall>j < length ?ks. fs1 (key_file os root j) = Some (file_of (?raw (?ks ! j)))"
    using install_keys_ok [of io b os root ?ks ?raw pk 0 fs q d "[]", OF assms(1,4) files(1) raw] assms(5)
    by (auto simp: placed_def)
  obtain d' where "Update up q (install_update us now None ((bState b)\<lparr>Keys := placed os root ?ks\<rparr>)) d = (Inr (), d')"
    and l: "load d' = (load d)\<lparr>Keys := placed os root ?ks, Hosts := Hosts (bState b), Tunnels := Tunnels (bState b), Services := Services (bState b)\<rparr>"
    using update_placed [where q = q, OF assms(2,3,7-11)] by blast
  then have "install_run up us q io os pk now root b d fs =
      ((True, None), d', fs1(marker_file os root \<mapsto> file_of marker_text))"
    using i assms(1,4) by (simp add: install_run_def)
  moreover have "(fs1(marker_file os root \<mapsto> file_of marker_text)) (key_file os root j) =
      map_option file_of (map_of (bKeys b) (kID (?ks ! j)))" if j: "j < length ?ks" for j
  proof -
    have "key_file os root j \<noteq> marker_file os root" using files(2) by (metis rangeI)
    moreover obtain x where "map_of (bKeys b) (kID (?ks ! j)) = Some x" using raw [of "?ks ! j"] j by auto
    ultimately show ?thesis using f j by simp
  qed
  ultimately show ?thesis using l by simp
qed

lemma proper_files_unix:
  assumes "unix_IsAbs dir" "unix_Clean dir = dir" "utf8_valid dir" "sha data \<noteq> []"
  shows "proper_files (unix_os home) (bundle_root (unix_os home) sha dir data)"
proof -
  let ?r = "bundle_root (unix_os home) sha dir data"
  note r = bundle_root_unix [of dir sha data home, OF assms(1,2,4)]
  have "ascii (Itoa (int j))" for j
    using nat_digits_digits [of j] by (auto simp: Itoa_def ascii_def list_all_iff is_digit_def)
  then have "utf8_valid (?r @ ''/key-'' @ Itoa (int j))" for j
    using r(4) [OF assms(3)] by (intro utf8_valid_append) (simp_all add: utf8_valid_ascii)
  then show ?thesis
    using inj_key_file [OF r(1-3)] by (auto simp: proper_files_def key_file_unix [OF r(1-3)] marker_file_unix [OF r(1-3)])
qed

text \<open>No sender-provided name is used: a package's files lie in its own directory.\<close>

lemma package_files_unix:
  assumes "unix_IsAbs dir" "unix_Clean dir = dir" "sha data \<noteq> []"
  shows "HasPrefix (key_file (unix_os home) (bundle_root (unix_os home) sha dir data) j)
      (bundle_root (unix_os home) sha dir data @ ''/'')"
    "HasPrefix (marker_file (unix_os home) (bundle_root (unix_os home) sha dir data))
      (bundle_root (unix_os home) sha dir data @ ''/'')"
proof -
  note r = bundle_root_unix [of dir sha data home, OF assms]
  show "HasPrefix (key_file (unix_os home) (bundle_root (unix_os home) sha dir data) j)
      (bundle_root (unix_os home) sha dir data @ ''/'')"
    "HasPrefix (marker_file (unix_os home) (bundle_root (unix_os home) sha dir data))
      (bundle_root (unix_os home) sha dir data @ ''/'')"
    unfolding key_file_unix [OF r(1-3)] marker_file_unix [OF r(1-3)] by (simp_all add: HasPrefix_iff)
qed

section \<open>Checking a package made by Create\<close>

text \<open>encoding/json reads back what it keeps of a value; the order of a map's entries is not kept,
  and the keys of a map stay apart if they are valid UTF-8.\<close>

definition bundle_codec :: "codec \<Rightarrow> bool" where
  "bundle_codec c \<longleftrightarrow> (\<forall>b data. MarshalBundle c b = Inr data \<and> (\<forall>i \<in> dom (map_of (bKeys b)). utf8_valid i) \<longrightarrow>
     data \<noteq> [] \<and> (\<exists>m. DecodeStrict c data = Inr ((wire_bundle b)\<lparr>bKeys := m\<rparr>) \<and> map_of m = map_of (bKeys b)))"

lemma install_check_created:
  assumes "Create up os fs pk c s ids = Inr data" "bundle_codec c" "utf8_clean s"
  shows "\<exists>r m. Select up s ids = Inr r \<and> data \<noteq> [] \<and> length data \<le> MaxPayload
    \<and> (\<forall>k \<in> set (Keys r). holds_key os fs pk m k)
    \<and> install_check up q c ed data d =
      Inr (Some \<lparr>bSource = None, bVersion = 1, bState = set_paths ''bundled-key'' r, bKeys = m\<rparr>)"
proof -
  obtain r kb where r: "Select up s ids = Inr r" "dom (map_of kb) = set ids" "length data \<le> MaxPayload"
    "\<forall>k \<in> set (Keys r). holds_key os fs pk kb k"
    and mb: "MarshalBundle c \<lparr>bSource = None, bVersion = 1, bState = set_paths ''bundled-key'' r, bKeys = kb\<rparr> = Inr data"
    using Create_Inr [OF assms(1)] by blast
  obtain ks where ks: "r = selection s ids ks" "kID ` set ks = set ids" "distinct (map kID ks)"
    and wf: "well_formed up r" using Select_Inr [OF r(1)] by metis
  note wire = wire_selection [OF r(1) assms(3), of "''bundled-key''"]
  have w: "wire_state (set_paths ''bundled-key'' r) = set_paths ''bundled-key'' r"
    by (rule wire(1)) (simp add: utf8_valid_ascii)
  have "\<forall>i \<in> dom (map_of kb). utf8_valid i"
    using r(2) ks(1,2) wire(2) by (simp add: utf8_valid_ascii)
  with mb assms(2) obtain m where data: "data \<noteq> []" and m: "map_of m = map_of kb"
    and dec: "DecodeStrict c data = Inr \<lparr>bSource = None, bVersion = 1, bState = set_paths ''bundled-key'' r, bKeys = m\<rparr>"
    by (fastforce simp: bundle_codec_def wire_bundle_def w)
  have "map_len m = length (Keys r)"
    using ks r(2) m by (metis card_image distinct_card distinct_map map_len_card selection_simps(2))
  moreover have "Validate up (set_paths ''bundled-key'' r) = Inr ()"
    using well_formed_set_paths [OF wf] by (simp add: Validate_iff)
  ultimately have "install_check up q c ed data d =
      Inr (Some \<lparr>bSource = None, bVersion = 1, bState = set_paths ''bundled-key'' r, bKeys = m\<rparr>)"
    using dec by (simp add: install_check_def)
  with r data m show ?thesis by (auto simp: holds_key_def)
qed

end
