(* ===== verification/Team_Correct.thy ===== *)
theory Team_Correct
  imports TeamInstall Store_Correct
begin

text \<open>
  What team sharing promises: packages hold exactly what was chosen and arrive intact, an
  installation happens completely or not at all, feeds are authentic, and neither touches
  what the recipient keeps for itself.
\<close>

section \<open>Sample parameters\<close>

definition no_codec :: codec where
  "no_codec = \<lparr>MarshalBundle = (\<lambda>_. Inl (ShareErr JSONDecode)), DecodeStrict = (\<lambda>_. Inl (ShareErr JSONDecode)),
     UnmarshalBundle = (\<lambda>_. Inl (ShareErr JSONDecode)), MarshalIDs = (\<lambda>_. Inl (ShareErr JSONDecode)),
     UnmarshalIDs = (\<lambda>_. Inl (ShareErr JSONDecode)), MarshalMessage = (\<lambda>_. Inl (ShareErr JSONDecode)),
     UnmarshalMessage = (\<lambda>_. Inl (ShareErr JSONDecode)), MarshalSigned = (\<lambda>_. Inl (ShareErr JSONDecode)),
     UnmarshalSigned = (\<lambda>_. Inl (ShareErr JSONDecode))\<rparr>"

definition no_crypto :: ed25519 where
  "no_crypto = \<lparr>edSign = (\<lambda>_ m. m), edVerify = (\<lambda>_ m s. m = s), edPublic = take PublicKeySize\<rparr>"

definition sample_io :: disk_io where
  "sample_io = \<lparr>ioOk = (\<lambda>_. True), ioShort = (\<lambda>_. 0)\<rparr>"

section \<open>Packages\<close>

text \<open>A selection holds exactly the chosen keys, the hosts that use them and what hangs on those
  hosts; it is valid by itself, every host connects through the same jump hosts as before, and
  nothing of the sender's settings, history or subscriptions is in it.\<close>

theorem Select_is_self_contained:
  assumes "Select up s ids = Inr r"
  shows "well_formed up r \<and> kID ` set (Keys r) = set ids \<and> set (Keys r) \<subseteq> set (Keys s)
    \<and> Hosts r = filter (\<lambda>h. hKeyID h \<in> set ids) (Hosts s)
    \<and> Tunnels r = filter (\<lambda>t. tHostID t \<in> hID ` set (Hosts r)) (Tunnels s)
    \<and> Services r = filter (\<lambda>v. sTunnelID v \<in> tID ` set (Tunnels r)) (Services s)
    \<and> (\<forall>h \<in> set (Hosts r). Chain r (hID h) = Chain s (hID h) \<and> ok (Chain r (hID h)))
    \<and> Team r = [] \<and> History r = [] \<and> Settings r = empty_settings"
proof -
  obtain ks where r: "r = selection s ids ks" "kID ` set ks = set ids" "well_formed up r"
    and "\<forall>k \<in> set ks. State_Key s (kID k) = Inr k"
    using Select_Inr [OF assms] by metis
  then have "set (Keys r) \<subseteq> set (Keys s)" "kID ` set (Keys r) = set ids" by (auto dest: State_KeyD)
  moreover have "Hosts r = filter (\<lambda>h. hKeyID h \<in> set ids) (Hosts s)"
    "Tunnels r = filter (\<lambda>t. tHostID t \<in> hID ` set (Hosts r)) (Tunnels s)"
    "Services r = filter (\<lambda>v. sTunnelID v \<in> tID ` set (Tunnels r)) (Services s)"
    "Team r = []" "History r = []" "Settings r = empty_settings"
    by (simp_all add: r(1) selection_def Let_def empty_state_def)
  moreover have "\<forall>h \<in> set (Hosts r). Chain r (hID h) = Chain s (hID h) \<and> ok (Chain r (hID h))"
    using Select_Chain [OF assms] by metis
  ultimately show ?thesis using r(3) by blast
qed

theorem Select_is_self_contained_witness:
  "\<exists>r. Select (\<lambda>_. None) sample_state [''k''] = Inr r \<and> map hID (Hosts r) = [''b'', ''s''] \<and> well_formed (\<lambda>_. None) r"
proof -
  have e: "Select (\<lambda>_. None) sample_state [''k''] = Inr (selection sample_state [''k''] [sample_key])"
    by code_simp
  show ?thesis
  proof (intro exI conjI)
    show "Select (\<lambda>_. None) sample_state [''k''] = Inr (selection sample_state [''k''] [sample_key])" by (rule e)
    show "map hID (Hosts (selection sample_state [''k''] [sample_key])) = [''b'', ''s'']" by (simp add: sample_defs)
    show "well_formed (\<lambda>_. None) (selection sample_state [''k''] [sample_key])"
      using Select_is_self_contained [OF e] by blast
  qed
qed

text \<open>An executable with a package attached: the package is read back byte for byte, the program
  under it is found again, and attaching another package replaces the first one, so a package
  received from someone else is never passed on.\<close>

theorem attached_package_roundtrip:
  assumes "BaseSize f = Inr n" "WriteExecutable w f payload = Inr out"
    "payload \<noteq> []" "length payload \<le> MaxPayload"
    and "g = \<lparr>xBytes = out, xStat = True, xRead = True\<rparr>" "files path = Some g"
  shows "ReadExecutable files path = Inr payload \<and> BaseSize g = Inr n \<and>
    (\<forall>w' payload' out'. WriteExecutable w' g payload' = Inr out' \<longrightarrow>
       out' = take n (xBytes f) @ (if payload' = [] then [] else payload' @ put_uint64 (length payload') @ magic))"
proof -
  have out: "out = attached (take n (xBytes f)) payload"
    using WriteExecutable_Inr [OF assms(2)] assms(1,3) by auto
  have n: "n \<le> length (xBytes f)" by (rule BaseSize_le [OF assms(1)])
  with BaseSize_attached [of g "take n (xBytes f)" payload] assms(4,5) out
  have b: "BaseSize g = Inr n" by simp
  have "take n (xBytes g) = take n (xBytes f)" using n by (simp add: assms(5) out attached_def)
  then have "out' = take n (xBytes f) @ (if payload' = [] then [] else payload' @ put_uint64 (length payload') @ magic)"
    if "WriteExecutable w' g payload' = Inr out'" for w' payload' out'
    using WriteExecutable_Inr [OF that] b by (auto simp: attached_def)
  moreover have "ReadExecutable files path = Inr payload"
    using ReadExecutable_attached [of files path g "take n (xBytes f)" payload] assms(4,5,6) out by simp
  ultimately show ?thesis using b by blast
qed

theorem attached_package_roundtrip_witness:
  "ReadExecutable [''app'' \<mapsto> \<lparr>xBytes = attached ''ELF'' ''pkg'', xStat = True, xRead = True\<rparr>] ''app'' = Inr ''pkg''"
proof -
  let ?f = "\<lparr>xBytes = ''ELF'', xStat = True, xRead = True\<rparr>"
  have "BaseSize ?f = Inr 3" by code_simp
  moreover have "WriteExecutable (\<lambda>_. True) ?f ''pkg'' = Inr (attached ''ELF'' ''pkg'')" by code_simp
  ultimately show ?thesis
    using attached_package_roundtrip [of ?f 3 "\<lambda>_. True" "''pkg''" "attached ''ELF'' ''pkg''" _
        "[''app'' \<mapsto> \<lparr>xBytes = attached ''ELF'' ''pkg'', xStat = True, xRead = True\<rparr>]" "''app''"]
    by (simp add: MaxPayload_def)
qed

section \<open>Installing\<close>

text \<open>A package of a new source, or of none, never changes a record the recipient has: every
  lookup that succeeded still returns the same record, and every record of the package can be
  found, under its own identifier.\<close>

theorem install_merge_keeps_records:
  assumes "install_merge src incoming s = Inr s'" "unique_ids s"
  shows "(\<forall>j x. find_id hID j (Hosts s) = Some x \<longrightarrow> find_id hID j (Hosts s') = Some x)
    \<and> (\<forall>j x. find_id kID j (Keys s) = Some x \<longrightarrow> find_id kID j (Keys s') = Some x)
    \<and> (\<forall>j x. find_id tID j (Tunnels s) = Some x \<longrightarrow> find_id tID j (Tunnels s') = Some x)
    \<and> (\<forall>j x. find_id sID j (Services s) = Some x \<longrightarrow> find_id sID j (Services s') = Some x)
    \<and> (\<forall>h \<in> set (Hosts incoming). find_id hID (hID h) (Hosts s') = Some h)
    \<and> (\<forall>k \<in> set (Keys incoming). find_id kID (kID k) (Keys s') = Some k)
    \<and> (\<forall>t \<in> set (Tunnels incoming). find_id tID (tID t) (Tunnels s') = Some t)
    \<and> (\<forall>v \<in> set (Services incoming). find_id sID (sID v) (Services s') = Some v)"
proof -
  have reg: "registerSource a sr b = Inr s' \<Longrightarrow> Hosts s' = Hosts a \<and> Keys s' = Keys a \<and>
      Tunnels s' = Tunnels a \<and> Services s' = Services a" for a sr b
    by (auto simp: registerSource_def res_simps)
  have m: "merge (Keys s) (Keys incoming) kID = Inr (Keys s')" "merge (Hosts s) (Hosts incoming) hID = Inr (Hosts s')"
    "merge (Tunnels s) (Tunnels incoming) tID = Inr (Tunnels s')"
    "merge (Services s) (Services incoming) sID = Inr (Services s')"
    using assms(1) by (auto simp: install_merge_def Let_def res_simps split: option.splits dest!: reg)
  have d: "distinct (map hID (Hosts s))" "distinct (map kID (Keys s))" "distinct (map tID (Tunnels s))"
    "distinct (map sID (Services s))"
    using assms(2) by (simp_all add: unique_ids_def)
  show ?thesis
    using bundle_merge.keeps [OF m(1)] bundle_merge.keeps [OF m(2)] bundle_merge.keeps [OF m(3)] bundle_merge.keeps [OF m(4)]
      bundle_merge.finds [OF m(1) d(2)] bundle_merge.finds [OF m(2) d(1)] bundle_merge.finds [OF m(3) d(3)]
      bundle_merge.finds [OF m(4) d(4)]
    by simp
qed

theorem install_merge_keeps_records_witness:
  "\<exists>s'. install_merge None (sample_state\<lparr>Hosts := [sample_server\<lparr>hID := ''n''\<rparr>]\<rparr>) sample_state = Inr s'
     \<and> find_id hID ''s'' (Hosts s') = Some sample_server \<and> find_id hID ''n'' (Hosts s') = Some (sample_server\<lparr>hID := ''n''\<rparr>)"
proof -
  let ?inc = "sample_state\<lparr>Hosts := [sample_server\<lparr>hID := ''n''\<rparr>]\<rparr>"
  let ?s' = "sample_state\<lparr>Hosts := [sample_bastion, sample_server, sample_server\<lparr>hID := ''n''\<rparr>]\<rparr>"
  have e: "install_merge None ?inc sample_state = Inr ?s'" by code_simp
  have "unique_ids sample_state" by code_simp
  from install_merge_keeps_records [OF e this]
  have "find_id hID ''s'' (Hosts sample_state) = Some sample_server \<longrightarrow> find_id hID ''s'' (Hosts ?s') = Some sample_server"
    "find_id hID (hID (sample_server\<lparr>hID := ''n''\<rparr>)) (Hosts ?s') = Some (sample_server\<lparr>hID := ''n''\<rparr>)"
    by (blast, simp)
  with e show ?thesis by (intro exI [of _ ?s']) (simp add: sample_defs)
qed

text \<open>C17. A package made by \<open>Create\<close> and installed into an empty configuration reproduces the
  selection: the same hosts, tunnels and links, the same keys, whose files in the package's own
  directory hold the sender's key bytes; installing it a second time changes nothing.\<close>

theorem team_package_roundtrip:
  assumes created: "Create up os fs pk c s ids = Inr data" "bundle_codec c"
    and sender: "utf8_clean s" "unique_ids s" "\<And>p f. fs p = Some f \<Longrightarrow> length (fContent f) \<le> fSize f"
    and system: "\<And>op. ioOk io op" "\<And>st. q st"
    and dir: "unix_IsAbs dir" "unix_Clean dir = dir" "utf8_valid dir" "sha data \<noteq> []"
    and fresh: "empty_config (load d)" "utf8_clean (load d)"
      "\<And>p. HasPrefix p (bundle_root (unix_os home) sha dir data @ ''/'') \<Longrightarrow> fs' p = None"
  shows "\<exists>r d' fs''. Select up s ids = Inr r
    \<and> Install up us q c ed io (unix_os home) pk sha now dir data d fs' = ((True, None), d', fs'')
    \<and> Hosts (load d') = Hosts r \<and> Tunnels (load d') = Tunnels r \<and> Services (load d') = Services r
    \<and> map kID (Keys (load d')) = map kID (Keys r) \<and> map kName (Keys (load d')) = map kName (Keys r)
    \<and> (\<forall>j < length (Keys r). \<exists>b. key_Read os fs (kPath (Keys r ! j)) = Inr b
         \<and> fs'' (kPath (Keys (load d') ! j)) = Some (file_of b))
    \<and> Install up us q c ed io (unix_os home) pk sha now dir data d' fs'' = ((False, None), d', fs'')"
proof -
  let ?root = "bundle_root (unix_os home) sha dir data"
  obtain r m where r: "Select up s ids = Inr r" and data: "data \<noteq> []" "length data \<le> MaxPayload"
    and keys: "\<forall>k \<in> set (Keys r). holds_key os fs pk m k"
    and ic: "install_check up q c ed data d =
      Inr (Some \<lparr>bSource = None, bVersion = 1, bState = set_paths ''bundled-key'' r, bKeys = m\<rparr>)"
    using install_check_created [OF created sender(1)] by blast
  let ?b = "\<lparr>bSource = None, bVersion = 1, bState = set_paths ''bundled-key'' r, bKeys = m\<rparr>"
  have no_file: "fs' (marker_file (unix_os home) ?root) = None" "\<forall>j. fs' (key_file (unix_os home) ?root j) = None"
    using fresh(3) package_files_unix [of dir sha data home, OF dir(1,2,4)] by blast+
  have small: "key_Read os fs p = Inr b \<Longrightarrow> length b \<le> 2 ^ 20" for p b
    using sender(3) by (fastforce simp: key_Read_def res_simps split: option.splits)
  have raw: "\<forall>k \<in> set (Keys (bState ?b)). \<exists>raw sg. map_of (bKeys ?b) (kID k) = Some raw \<and> length raw \<le> 2 ^ 20 \<and> pk raw = ParsedKey sg"
    using keys small by (fastforce simp: holds_key_def)
  obtain ks where "well_formed up r" using Select_Inr [OF r] by metis
  then have b: "well_formed up (bState ?b)" "unique_ids (bState ?b)" "utf8_clean (bState ?b)"
    using well_formed_set_paths unique_ids_Select [OF r sender(2)]
      utf8_clean_set_paths [OF utf8_clean_Select [OF r sender(1)], of "''bundled-key''"]
    by (simp_all add: unique_ids_def comp_def utf8_valid_ascii)
  obtain d' fs'' where run: "install_run up us q io (unix_os home) pk now ?root ?b d fs' = ((True, None), d', fs'')"
    and l: "load d' = (load d)\<lparr>Keys := placed (unix_os home) ?root (Keys (bState ?b)), Hosts := Hosts r,
        Tunnels := Tunnels r, Services := Services r\<rparr>"
    and f: "\<forall>j < length (Keys r). fs'' (key_file (unix_os home) ?root j) = map_option file_of (map_of m (kID (Keys r ! j)))"
    and marker: "fs'' (marker_file (unix_os home) ?root) \<noteq> None"
    using install_run_fresh [of io q "unix_os home" ?root ?b fs' pk d up us now,
        OF system proper_files_unix [of dir sha data home, OF dir] _ no_file(2) raw fresh(1,2) b] by auto
  have files: "\<exists>b. key_Read os fs (kPath (Keys r ! j)) = Inr b \<and> fs'' (kPath (Keys (load d') ! j)) = Some (file_of b)"
    if "j < length (Keys r)" for j
    using that keys f by (fastforce simp: l nth_placed holds_key_def dest: nth_mem)
  then have files': "\<forall>j < length (Keys r). \<exists>b. key_Read os fs (kPath (Keys r ! j)) = Inr b
      \<and> fs'' (kPath (Keys (load d') ! j)) = Some (file_of b)" by blast
  have first: "Install up us q c ed io (unix_os home) pk sha now dir data d fs' = ((True, None), d', fs'')"
    using data ic run no_file(1) by (simp add: Install_def Let_def)
  have second: "Install up us q c ed io (unix_os home) pk sha now dir data d' fs'' = ((False, None), d', fs'')"
    using data marker system(1) by (auto simp: Install_def Let_def)
  show ?thesis
    using r l first second files'
    by (intro exI [of _ r] exI [of _ d'] exI [of _ fs''] conjI) (simp_all only: placed_simps, simp_all add: comp_def)
qed


text \<open>A codec that knows one package, and a disk that holds the sample key.\<close>

definition one_package :: "team_bundle \<Rightarrow> codec" where
  "one_package b = no_codec\<lparr>MarshalBundle := (\<lambda>x. if x = b then Inr ''json'' else Inl (ShareErr JSONDecode)),
     DecodeStrict := (\<lambda>t. if t = ''json'' then Inr b else Inl (ShareErr JSONDecode))\<rparr>"

definition sample_bundle :: team_bundle where
  "sample_bundle = \<lparr>bSource = None, bVersion = 1,
     bState = set_paths ''bundled-key'' (selection sample_state [''k''] [sample_key]), bKeys = [(''k'', ''PRIVATE'')]\<rparr>"

definition sample_disk :: fs where
  "sample_disk = [''/home/u/.ssh/id'' \<mapsto> file_of ''PRIVATE'']"

lemma one_package_codec: "wire_bundle b = b \<Longrightarrow> bundle_codec (one_package b)"
  by (auto simp: bundle_codec_def one_package_def no_codec_def intro!: exI [of _ "bKeys b"])

lemma sample_bundle_wire: "wire_bundle sample_bundle = sample_bundle"
  by code_simp

lemma sample_created:
  "Create (\<lambda>_. None) (unix_os None) sample_disk (\<lambda>_. ParsedKey ()) (one_package sample_bundle) sample_state [''k''] = Inr ''json''"
  by code_simp

theorem team_package_roundtrip_witness:
  "\<exists>d'. fst (Install (\<lambda>_. None) (\<lambda>_ _. None) (\<lambda>_. True) (one_package sample_bundle) no_crypto sample_io (unix_os None)
      (\<lambda>_. ParsedKey ()) (\<lambda>_. ''digest'') [] ''/data'' ''json'' fresh_db (\<lambda>_. None)) = (True, None)
    \<and> fst (snd (Install (\<lambda>_. None) (\<lambda>_ _. None) (\<lambda>_. True) (one_package sample_bundle) no_crypto sample_io (unix_os None)
      (\<lambda>_. ParsedKey ()) (\<lambda>_. ''digest'') [] ''/data'' ''json'' fresh_db (\<lambda>_. None))) = d'
    \<and> Hosts (load d') = [sample_bastion, sample_server]"
proof -
  have u: "utf8_clean sample_state" by (rule sample_utf8)
  have l: "load fresh_db = empty_state" by (simp add: load_def fresh_db_def empty_state_def sort_history_def)
  have "utf8_clean (load fresh_db)" by (simp add: l utf8_clean_iff empty_state_def)
  moreover have "unique_ids sample_state" by code_simp
  moreover have "length (fContent f) \<le> fSize f" if "sample_disk p = Some f" for p f
    using that by (auto simp: sample_disk_def file_of_def split: if_splits)
  moreover have "unix_IsAbs ''/data''" "unix_Clean ''/data'' = ''/data''" by code_simp+
  moreover have "empty_config (load fresh_db)" by (simp add: l empty_config_def empty_state_def)
  ultimately obtain r d' fs'' where r: "Select (\<lambda>_. None) sample_state [''k''] = Inr r"
    and i: "Install (\<lambda>_. None) (\<lambda>_ _. None) (\<lambda>_. True) (one_package sample_bundle) no_crypto sample_io (unix_os None)
      (\<lambda>_. ParsedKey ()) (\<lambda>_. ''digest'') [] ''/data'' ''json'' fresh_db (\<lambda>_. None) = ((True, None), d', fs'')"
    and h: "Hosts (load d') = Hosts r"
    using team_package_roundtrip [of "\<lambda>_. None" "unix_os None" sample_disk "\<lambda>_. ParsedKey ()" "one_package sample_bundle"
        sample_state "[''k'']" "''json''" sample_io "\<lambda>_. True" "''/data''" "\<lambda>_. ''digest''" fresh_db None "\<lambda>_. None"
        "\<lambda>_ _. None" no_crypto "[]", OF sample_created one_package_codec [OF sample_bundle_wire] u]
    by (auto simp: sample_io_def utf8_valid_ascii)
  have "Select (\<lambda>_. None) sample_state [''k''] = Inr (selection sample_state [''k''] [sample_key])" by code_simp
  with r have "Hosts r = [sample_bastion, sample_server]" by (auto simp: sample_defs)
  with i h show ?thesis by simp
qed

text \<open>C25. An installation that does not report success has not changed the store, and has changed no
  file: what it created it removes again. The only trace there can be is a new key file in the
  package's own directory which the operating system refused to remove.\<close>

theorem failed_Install_changes_nothing:
  assumes "Install up us q c ed io os pk sha now dir payload d fs = ((False, e), d', fs')"
  shows "d' = d \<and> (\<forall>p. fs' p = fs p \<or> fs p = None \<and> left_over io os (bundle_root os sha dir payload) p)"
proof (cases "d' = d \<and> fs' = fs")
  case False
  let ?root = "bundle_root os sha dir payload"
  obtain b where run: "install_run up us q io os pk now ?root b d fs = ((False, e), d', fs')"
    using assms(1) False by (auto simp: Install_def Let_def split: if_splits sum.splits option.splits)
  obtain r w where k: "install_keys (install_key io os q pk d b ?root) 0 (Keys (bState b)) (fs, []) = (r, w)"
    by (cases "install_keys (install_key io os q pk d b ?root) 0 (Keys (bState b)) (fs, [])")
  note t = remove_created_tracks [OF install_work_tracks [OF k], of io]
  from run k have "d' = d" "fs' = fs \<or> fs' = remove_created io (snd w) (fst w)"
    by (cases w; auto simp: install_run_def split: if_splits sum.splits prod.splits dest: Update_Inl)+
  with t show ?thesis by metis
qed auto

text \<open>The key file of the sample package is written; then the transaction cannot be committed.\<close>

theorem failed_Install_changes_nothing_witness:
  "let attempt = (\<lambda>q. Install (\<lambda>_. None) (\<lambda>_ _. None) q (one_package sample_bundle) no_crypto sample_io (unix_os None)
     (\<lambda>_. ParsedKey ()) (\<lambda>_. ''digest'') [] ''/data'' ''json'' fresh_db (\<lambda>_. None));
     p = key_file (unix_os None) (bundle_root (unix_os None) (\<lambda>_. ''digest'') ''/data'' ''json'') 0
   in snd (snd (attempt (\<lambda>_. True))) p = Some (file_of ''PRIVATE'')
     \<and> fst (attempt (\<lambda>st. st \<noteq> Commit)) = (False, Some (DbErr DBFailure))
     \<and> snd (attempt (\<lambda>st. st \<noteq> Commit)) = (fresh_db, \<lambda>_. None)"
proof -
  define attempt where "attempt = (\<lambda>q. Install (\<lambda>_. None) (\<lambda>_ _. None) q (one_package sample_bundle) no_crypto sample_io (unix_os None)
     (\<lambda>_. ParsedKey ()) (\<lambda>_. ''digest'') [] ''/data'' ''json'' fresh_db (\<lambda>_. None))"
  have ok: "snd (snd (attempt (\<lambda>_. True))) (key_file (unix_os None) (bundle_root (unix_os None) (\<lambda>_. ''digest'') ''/data'' ''json'') 0)
      = Some (file_of ''PRIVATE'')" unfolding attempt_def by code_simp
  have f: "fst (attempt (\<lambda>st. st \<noteq> Commit)) = (False, Some (DbErr DBFailure))" unfolding attempt_def by code_simp
  obtain d' fs' where "attempt (\<lambda>st. st \<noteq> Commit) = ((False, Some (DbErr DBFailure)), d', fs')"
    using f by (metis prod.collapse)
  note e = this [unfolded attempt_def]
  have "d' = fresh_db" "fs' = (\<lambda>_. None)"
    using failed_Install_changes_nothing [OF e] by (auto simp: left_over_def sample_io_def)
  with e f ok show ?thesis unfolding Let_def attempt_def by simp
qed

section \<open>Feeds\<close>

definition sample_source :: team_source where
  "sample_source = \<lparr>tsURL = ''http://192.168.0.7:9877'', tsFeed = replicate 64 CHR ''a'', tsPublicKey = replicate 32 CHR ''p''\<rparr>"

text \<open>A member that follows a source for its key and its bastion, and a feed that moves the bastion's port.\<close>

definition sample_member :: state where
  "sample_member = sample_state\<lparr>Team := [\<lparr>Source = sample_source,
     Items = [(''keys/k'', ''current''), (''hosts/b'', ''current''), (''tunnels/old'', ''current'')],
     LastSync = [], SubError = ''offline'', Paused = False\<rparr>]\<rparr>"

definition sample_feed :: state where
  "sample_feed = empty_state\<lparr>Hosts := [sample_bastion\<lparr>hPort := 2222\<rparr>],
     Keys := [sample_key\<lparr>kPath := ''local-key-preserved''\<rparr>]\<rparr>"

definition sample_synced :: state where
  "sample_synced = sample_state\<lparr>Hosts := [sample_bastion\<lparr>hPort := 2222\<rparr>, sample_server],
     Team := [\<lparr>Source = sample_source,
       Items = [(''hosts/b'', ''current''), (''keys/k'', ''current''), (''tunnels/old'', ''missing'')],
       LastSync = ''now'', SubError = [], Paused = False\<rparr>]\<rparr>"

lemma sample_sync: "ApplyFeed (\<lambda>_ _. None) ''now'' 0 sample_feed sample_member = Inr sample_synced"
  by code_simp

text \<open>A member whose source dropped a web link and moved the tunnel the link uses to another port;
  a second link is the member's own.\<close>

definition sample_move :: "string \<Rightarrow> string \<Rightarrow> string option" where
  "sample_move raw host = Some (''http://'' @ host @ ''/'')"

definition sample_weblink :: "string \<Rightarrow> string \<Rightarrow> service" where
  "sample_weblink i u = \<lparr>sID = i, sName = i, sEnvironment = ''DEV'', sTunnelID = ''t'', sURL = u, sDescription = []\<rparr>"

definition sample_linked :: state where
  "sample_linked = sample_state\<lparr>Services := [sample_weblink ''shared'' ''http://127.0.0.1:15432/'', sample_weblink ''mine'' ''http://127.0.0.1:15432/x''],
     Team := [\<lparr>Source = sample_source,
       Items = [(''keys/k'', ''current''), (''tunnels/t'', ''current''), (''services/shared'', ''current'')],
       LastSync = [], SubError = [], Paused = False\<rparr>]\<rparr>"

definition sample_moved :: state where
  "sample_moved = empty_state\<lparr>Keys := [sample_key\<lparr>kPath := ''local-key-preserved''\<rparr>],
     Tunnels := [sample_tunnel\<lparr>tLocalPort := 16000\<rparr>]\<rparr>"

text \<open>C9. Applying a feed refines its specification: seen as partial functions of identifiers, the
  source's records override the member's. Two things differ from a plain override: a key keeps the
  path it has on this machine, and the URL of a web link that the source managed and dropped follows
  the local port of its tunnel. Every other web link, the member's own ones included, keeps its URL.\<close>

theorem ApplyFeed_refines_override:
  assumes "ApplyFeed us now i incoming s = Inr s'"
  shows "view s' = feed_spec us (fst ` set (Items (Team s ! i))) (view s) (view incoming)"
  using assms by (rule ApplyFeed_view)

theorem ApplyFeed_refines_override_witness:
  "\<exists>s'. ApplyFeed sample_move ''now'' 0 sample_moved sample_linked = Inr s'
    \<and> map_option tLocalPort (vTunnels (view s') ''t'') = Some 16000
    \<and> map_option sURL (vServices (view s') ''shared'') = Some ''http://127.0.0.1:16000/''
    \<and> map_option sURL (vServices (view s') ''mine'') = Some ''http://127.0.0.1:15432/x''"
proof -
  let ?r = "ApplyFeed sample_move ''now'' 0 sample_moved sample_linked"
  have "isl ?r = False" by code_simp
  then obtain s' where s': "?r = Inr s'" by (cases ?r) auto
  let ?spec = "feed_spec sample_move (fst ` set (Items (Team sample_linked ! 0))) (view sample_linked) (view sample_moved)"
  have "map_option tLocalPort (vTunnels ?spec ''t'') = Some 16000"
    "map_option sURL (vServices ?spec ''shared'') = Some ''http://127.0.0.1:16000/''"
    "map_option sURL (vServices ?spec ''mine'') = Some ''http://127.0.0.1:15432/x''" by code_simp+
  with s' show ?thesis unfolding ApplyFeed_refines_override [OF s', symmetric] by blast
qed

text \<open>C24. A feed cannot touch what the source does not manage, cannot remove a record, add a key or
  point a key at another file, and leaves history, settings and other subscriptions alone.\<close>

theorem ApplyFeed_keeps_personal_records:
  assumes "ApplyFeed us now i incoming s = Inr s'"
  shows "keeps_personal (Items (Team s ! i)) s s'
    \<and> hID ` set (Hosts s) \<subseteq> hID ` set (Hosts s') \<and> tID ` set (Tunnels s) \<subseteq> tID ` set (Tunnels s')
    \<and> sID ` set (Services s) \<subseteq> sID ` set (Services s') \<and> kID ` set (Keys s') = kID ` set (Keys s)
    \<and> (\<forall>j. map_option kPath (find_id kID j (Keys s')) = map_option kPath (find_id kID j (Keys s)))
    \<and> History s' = History s \<and> Settings s' = Settings s
    \<and> (\<forall>k. k \<noteq> i \<longrightarrow> k < length (Team s) \<longrightarrow> Team s' ! k = Team s ! k)"
proof -
  have "History s' = History s" "Settings s' = Settings s"
    "Team s' = (Team s)[i := (Team s ! i)\<lparr>Items := mark_missing (Items (Team s ! i)) (Track incoming),
        LastSync := now, SubError := []\<rparr>]"
    by (rule ApplyFeed_Inr [OF assms], assumption)+
  then show ?thesis
    using ApplyFeed_personal [OF assms] ApplyFeed_ids [OF assms] ApplyFeed_paths [OF assms] by simp
qed

theorem ApplyFeed_keeps_personal_records_witness:
  "find_id hID ''s'' (Hosts sample_synced) = Some sample_server \<and> kID ` set (Keys sample_synced) = {''k''}"
proof -
  have k: "keeps_personal (Items (Team sample_member ! 0)) sample_member sample_synced"
    and i: "kID ` set (Keys sample_synced) = kID ` set (Keys sample_member)"
    using ApplyFeed_keeps_personal_records [OF sample_sync] by blast+
  have "unmanaged (Items (Team sample_member ! 0)) ''hosts'' ''s''" by code_simp
  moreover have "find_id hID ''s'' (Hosts sample_member) = Some sample_server" by code_simp
  ultimately have "find_id hID ''s'' (Hosts sample_synced) = Some sample_server"
    using k unfolding keeps_personal_def by (metis option.distinct(1))
  with i show ?thesis by (simp add: sample_member_def sample_defs)
qed

text \<open>After a feed was applied, every record it carries is found under its identifier exactly as
  the source sent it, and every managed record the source no longer sends is marked missing.\<close>

theorem ApplyFeed_delivers_records:
  assumes "ApplyFeed us now i incoming s = Inr s'" "i < length (Team s)"
  shows "(\<forall>h \<in> set (Hosts incoming). find_id hID (hID h) (Hosts s') = Some h)
    \<and> (\<forall>t \<in> set (Tunnels incoming). find_id tID (tID t) (Tunnels s') = Some t)
    \<and> (\<forall>v \<in> set (Services incoming). find_id sID (sID v) (Services s') = Some v)
    \<and> (\<forall>j. item (Items (Team s' ! i)) j =
         (if j \<in> tracked incoming then ''current'' else if j \<in> fst ` set (Items (Team s ! i)) then ''missing'' else []))"
proof -
  have "Team s' = (Team s)[i := (Team s ! i)\<lparr>Items := mark_missing (Items (Team s ! i)) (Track incoming),
        LastSync := now, SubError := []\<rparr>]"
    by (rule ApplyFeed_Inr [OF assms(1)], assumption)
  with assms(2) show ?thesis
    using ApplyFeed_delivers [OF assms(1)] by (simp add: item_marked)
qed


theorem ApplyFeed_delivers_records_witness:
  "find_id hID ''b'' (Hosts sample_synced) = Some (sample_bastion\<lparr>hPort := 2222\<rparr>)
   \<and> item (Items (Team sample_synced ! 0)) ''tunnels/old'' = ''missing''"
proof -
  have "0 < length (Team sample_member)" by code_simp
  note d = ApplyFeed_delivers_records [OF sample_sync this]
  have "''tunnels/old'' \<in> fst ` set (Items (Team sample_member ! 0))" by code_simp
  moreover have "''tunnels/old'' \<notin> tracked sample_feed" by code_simp
  moreover have "sample_bastion\<lparr>hPort := 2222\<rparr> \<in> set (Hosts sample_feed)" by (simp add: sample_feed_def)
  ultimately have "find_id hID (hID (sample_bastion\<lparr>hPort := 2222\<rparr>)) (Hosts sample_synced) = Some (sample_bastion\<lparr>hPort := 2222\<rparr>)"
    "item (Items (Team sample_synced ! 0)) ''tunnels/old'' = ''missing''"
    using d by (blast, simp)
  moreover have "hID (sample_bastion\<lparr>hPort := 2222\<rparr>) = ''b''" by (simp add: sample_bastion_def)
  ultimately show ?thesis by simp
qed

text \<open>What encoding/json and crypto/ed25519 document: decoding an encoding, verifying a signature.\<close>

definition sync_codec :: "codec \<Rightarrow> bool" where
  "sync_codec c \<longleftrightarrow>
     (\<forall>m t. MarshalMessage c m = Inr t \<longrightarrow> UnmarshalMessage c t = Inr (wire_message m)) \<and>
     (\<forall>g t. MarshalSigned c g = Inr t \<longrightarrow> UnmarshalSigned c t = Inr g)"

definition ed_correct :: "ed25519 \<Rightarrow> bool" where
  "ed_correct ed \<longleftrightarrow> (\<forall>secret m. length secret = PrivateKeySize \<longrightarrow>
     length (edPublic ed secret) = PublicKeySize \<and> edVerify ed (edPublic ed secret) m (edSign ed secret m))"

lemma DecodeString_ascii: "DecodeString s = Some b \<Longrightarrow> ascii s"
  by (induction s arbitrary: b rule: DecodeString.induct)
    (auto simp: hex_value_def Let_def split: option.splits if_splits)

lemma validHex_utf8: "validHex s \<Longrightarrow> utf8_valid s"
  by (auto simp: validHex_def intro: utf8_valid_ascii DecodeString_ascii split: option.splits)

lemma empty_valid: "well_formed up empty_state" "utf8_clean empty_state"
  by (simp_all add: well_formed_checks empty_state_def utf8_clean_iff)

text \<open>What a master puts into a feed.\<close>

lemma feed_scope:
  assumes "(if ids \<noteq> [] then Select up s ids else Inr empty_state) = Inr r" "utf8_clean s"
  shows "well_formed up r \<and> utf8_clean r \<and> kID ` set (Keys r) = set ids \<and>
    (\<forall>h \<in> set (Hosts r). hKeyID h \<in> set ids) \<and> Team r = [] \<and> History r = []"
proof (cases "ids = []")
  case True
  with assms(1) show ?thesis using empty_valid by (auto simp: empty_state_def)
next
  case False
  with assms(1) have r: "Select up s ids = Inr r" by simp
  obtain ks where "r = selection s ids ks" "kID ` set ks = set ids" "well_formed up r"
    using Select_Inr [OF r] by metis
  with utf8_clean_Select [OF r assms(2)] show ?thesis by (simp add: selection_def Let_def empty_state_def)
qed

text \<open>C26. A feed signed by a master for a request is accepted by a member that has the master's
  public key and made this request, and brings exactly those of the prepared keys that still
  exist, with only hosts that use them and without any key path.\<close>

theorem feed_roundtrip:
  assumes signed: "SignFeed up q c ed d (tsFeed src) nonce = Inr sg" "MarshalSigned c sg = Inr raw"
    and laws: "sync_codec c" "ed_correct ed"
    and master: "fst (LocalValue q ''team-signing-key'' None d) = Inr secret" "tsPublicKey src = edPublic ed secret"
      "fst (LocalValue q (''feed/'' @ tsFeed src) None d) = Inr data" "UnmarshalIDs c data = Inr ids"
    and clean: "utf8_clean (load d)"
  shows "\<exists>st. VerifyFeed up c ed src nonce raw = Inr st \<and> well_formed up st
    \<and> kID ` set (Keys st) = set ids \<inter> kID ` set (Keys (load d))
    \<and> (\<forall>k \<in> set (Keys st). kPath k = ''local-key-preserved'')
    \<and> (\<forall>h \<in> set (Hosts st). hKeyID h \<in> set ids)"
proof -
  let ?ids = "filter (\<lambda>i. ok (State_Key (load d) i)) ids"
  obtain r msg where hex: "validHex (tsFeed src)" "validHex nonce"
    and r: "(if ?ids \<noteq> [] then Select up (load d) ?ids else Inr empty_state) = Inr r"
    and msg: "MarshalMessage c \<lparr>mFeed = tsFeed src, mNonce = nonce, mState = set_paths ''local-key-preserved'' r\<rparr> = Inr msg"
    and secret: "length secret = PrivateKeySize" and sg: "sg = \<lparr>sMessage = msg, sSignature = edSign ed secret msg\<rparr>"
    using signed(1) master by (auto simp: SignFeed_def Let_def Snapshot_def res_simps)
  let ?st = "set_paths ''local-key-preserved'' r"
  note scope = feed_scope [OF r clean]
  have st: "well_formed up ?st" "utf8_clean ?st"
    using scope by (simp_all add: well_formed_set_paths utf8_clean_set_paths utf8_valid_ascii)
  have "wire_state ?st = ?st" using st(2) scope by (intro wire_state_id) simp_all
  then have "UnmarshalMessage c msg = Inr \<lparr>mFeed = tsFeed src, mNonce = nonce, mState = ?st\<rparr>"
    using laws(1) msg hex by (auto simp: sync_codec_def wire_message_def validHex_utf8 to_valid_id)
  moreover have "UnmarshalSigned c raw = Inr sg" using laws(1) signed(2) by (simp add: sync_codec_def)
  ultimately have "VerifyFeed up c ed src nonce raw = Inr ?st"
    using laws(2) secret master(2) Validate_iff [THEN iffD2, OF st(1)] by (simp add: VerifyFeed_def sg ed_correct_def)
  moreover have "set ?ids = set ids \<inter> kID ` set (Keys (load d))" by (auto simp: ok_State_Key)
  ultimately show ?thesis using st(1) scope
    by (intro exI [of _ ?st]) (auto simp: image_image)
qed

text \<open>A master with a prepared feed, a request, and a codec that knows its answer.\<close>

definition sample_nonce :: string where
  "sample_nonce = replicate 64 CHR ''b''"

definition sample_message :: sync_message where
  "sample_message = \<lparr>mFeed = tsFeed sample_source, mNonce = sample_nonce,
     mState = set_paths ''local-key-preserved'' (selection sample_state [''k''] [sample_key])\<rparr>"

definition sample_signed :: signed_sync where
  "sample_signed = \<lparr>sMessage = ''message'', sSignature = ''message''\<rparr>"

definition feed_codec :: codec where
  "feed_codec = no_codec\<lparr>UnmarshalIDs := (\<lambda>_. Inr [''k'', ''gone'']),
     MarshalMessage := (\<lambda>m. if m = sample_message then Inr ''message'' else Inl (ShareErr JSONDecode)),
     UnmarshalMessage := (\<lambda>t. if t = ''message'' then Inr sample_message else Inl (ShareErr JSONDecode)),
     MarshalSigned := (\<lambda>g. if g = sample_signed then Inr ''signed'' else Inl (ShareErr JSONDecode)),
     UnmarshalSigned := (\<lambda>t. if t = ''signed'' then Inr sample_signed else Inl (ShareErr JSONDecode))\<rparr>"

definition sample_master :: db where
  "sample_master = sample_db\<lparr>dLocal := [(''team-signing-key'', replicate 64 CHR ''p''),
     (''feed/'' @ tsFeed sample_source, ''ids'')]\<rparr>"

lemma sample_laws: "sync_codec feed_codec" "ed_correct no_crypto"
proof -
  have "wire_message sample_message = sample_message" by code_simp
  then show "sync_codec feed_codec" by (auto simp: sync_codec_def feed_codec_def no_codec_def)
  show "ed_correct no_crypto" by (simp add: ed_correct_def no_crypto_def PrivateKeySize_def PublicKeySize_def)
qed

theorem feed_roundtrip_witness:
  "\<exists>st. VerifyFeed (\<lambda>_. None) feed_codec no_crypto sample_source sample_nonce ''signed'' = Inr st \<and> kID ` set (Keys st) = {''k''}"
proof -
  have e: "SignFeed (\<lambda>_. None) (\<lambda>_. True) feed_codec no_crypto sample_master (tsFeed sample_source) sample_nonce = Inr sample_signed"
    by code_simp
  have m: "MarshalSigned feed_codec sample_signed = Inr ''signed''" by (simp add: feed_codec_def no_codec_def)
  have k: "fst (LocalValue (\<lambda>_. True) ''team-signing-key'' None sample_master) = Inr (replicate 64 CHR ''p'')"
    "tsPublicKey sample_source = edPublic no_crypto (replicate 64 CHR ''p'')"
    "fst (LocalValue (\<lambda>_. True) (''feed/'' @ tsFeed sample_source) None sample_master) = Inr ''ids''"
    by code_simp+
  have u: "UnmarshalIDs feed_codec ''ids'' = Inr [''k'', ''gone'']" by (simp add: feed_codec_def no_codec_def)
  have l: "load sample_master = sample_state" using load_sample by (simp add: load_def sample_master_def)
  then have "utf8_clean (load sample_master)" by (simp add: sample_utf8)
  from feed_roundtrip [OF e m sample_laws k u this]
  obtain st where st: "VerifyFeed (\<lambda>_. None) feed_codec no_crypto sample_source sample_nonce ''signed'' = Inr st"
    and ids: "kID ` set (Keys st) = set [''k'', ''gone''] \<inter> kID ` set (Keys (load sample_master))"
    by blast
  from ids have "kID ` set (Keys st) = {''k''}" unfolding l by (auto simp: sample_defs)
  with st show ?thesis by blast
qed

text \<open>C27. A configuration accepted from the network comes from a source on the local network named by
  a literal IPv4 address, is at most 16 MiB, carries a signature of the pinned key over a message
  that names this feed and this request's nonce, and is a valid configuration.\<close>

theorem FetchFeed_authenticates:
  assumes "FetchFeed up c ed get rnd n src = Inr st"
  shows "\<exists>u body sg m. up (tsURL src) = Some u \<and> local_ipv4 (Hostname u) \<and> url_Port u = ''9877''
    \<and> get (tsURL src @ ''/sync/'' @ tsFeed src @ ''?nonce='' @ ID rnd n @ ID rnd (Suc n)) = Answer 200 body True
    \<and> length body \<le> MaxPayload \<and> UnmarshalSigned c body = Inr sg
    \<and> edVerify ed (tsPublicKey src) (sMessage sg) (sSignature sg)
    \<and> UnmarshalMessage c (sMessage sg) = Inr m \<and> mFeed m = tsFeed src \<and> mNonce m = ID rnd n @ ID rnd (Suc n)
    \<and> mState m = st \<and> well_formed up st"
proof -
  obtain u where u: "up (tsURL src) = Some u" "local_ipv4 (Hostname u)" "url_Port u = ''9877''"
    using assms by (auto simp: FetchFeed_def ValidateSource_def source_url_ok_def res_simps split: option.splits)
  obtain body where body: "get (tsURL src @ ''/sync/'' @ tsFeed src @ ''?nonce='' @ ID rnd n @ ID rnd (Suc n)) = Answer 200 body True"
    "length body \<le> MaxPayload" "VerifyFeed up c ed src (ID rnd n @ ID rnd (Suc n)) body = Inr st"
    using assms by (auto simp: FetchFeed_def res_simps Let_def split: http_answer.splits if_splits)
  from body(3) obtain sg m where "UnmarshalSigned c body = Inr sg" "edVerify ed (tsPublicKey src) (sMessage sg) (sSignature sg)"
    "UnmarshalMessage c (sMessage sg) = Inr m" "mFeed m = tsFeed src" "mNonce m = ID rnd n @ ID rnd (Suc n)"
    "mState m = st" "Validate up st = Inr ()"
    by (auto simp: VerifyFeed_def res_simps split: sum.splits if_splits)
  with u body show ?thesis by (auto simp: Validate_iff)
qed


theorem FetchFeed_authenticates_witness:
  "\<exists>st. FetchFeed (\<lambda>_. Some \<lparr>uScheme = ''http'', uOpaque = [], uHasUser = False, uHost = ''192.168.0.7:9877'', uPath = [],
      uRawQuery = [], uFragment = []\<rparr>) feed_codec no_crypto (\<lambda>_. Answer 200 ''signed'' True) (\<lambda>_. replicate 16 CHR 0xBB) 0
      sample_source = Inr st \<and> local_ipv4 ''192.168.0.7'' \<and> edVerify no_crypto (tsPublicKey sample_source) ''message'' ''message''"
proof -
  let ?u = "\<lparr>uScheme = ''http'', uOpaque = [], uHasUser = False, uHost = ''192.168.0.7:9877'', uPath = [],
      uRawQuery = [], uFragment = []\<rparr>"
  have e: "FetchFeed (\<lambda>_. Some ?u) feed_codec no_crypto (\<lambda>_. Answer 200 ''signed'' True) (\<lambda>_. replicate 16 CHR 0xBB) 0 sample_source
      = Inr (mState sample_message)"
    by code_simp
  have h: "Hostname ?u = ''192.168.0.7''" by code_simp
  from FetchFeed_authenticates [OF e] obtain sg where
    "local_ipv4 (Hostname ?u)" "UnmarshalSigned feed_codec ''signed'' = Inr sg"
    "edVerify no_crypto (tsPublicKey sample_source) (sMessage sg) (sSignature sg)" by auto
  moreover from this(2) have "sg = sample_signed" by (simp add: feed_codec_def no_codec_def)
  ultimately show ?thesis using e h by (simp add: sample_signed_def)
qed

end
