(* ===== verification/WebRecords.thy ===== *)
theory WebRecords
  imports TeamInstall
begin

text \<open>
  The handlers of internal/web that change records: saving and deleting (server.go), the web links
  of a tunnel (tunnel_links.go) and configuration backups (backup.go). A request's body enters as
  what it decodes to under each type, the tunnel manager as the predicate \<open>active\<close>.
\<close>

section \<open>Request bodies\<close>

text \<open>\<open>decode\<close>: one JSON value without unknown fields, then the end of the body.\<close>

definition decode :: "'a res \<Rightarrow> bool \<Rightarrow> 'a res" where
  "decode first at_end = rbind first (\<lambda>v. rbind (check at_end (WebErr NotOneObject)) (\<lambda>_. Inr v))"

record body =
  asHost :: "host res"
  asKey :: "key res"
  asTunnel :: "(tunnel \<times> service list option) res"
  asService :: "(service \<times> tunnel option) res"
  asSettings :: "settings res"

section \<open>Web links of a tunnel\<close>

text \<open>One turn of the loop: identifiers used so far, links seen, the result. \<open>new n\<close> is the n-th
  new identifier.\<close>

definition link_step ::
  "(string \<Rightarrow> url option) \<Rightarrow> (nat \<Rightarrow> string) \<Rightarrow> (string \<Rightarrow> service option) \<Rightarrow> host \<Rightarrow> tunnel \<Rightarrow>
   nat \<times> string list \<times> service list \<Rightarrow> service \<Rightarrow> (nat \<times> string list \<times> service list) res" where
  "link_step up new existing h t acc l =
     (let (n, seen, out) = acc in
      rbind (if sID l \<noteq> [] then
               (case existing (sID l) of
                  None \<Rightarrow> Inl (WebErr BadLinkID)
                | Some old \<Rightarrow>
                    if sID l \<in> set seen then Inl (WebErr BadLinkID)
                    else Inr (n, l\<lparr>sEnvironment := sEnvironment old, sDescription := sDescription old\<rparr>))
             else Inr (Suc n, l\<lparr>sID := new n, sEnvironment := hEnvironment h\<rparr>))
      (\<lambda>(n', l1). let l2 = l1\<lparr>sTunnelID := tID t\<rparr> in
        rbind (ValidateService up l2 t) (\<lambda>_. Inr (n', sID l2 # seen, out @ [l2]))))"

definition replaceTunnelLinks ::
  "(string \<Rightarrow> url option) \<Rightarrow> (nat \<Rightarrow> string) \<Rightarrow> nat \<Rightarrow> state \<Rightarrow> tunnel \<Rightarrow> service list \<Rightarrow> state res" where
  "replaceTunnelLinks up new n s t links =
     (let existing = record_map sID (filter (\<lambda>l. sTunnelID l = tID t) (Services s));
          others = filter (\<lambda>l. sTunnelID l \<noteq> tID t) (Services s)
      in rbind (State_Host s (tHostID t))
         (\<lambda>h. rbind (rfold (link_step up new existing h t) (n, [], others) links)
         (\<lambda>(_, _, out). Inr (s\<lparr>Services := out\<rparr>))))"

section \<open>Saving\<close>

text \<open>A record without an identifier is new and gets the n-th new one.\<close>

definition save_host :: "(nat \<Rightarrow> string) \<Rightarrow> host res \<Rightarrow> state \<Rightarrow> state res" where
  "save_host new b s =
     rbind b
     (\<lambda>v. let v' = (if hID v = [] then v\<lparr>hID := new 0\<rparr> else v) in
       rbind (Replace (Hosts s) (hID v) v' hID) (\<lambda>hs. Inr (s\<lparr>Hosts := hs\<rparr>)))"

definition save_key ::
  "os \<Rightarrow> fs \<Rightarrow> (string \<Rightarrow> 's key_parse) \<Rightarrow> (nat \<Rightarrow> string) \<Rightarrow> key res \<Rightarrow> state \<Rightarrow> state res" where
  "save_key os fs pk new b s =
     rbind b
     (\<lambda>v. rbind (Path os (kPath v))
     (\<lambda>p. rbind (key_Validate os fs pk p)
     (\<lambda>_. let v1 = v\<lparr>kPath := p\<rparr>; v' = (if kID v = [] then v1\<lparr>kID := new 0\<rparr> else v1) in
       rbind (Replace (Keys s) (kID v) v' kID) (\<lambda>ks. Inr (s\<lparr>Keys := ks\<rparr>)))))"

definition save_tunnel ::
  "(string \<Rightarrow> url option) \<Rightarrow> (string \<Rightarrow> bool) \<Rightarrow> (nat \<Rightarrow> string) \<Rightarrow> (tunnel \<times> service list option) res \<Rightarrow>
   state \<Rightarrow> state res" where
  "save_tunnel up active new b s =
     rbind b
     (\<lambda>(v, links). rbind (check (\<not> active (tID v)) (WebErr StopBeforeEdit))
     (\<lambda>_. let (n, v') = (if tID v = [] then (1, v\<lparr>tID := new 0\<rparr>) else (0, v)) in
       rbind (Replace (Tunnels s) (tID v) v' tID)
       (\<lambda>ts. let s1 = s\<lparr>Tunnels := ts\<rparr> in
         case links of None \<Rightarrow> Inr s1 | Some ls \<Rightarrow> replaceTunnelLinks up new n s1 v' ls)))"

definition save_service ::
  "(nat \<Rightarrow> string) \<Rightarrow> (service \<times> tunnel option) res \<Rightarrow> state \<Rightarrow> state res" where
  "save_service new b s =
     rbind b
     (\<lambda>(v, nt).
       rbind (case nt of
            None \<Rightarrow> Inr (0, v, s)
          | Some t0 \<Rightarrow>
              rbind (check (sTunnelID v = []) (WebErr TunnelChoice))
              (\<lambda>_. let t = t0\<lparr>tID := new 0, tName := sName v @ '' tunnel'', tLocalHost := ''127.0.0.1''\<rparr> in
                Inr (1, v\<lparr>sTunnelID := tID t\<rparr>, s\<lparr>Tunnels := Tunnels s @ [t]\<rparr>)))
       (\<lambda>(n, v1, s1). let v' = (if sID v1 = [] then v1\<lparr>sID := new n\<rparr> else v1) in
         rbind (Replace (Services s1) (sID v1) v' sID) (\<lambda>vs. Inr (s1\<lparr>Services := vs\<rparr>))))"

definition save_settings :: "os \<Rightarrow> settings res \<Rightarrow> state \<Rightarrow> state res" where
  "save_settings os b s =
     rbind b
     (\<lambda>v. rbind (Path os (KnownHosts v))
     (\<lambda>k. rbind (Path os (SSHConfig v))
     (\<lambda>c. Inr (s\<lparr>Settings := \<lparr>KnownHosts = k, SSHConfig = c\<rparr>\<rparr>))))"

definition save_update ::
  "(string \<Rightarrow> url option) \<Rightarrow> os \<Rightarrow> fs \<Rightarrow> (string \<Rightarrow> 's key_parse) \<Rightarrow> (string \<Rightarrow> bool) \<Rightarrow> (nat \<Rightarrow> string) \<Rightarrow>
   string \<Rightarrow> body \<Rightarrow> state \<Rightarrow> state res" where
  "save_update up os fs pk active new kind b s =
     (if kind = ''hosts'' then save_host new (asHost b) s
      else if kind = ''keys'' then save_key os fs pk new (asKey b) s
      else if kind = ''tunnels'' then save_tunnel up active new (asTunnel b) s
      else if kind = ''services'' then save_service new (asService b) s
      else if kind = ''settings'' then save_settings os (asSettings b) s
      else Inl (WebErr UnknownCollection))"

definition web_save ::
  "(string \<Rightarrow> url option) \<Rightarrow> (stmt \<Rightarrow> bool) \<Rightarrow> os \<Rightarrow> fs \<Rightarrow> (string \<Rightarrow> 's key_parse) \<Rightarrow> (string \<Rightarrow> bool) \<Rightarrow>
   (nat \<Rightarrow> string) \<Rightarrow> string \<Rightarrow> body \<Rightarrow> db \<Rightarrow> unit res \<times> db" where
  "web_save up q os fs pk active new kind b d = Update up q (save_update up os fs pk active new kind b) d"

section \<open>Deleting\<close>

definition delete_update :: "(string \<Rightarrow> bool) \<Rightarrow> string \<Rightarrow> string \<Rightarrow> state \<Rightarrow> state res" where
  "delete_update active kind i s =
     (if kind = ''hosts'' then rbind (Delete (Hosts s) i hID) (\<lambda>xs. Inr (s\<lparr>Hosts := xs\<rparr>))
      else if kind = ''keys'' then rbind (Delete (Keys s) i kID) (\<lambda>xs. Inr (s\<lparr>Keys := xs\<rparr>))
      else if kind = ''tunnels'' then
        rbind (check (\<not> active i) (WebErr StopBeforeDelete))
        (\<lambda>_. rbind (Delete (Tunnels s) i tID)
        (\<lambda>xs. Inr (s\<lparr>Tunnels := xs, Services := filter (\<lambda>l. sTunnelID l \<noteq> i) (Services s)\<rparr>)))
      else if kind = ''services'' then rbind (Delete (Services s) i sID) (\<lambda>xs. Inr (s\<lparr>Services := xs\<rparr>))
      else Inl (WebErr UnknownCollection))"

definition web_delete ::
  "(string \<Rightarrow> url option) \<Rightarrow> (stmt \<Rightarrow> bool) \<Rightarrow> (string \<Rightarrow> bool) \<Rightarrow> string \<Rightarrow> string \<Rightarrow> db \<Rightarrow> unit res \<times> db" where
  "web_delete up q active kind i d = Update up q (delete_update active kind i) d"

section \<open>Backups\<close>

record backup =
  bkFormat :: string
  bkVersion :: int
  bkExportedAt :: string
  bkHosts :: "host list"
  bkKeys :: "key list"
  bkTunnels :: "tunnel list"
  bkServices :: "service list"
  bkSettings :: settings

definition export_backup :: "string \<Rightarrow> state \<Rightarrow> backup" where
  "export_backup now s = \<lparr>bkFormat = ''sshdesk'', bkVersion = 1, bkExportedAt = now, bkHosts = Hosts s,
     bkKeys = Keys s, bkTunnels = Tunnels s, bkServices = Services s, bkSettings = Settings s\<rparr>"

text \<open>One turn of \<open>mergeRecords\<close>; \<open>byID\<close> is built from the existing records only.\<close>

definition backup_step ::
  "('a \<Rightarrow> string) \<Rightarrow> (string \<Rightarrow> 'a option) \<Rightarrow> string list \<times> 'a list \<times> nat \<Rightarrow> 'a \<Rightarrow>
   (string list \<times> 'a list \<times> nat) res" where
  "backup_step f byID acc v =
     (let (seen, out, added) = acc; k = f v in
      rbind (check (\<not> (bad_id k \<or> k \<in> set seen)) (WebErr BackupBadID))
      (\<lambda>_. case byID k of
         Some old \<Rightarrow> rbind (check (old = v) (WebErr (BackupConflict k))) (\<lambda>_. Inr (k # seen, out, added))
       | None \<Rightarrow> Inr (k # seen, out @ [v], Suc added)))"

definition mergeRecords :: "'a list \<Rightarrow> 'a list \<Rightarrow> ('a \<Rightarrow> string) \<Rightarrow> ('a list \<times> nat) res" where
  "mergeRecords existing incoming f =
     rbind (rfold (backup_step f (record_map f existing)) ([], existing, 0) incoming) (\<lambda>acc. Inr (snd acc))"

record backup_counts =
  nKeys :: nat
  nHosts :: nat
  nTunnels :: nat
  nServices :: nat

definition check_key_path :: "os \<Rightarrow> key \<Rightarrow> unit res" where
  "check_key_path os k = (case Path os (kPath k) of Inl e \<Rightarrow> Inl (Named (kName k) e) | Inr _ \<Rightarrow> Inr ())"

definition import_settings :: "os \<Rightarrow> backup \<Rightarrow> state \<Rightarrow> state res" where
  "import_settings os b s =
     rbind (Path os (KnownHosts (bkSettings b)))
     (\<lambda>_. rbind (Path os (SSHConfig (bkSettings b)))
     (\<lambda>_. Inr (s\<lparr>Settings := bkSettings b\<rparr>)))"

definition mergeBackup ::
  "(string \<Rightarrow> url option) \<Rightarrow> os \<Rightarrow> backup \<Rightarrow> bool \<Rightarrow> state \<Rightarrow> (backup_counts \<times> state) res" where
  "mergeBackup up os b with_settings s =
     rbind (check (bkFormat b = ''sshdesk'' \<and> bkVersion b = 1) (WebErr BackupFormat))
     (\<lambda>_. rbind (mergeRecords (Keys s) (bkKeys b) kID)
     (\<lambda>(ks, nk). rbind (mergeRecords (Hosts s) (bkHosts b) hID)
     (\<lambda>(hs, nh). rbind (mergeRecords (Tunnels s) (bkTunnels b) tID)
     (\<lambda>(ts, nt). rbind (mergeRecords (Services s) (bkServices b) sID)
     (\<lambda>(vs, nv). rbind (rall (check_key_path os) (bkKeys b))
     (\<lambda>_. let s1 = s\<lparr>Keys := ks, Hosts := hs, Tunnels := ts, Services := vs\<rparr> in
       rbind (if with_settings then import_settings os b s1 else Inr s1)
     (\<lambda>s2. rbind (Validate up s2)
     (\<lambda>_. Inr (\<lparr>nKeys = nk, nHosts = nh, nTunnels = nt, nServices = nv\<rparr>, s2)))))))))"

text \<open>\<open>importBackup\<close>: a preview merges into a snapshot, which it drops; applying merges in a transaction.\<close>

definition importBackup ::
  "(string \<Rightarrow> url option) \<Rightarrow> (stmt \<Rightarrow> bool) \<Rightarrow> os \<Rightarrow> string \<Rightarrow> (backup \<times> bool) res \<Rightarrow> db \<Rightarrow> backup_counts res \<times> db" where
  "importBackup up q os action req d =
     (case req of
        Inl e \<Rightarrow> (Inl e, d)
      | Inr (b, with_settings) \<Rightarrow>
          if action = ''preview''
          then (rbind (Snapshot q d) (\<lambda>s. rbind (mergeBackup up os b with_settings s) (\<lambda>r. Inr (fst r))), d)
          else if action = ''apply'' then
            (case Update up q (\<lambda>s. rbind (mergeBackup up os b with_settings s) (\<lambda>r. Inr (snd r))) d of
               (Inl e, d') \<Rightarrow> (Inl e, d')
             | (Inr _, d') \<Rightarrow>
                 (rbind (mergeBackup up os b with_settings (load d)) (\<lambda>r. Inr (fst r)), d'))
          else (Inl (WebErr UnknownBackupAction), d))"


section \<open>Facts about links\<close>

text \<open>How a saved link comes from a submitted one.\<close>

definition link_of ::
  "(string \<Rightarrow> url option) \<Rightarrow> (nat \<Rightarrow> string) \<Rightarrow> service list \<Rightarrow> host \<Rightarrow> tunnel \<Rightarrow> service \<Rightarrow> service \<Rightarrow> bool" where
  "link_of up new olds h t l m \<longleftrightarrow> sTunnelID m = tID t \<and> sName m = sName l \<and> sURL m = sURL l \<and> ok (ValidateService up m t)
     \<and> (if sID l \<noteq> [] then \<exists>old \<in> set olds. sTunnelID old = tID t \<and> sID old = sID l \<and> sID m = sID l
            \<and> sEnvironment m = sEnvironment old \<and> sDescription m = sDescription old
        else (\<exists>k. sID m = new k) \<and> sEnvironment m = hEnvironment h \<and> sDescription m = sDescription l)"

definition kept_ids :: "service list \<Rightarrow> string list" where
  "kept_ids ls = filter (\<lambda>i. i \<noteq> []) (map sID ls)"

lemma link_step_Inr:
  assumes "link_step up new (record_map sID (filter (\<lambda>l. sTunnelID l = tID t) olds)) h t acc l = Inr acc'"
  obtains m where "snd (snd acc') = snd (snd acc) @ [m]" "link_of up new olds h t l m"
    "fst (snd acc') = sID m # fst (snd acc)" "sID l \<noteq> [] \<Longrightarrow> sID l \<notin> set (fst (snd acc)) \<and> sID m = sID l"
proof -
  let ?ex = "record_map sID (filter (\<lambda>l. sTunnelID l = tID t) olds)"
  obtain n seen out where acc: "acc = (n, seen, out)" by (cases acc)
  show ?thesis
  proof (cases "sID l = []")
    case True
    let ?m = "l\<lparr>sID := new n, sEnvironment := hEnvironment h, sTunnelID := tID t\<rparr>"
    from assms True have "acc' = (Suc n, sID ?m # seen, out @ [?m])" "ok (ValidateService up ?m t)"
      by (auto simp: link_step_def acc res_simps ok_unit Let_def)
    with True that [of ?m] show ?thesis by (auto simp: acc link_of_def)
  next
    case False
    with assms obtain old where old: "?ex (sID l) = Some old" "sID l \<notin> set seen"
      by (cases "?ex (sID l)") (auto simp: link_step_def acc split: if_splits)
    let ?m = "l\<lparr>sEnvironment := sEnvironment old, sDescription := sDescription old, sTunnelID := tID t\<rparr>"
    from assms False old have "acc' = (n, sID ?m # seen, out @ [?m])" "ok (ValidateService up ?m t)"
      by (auto simp: link_step_def acc res_simps ok_unit Let_def)
    with False old record_map_mem [OF old(1)] that [of ?m] show ?thesis by (auto simp: acc link_of_def)
  qed
qed

lemma link_fold_Inr:
  assumes "rfold (link_step up new (record_map sID (filter (\<lambda>l. sTunnelID l = tID t) olds)) h t) acc ls = Inr acc'"
  shows "\<exists>mine. snd (snd acc') = snd (snd acc) @ mine \<and> list_all2 (link_of up new olds h t) ls mine
    \<and> distinct (kept_ids ls) \<and> set (kept_ids ls) \<inter> set (fst (snd acc)) = {}"
  using assms
proof (induction ls arbitrary: acc)
  case Nil
  then show ?case by (simp add: kept_ids_def)
next
  case (Cons l ls)
  let ?step = "link_step up new (record_map sID (filter (\<lambda>l. sTunnelID l = tID t) olds)) h t"
  obtain a where a: "?step acc l = Inr a" "rfold ?step a ls = Inr acc'"
    using Cons.prems by (auto simp: res_simps)
  obtain m where m: "snd (snd a) = snd (snd acc) @ [m]" "link_of up new olds h t l m" "fst (snd a) = sID m # fst (snd acc)"
    "sID l \<noteq> [] \<Longrightarrow> sID l \<notin> set (fst (snd acc)) \<and> sID m = sID l"
    by (rule link_step_Inr [OF a(1)]) (rule that)
  obtain mine where "snd (snd acc') = snd (snd a) @ mine" "list_all2 (link_of up new olds h t) ls mine"
    "distinct (kept_ids ls)" "set (kept_ids ls) \<inter> set (fst (snd a)) = {}"
    using Cons.IH [OF a(2)] by blast
  with m show ?case by (intro exI [of _ "m # mine"]) (auto simp: kept_ids_def)
qed

lemma replaceTunnelLinks_Inr:
  assumes "replaceTunnelLinks up new n s t links = Inr s'"
  obtains h mine where "State_Host s (tHostID t) = Inr h" "list_all2 (link_of up new (Services s) h t) links mine"
    "s' = s\<lparr>Services := filter (\<lambda>l. sTunnelID l \<noteq> tID t) (Services s) @ mine\<rparr>" "distinct (kept_ids links)"
proof -
  obtain h a where "State_Host s (tHostID t) = Inr h"
    "rfold (link_step up new (record_map sID (filter (\<lambda>l. sTunnelID l = tID t) (Services s))) h t)
       (n, [], filter (\<lambda>l. sTunnelID l \<noteq> tID t) (Services s)) links = Inr a" "s' = s\<lparr>Services := snd (snd a)\<rparr>"
    using assms by (auto simp: replaceTunnelLinks_def res_simps)
  with link_fold_Inr [OF this(2)] that show ?thesis by auto
qed

section \<open>Facts about transactions\<close>

lemma Update_commits:
  assumes "\<And>st. q st" "fn (load d) = Inr s" "well_formed up s"
  shows "\<exists>d'. Update up q fn d = (Inr (), d') \<and> load d' = (json_state s)\<lparr>History := History (load d)\<rparr>"
proof -
  obtain d' where d': "Update up q fn d = (Inr (), d')"
    using Update_ok [of q fn d s up, OF assms] by (metis prod.collapse)
  from Update_Inr [OF d'] assms(2) have "write_state q s d = Inr d'" by auto
  with write_state_Inr(1) d' show ?thesis by blast
qed

lemma Update_Snapshot: "Update up q fn d = (Inr u, d') \<Longrightarrow> Snapshot q d = Inr (load d)"
  by (cases "Snapshot q d") (auto simp: Update_def Snapshot_def rbind_eq_Inr)

lemma Update_refused:
  assumes "\<And>s. fn (load d) = Inr s \<Longrightarrow> \<not> well_formed up s"
  shows "\<exists>e. Update up q fn d = (Inl e, d)"
proof (cases "Update up q fn d")
  case (Pair r d')
  with Update_Inl [of up q fn d] Update_Inr [of up q fn d] assms show ?thesis by (cases r) auto
qed

section \<open>Facts about saving\<close>

text \<open>A record stays where it is when another one, or a new one, is saved.\<close>

lemma Replace_other:
  assumes "Replace xs i v f = Inr ys" "i = [] \<or> f v = i" "j \<noteq> i \<or> i = []" "find_id f j xs = Some x"
  shows "find_id f j ys = Some x"
proof (cases "i = []")
  case True
  with assms show ?thesis by (auto simp: Replace_def find_id_append)
next
  case False
  with assms find_id_Replace [OF assms(1)] show ?thesis by auto
qed

lemma save_tunnel_tunnels:
  assumes "save_tunnel up active new b s = Inr s'"
  obtains v ls where "b = Inr (v, ls)" "\<not> active (tID v)"
    "Replace (Tunnels s) (tID v) (if tID v = [] then v\<lparr>tID := new 0\<rparr> else v) tID = Inr (Tunnels s')"
proof -
  obtain v links where b: "b = Inr (v, links)" "\<not> active (tID v)"
    using assms by (auto simp: save_tunnel_def res_simps)
  obtain ts where "Replace (Tunnels s) (tID v) (if tID v = [] then v\<lparr>tID := new 0\<rparr> else v) tID = Inr ts" "Tunnels s' = ts"
    using assms b by (auto simp: save_tunnel_def Let_def res_simps split: if_splits option.splits elim!: replaceTunnelLinks_Inr)
  with b that show ?thesis by blast
qed

lemma save_service_tunnels:
  assumes "save_service new b s = Inr s'"
  obtains "Tunnels s' = Tunnels s"
  | v t where "b = Inr (v, Some t)"
      "Tunnels s' = Tunnels s @ [t\<lparr>tID := new 0, tName := sName v @ '' tunnel'', tLocalHost := ''127.0.0.1''\<rparr>]"
  using assms by (auto simp: save_service_def res_simps Let_def split: option.splits)

lemma save_update_running:
  assumes "save_update up os fs pk active new kind b s = Inr s'" "active j" "find_id tID j (Tunnels s) = Some t"
  shows "find_id tID j (Tunnels s') = Some t"
proof -
  have tunnel: "find_id tID j (Tunnels s') = Some t" if st: "save_tunnel up active new (asTunnel b) s = Inr s'"
    using st
  proof (rule save_tunnel_tunnels)
    fix v ls
    assume v: "\<not> active (tID v)"
      "Replace (Tunnels s) (tID v) (if tID v = [] then v\<lparr>tID := new 0\<rparr> else v) tID = Inr (Tunnels s')"
    from v(1) assms(2) have "j \<noteq> tID v" by auto
    with Replace_other [OF v(2) _ _ assms(3)] show ?thesis by auto
  qed
  have service: "find_id tID j (Tunnels s') = Some t" if "save_service new (asService b) s = Inr s'"
    using that assms(3) by (cases rule: save_service_tunnels) (simp_all add: find_id_append)
  show ?thesis
    using assms(1,3) tunnel service
    by (auto simp: save_update_def save_host_def save_key_def save_settings_def res_simps Let_def split: if_splits)
qed

lemma find_id_Delete:
  assumes "Delete xs i f = Inr ys" "j \<noteq> i"
  shows "find_id f j ys = find_id f j xs"
proof -
  obtain a x b where "xs = a @ x # b" "f x = i" "ys = a @ b" using assms(1) by (auto simp: Delete_Inr)
  with assms(2) have "f x \<noteq> j" by simp
  with \<open>xs = _\<close> \<open>ys = _\<close> show ?thesis by (cases "find_id f j a") (simp_all add: find_id_append)
qed

lemma delete_update_running:
  assumes "delete_update active kind i s = Inr s'" "active j" "find_id tID j (Tunnels s) = Some t"
  shows "find_id tID j (Tunnels s') = Some t"
proof (cases "kind = ''tunnels''")
  case True
  with assms(1) obtain xs where xs: "\<not> active i" "Delete (Tunnels s) i tID = Inr xs" "Tunnels s' = xs"
    by (auto simp: delete_update_def res_simps)
  from xs(1) assms(2) have "j \<noteq> i" by auto
  with find_id_Delete [OF xs(2)] xs(3) assms(3) show ?thesis by simp
next
  case False
  with assms(1,3) show ?thesis by (auto simp: delete_update_def res_simps split: if_splits)
qed

lemma Delete_ids:
  assumes "Delete xs i f = Inr ys" "distinct (map f xs)"
  shows "i \<notin> f ` set ys" "set ys \<subseteq> set xs"
proof -
  obtain a x b where "xs = a @ x # b" "f x = i" "ys = a @ b" using assms(1) by (auto simp: Delete_Inr)
  with assms(2) show "i \<notin> f ` set ys" "set ys \<subseteq> set xs" by auto
qed

text \<open>A tunnel and its links can always be deleted: what is left is valid again.\<close>

lemma delete_tunnel_valid:
  assumes "delete_update active ''tunnels'' i s = Inr s'" "well_formed up s" "distinct (map tID (Tunnels s))"
  shows "well_formed up s' \<and> i \<notin> tID ` set (Tunnels s') \<and> (\<forall>v \<in> set (Services s'). sTunnelID v \<noteq> i)"
proof -
  obtain ts where ts: "Delete (Tunnels s) i tID = Inr ts"
    and s': "s' = s\<lparr>Tunnels := ts, Services := filter (\<lambda>l. sTunnelID l \<noteq> i) (Services s)\<rparr>"
    using assms(1) by (auto simp: delete_update_def res_simps)
  have look: "State_Tunnel s' j = State_Tunnel s j" if "j \<noteq> i" for j
    using find_id_Delete [OF ts that] by (simp add: State_Tunnel_def s')
  have "route s' k hs \<longleftrightarrow> route s k hs" for k hs by (rule route_cong) (simp add: s')
  then have "well_formed up s'"
    using assms(2) Delete_ids(2) [OF ts assms(3)] look by (auto simp: well_formed_checks s')
  with Delete_ids(1) [OF ts assms(3)] show ?thesis by (simp add: s')
qed

text \<open>A record that others need cannot be deleted.\<close>

definition in_use :: "state \<Rightarrow> string \<Rightarrow> string \<Rightarrow> bool" where
  "in_use s kind i \<longleftrightarrow>
     kind = ''keys'' \<and> i \<in> hKeyID ` set (Hosts s) \<or>
     kind = ''hosts'' \<and> (i \<in> tHostID ` set (Tunnels s)
       \<or> i \<noteq> [] \<and> (\<exists>h \<in> set (Hosts s). hID h \<noteq> i \<and> hJumpID h = i))"

lemma route_jump:
  assumes "route s (hID h) hs" "State_Host s (hID h) = Inr h" "hID h \<noteq> []" "hJumpID h \<noteq> []"
  shows "hJumpID h \<in> hID ` set (Hosts s)"
  using assms(1)
proof (cases rule: route.cases)
  case route_end
  with assms(3) show ?thesis by simp
next
  case (route_hop g hs')
  with assms(2) have "route s (hJumpID h) hs'" by simp
  then show ?thesis using assms(4) by (cases rule: route.cases) (auto dest!: State_HostD intro: rev_image_eqI)
qed

lemma in_use_needed:
  assumes "delete_update active kind i s = Inr s'" "in_use s kind i" "unique_ids s" "[] \<notin> hID ` set (Hosts s)"
  shows "\<not> well_formed up s'"
proof
  assume wf: "well_formed up s'"
  have u: "distinct (map kID (Keys s))" "distinct (map hID (Hosts s))" using assms(3) by (simp_all add: unique_ids_def)
  consider (key) xs where "kind = ''keys''" "Delete (Keys s) i kID = Inr xs" "s' = s\<lparr>Keys := xs\<rparr>" "i \<in> hKeyID ` set (Hosts s)"
    | (host) xs where "kind = ''hosts''" "Delete (Hosts s) i hID = Inr xs" "s' = s\<lparr>Hosts := xs\<rparr>"
    using assms(1,2) by (auto simp: delete_update_def in_use_def res_simps)
  then show False
  proof cases
    case key
    with wf Delete_ids(1) [OF key(2) u(1)] show False by (auto simp: well_formed_checks)
  next
    case host
    note gone = Delete_ids [OF host(2) u(2)]
    consider (tunnel) "i \<in> tHostID ` set (Tunnels s)"
      | (jump) h where "i \<noteq> []" "h \<in> set (Hosts s)" "hID h \<noteq> i" "hJumpID h = i"
      using assms(2) host(1) by (auto simp: in_use_def)
    then show False
    proof cases
      case tunnel
      with wf gone(1) host(3) show False by (auto simp: well_formed_checks)
    next
      case jump
      have "find_id hID (hID h) (Hosts s) = Some h" by (rule find_id_distinct [OF u(2) jump(2)])
      then have h: "State_Host s' (hID h) = Inr h" using find_id_Delete [OF host(2) jump(3)] host(3) by (simp add: State_Host_Inr)
      then obtain hs where "route s' (hID h) hs" using wf by (auto simp: well_formed_checks dest!: State_HostD)
      moreover have "hID h \<noteq> []" using jump(2) assms(4) by (metis image_eqI)
      ultimately show False using route_jump [OF _ h] jump gone(1) host(3) by auto
    qed
  qed
qed

text \<open>The requests that edit records: a save with its new identifiers, or a deletion.\<close>

datatype edit = Save "nat \<Rightarrow> string" string body | Remove string string

fun edit_update ::
  "(string \<Rightarrow> url option) \<Rightarrow> os \<Rightarrow> fs \<Rightarrow> (string \<Rightarrow> 's key_parse) \<Rightarrow> (string \<Rightarrow> bool) \<Rightarrow> edit \<Rightarrow> state \<Rightarrow> state res" where
  "edit_update up os fs pk active (Save new kind b) = save_update up os fs pk active new kind b"
| "edit_update up os fs pk active (Remove kind i) = delete_update active kind i"

lemma edit_running:
  assumes "edit_update up os fs pk active e s = Inr s'" "active j" "find_id tID j (Tunnels s) = Some t"
  shows "find_id tID j (Tunnels s') = Some t"
  using assms save_update_running delete_update_running by (cases e) auto

text \<open>JSON strings and new identifiers are valid UTF-8; what is stored then reads back unchanged.\<close>

definition clean_tunnels :: "state \<Rightarrow> bool" where
  "clean_tunnels s \<longleftrightarrow> (\<forall>t \<in> set (Tunnels s). json_tunnel t = t)"

fun clean_edit :: "edit \<Rightarrow> bool" where
  "clean_edit (Save new kind b) \<longleftrightarrow> utf8_valid (new 0)
     \<and> (case asTunnel b of Inl _ \<Rightarrow> True | Inr (t, _) \<Rightarrow> json_tunnel t = t)
     \<and> (case asService b of Inr (v, Some t) \<Rightarrow> utf8_valid (sName v) \<and> json_tunnel t = t | _ \<Rightarrow> True)"
| "clean_edit (Remove kind i) \<longleftrightarrow> True"

lemma json_tunnel_id:
  "json_tunnel t = t \<longleftrightarrow> utf8_valid (tID t) \<and> utf8_valid (tName t) \<and> utf8_valid (tLocalHost t)
     \<and> utf8_valid (tRemoteHost t) \<and> utf8_valid (tHostID t) \<and> utf8_valid (tDescription t)"
  by (cases t) (simp add: json_tunnel_def to_valid_fixpoint)

lemma Replace_set: "Replace xs i v f = Inr ys \<Longrightarrow> set ys \<subseteq> insert v (set xs)"
  by (auto simp: Replace_Inr split: if_splits)

lemma edit_clean:
  assumes "edit_update up os fs pk active e s = Inr s'" "clean_edit e" "clean_tunnels s"
  shows "clean_tunnels s'"
proof (cases e)
  case (Remove kind i)
  with assms(1) have "set (Tunnels s') \<subseteq> set (Tunnels s)"
    by (auto simp: delete_update_def res_simps Delete_Inr split: if_splits)
  with assms(3) show ?thesis by (auto simp: clean_tunnels_def)
next
  case (Save new kind b)
  have lit: "utf8_valid '' tunnel''" "utf8_valid ''127.0.0.1''" by (simp_all add: utf8_valid_ascii)
  consider (tunnel) "save_tunnel up active new (asTunnel b) s = Inr s'"
    | (service) "save_service new (asService b) s = Inr s'"
    | (other) "Tunnels s' = Tunnels s"
    using assms(1) Save
    by (auto simp: save_update_def save_host_def save_key_def save_settings_def res_simps Let_def split: if_splits)
  then show ?thesis
  proof cases
    case tunnel
    then obtain v ls where v: "asTunnel b = Inr (v, ls)"
      "Replace (Tunnels s) (tID v) (if tID v = [] then v\<lparr>tID := new 0\<rparr> else v) tID = Inr (Tunnels s')"
      by (rule save_tunnel_tunnels) (rule that)
    with Save assms(2) have "json_tunnel (if tID v = [] then v\<lparr>tID := new 0\<rparr> else v) = (if tID v = [] then v\<lparr>tID := new 0\<rparr> else v)"
      by (simp add: json_tunnel_id)
    with Replace_set [OF v(2)] assms(3) show ?thesis by (auto simp: clean_tunnels_def)
  next
    case service
    then show ?thesis
    proof (cases rule: save_service_tunnels)
      case 1
      with assms(3) show ?thesis by (simp add: clean_tunnels_def)
    next
      case (2 v t)
      with Save assms(2,3) lit show ?thesis by (auto simp: clean_tunnels_def json_tunnel_id utf8_valid_append)
    qed
  next
    case other
    with assms(3) show ?thesis by (simp add: clean_tunnels_def)
  qed
qed

section \<open>Facts about backups\<close>

lemma backup_fold_Inr:
  "rfold (backup_step f byID) (seen, out, n) inc = Inr acc \<longleftrightarrow>
     distinct (map f inc) \<and> set (map f inc) \<inter> set seen = {}
     \<and> (\<forall>v \<in> set inc. \<not> bad_id (f v) \<and> (byID (f v) = None \<or> byID (f v) = Some v))
     \<and> acc = (rev (map f inc) @ seen, out @ filter (\<lambda>v. byID (f v) = None) inc, n + length (filter (\<lambda>v. byID (f v) = None) inc))"
proof (induction inc arbitrary: seen out n)
  case Nil
  show ?case by auto
next
  case (Cons v inc)
  show ?case
  proof (cases "bad_id (f v) \<or> f v \<in> set seen")
    case True
    then show ?thesis by (auto simp: backup_step_def)
  next
    case ok: False
    show ?thesis
    proof (cases "byID (f v)")
      case None
      with ok Cons.IH [of "f v # seen" "out @ [v]" "Suc n"] show ?thesis by (auto simp: backup_step_def)
    next
      case (Some x)
      show ?thesis
      proof (cases "x = v")
        case True
        with Some ok Cons.IH [of "f v # seen" out n] show ?thesis by (auto simp: backup_step_def)
      next
        case False
        with Some ok show ?thesis by (auto simp: backup_step_def)
      qed
    qed
  qed
qed

lemma mergeRecords_Inr:
  "mergeRecords old inc f = Inr (r, n) \<longleftrightarrow>
     distinct (map f inc)
     \<and> (\<forall>v \<in> set inc. \<not> bad_id (f v) \<and> (record_map f old (f v) = None \<or> record_map f old (f v) = Some v))
     \<and> r = old @ filter (\<lambda>v. f v \<notin> f ` set old) inc \<and> n = length (filter (\<lambda>v. f v \<notin> f ` set old) inc)"
  by (auto simp: mergeRecords_def rbind_eq_Inr backup_fold_Inr record_map_None)

lemma record_map_self:
  assumes "distinct (map f xs)" "v \<in> set xs"
  shows "record_map f xs (f v) = Some v"
proof -
  from assms(2) have "record_map f xs (f v) \<noteq> None" by (simp add: record_map_None)
  then obtain w where w: "record_map f xs (f v) = Some w" by blast
  from record_map_mem [OF w] assms have "w = v" by (auto simp: distinct_map dest: inj_onD)
  with w show ?thesis by simp
qed

lemma mergeRecords_fresh:
  "distinct (map f xs) \<Longrightarrow> \<forall>v \<in> set xs. \<not> bad_id (f v) \<Longrightarrow> mergeRecords [] xs f = Inr (xs, length xs)"
  by (simp add: mergeRecords_Inr record_map_None)

lemma mergeRecords_same:
  "distinct (map f xs) \<Longrightarrow> \<forall>v \<in> set xs. \<not> bad_id (f v) \<Longrightarrow> mergeRecords xs xs f = Inr (xs, 0)"
  by (auto simp: mergeRecords_Inr record_map_self)

interpretation backup_merge: record_merge "\<lambda>old inc f. rbind (mergeRecords old inc f) (\<lambda>r. Inr (fst r))"
proof
  fix old inc :: "'a list" and f r
  assume "rbind (mergeRecords old inc f) (\<lambda>r. Inr (fst r)) = Inr r"
  then obtain n where m: "mergeRecords old inc f = Inr (r, n)" by (auto simp: rbind_eq_Inr)
  note parts = m [unfolded mergeRecords_Inr]
  have "inj_on f (set inc)" using parts by (simp add: distinct_map)
  then have "distinct (map f (filter (\<lambda>v. f v \<notin> f ` set old) inc))"
    using parts by (auto simp: distinct_map intro: inj_on_subset)
  with parts show "\<exists>new. r = old @ new \<and> set new \<subseteq> set inc \<and> distinct (map f new) \<and> f ` set new \<inter> f ` set old = {}"
    by (intro exI [of _ "filter (\<lambda>v. f v \<notin> f ` set old) inc"]) auto
  show "set inc \<subseteq> set r"
  proof
    fix v
    assume v: "v \<in> set inc"
    show "v \<in> set r"
    proof (cases "f v \<in> f ` set old")
      case True
      with parts v record_map_None [of f old "f v"] have "record_map f old (f v) = Some v" by auto
      with record_map_mem parts show ?thesis by fastforce
    qed (use parts v in auto)
  qed
qed

text \<open>What a merge adds: new identifiers at the end, everything of the backup included, as counted.\<close>

definition adds :: "('a \<Rightarrow> string) \<Rightarrow> 'a list \<Rightarrow> 'a list \<Rightarrow> 'a list \<Rightarrow> nat \<Rightarrow> bool" where
  "adds f old inc r n \<longleftrightarrow> (\<exists>new. r = old @ new \<and> length new = n \<and> f ` set new \<inter> f ` set old = {}) \<and> set inc \<subseteq> set r"

lemma mergeRecords_adds:
  assumes "mergeRecords old inc f = Inr (r, n)"
  shows "adds f old inc r n"
proof -
  have m: "rbind (mergeRecords old inc f) (\<lambda>r. Inr (fst r)) = Inr r" using assms by simp
  from assms [unfolded mergeRecords_Inr] have "r = old @ filter (\<lambda>v. f v \<notin> f ` set old) inc"
    "n = length (filter (\<lambda>v. f v \<notin> f ` set old) inc)" by simp_all
  with backup_merge.covers [OF m] show ?thesis
    by (auto simp: adds_def intro!: exI [of _ "filter (\<lambda>v. f v \<notin> f ` set old) inc"])
qed

definition backup_adds :: "backup \<Rightarrow> bool \<Rightarrow> backup_counts \<Rightarrow> state \<Rightarrow> state \<Rightarrow> bool" where
  "backup_adds b ws c s s' \<longleftrightarrow> adds kID (Keys s) (bkKeys b) (Keys s') (nKeys c)
     \<and> adds hID (Hosts s) (bkHosts b) (Hosts s') (nHosts c)
     \<and> adds tID (Tunnels s) (bkTunnels b) (Tunnels s') (nTunnels c)
     \<and> adds sID (Services s) (bkServices b) (Services s') (nServices c)
     \<and> Settings s' = (if ws then bkSettings b else Settings s) \<and> Team s' = Team s"

lemma mergeBackup_adds:
  assumes "mergeBackup up os b ws s = Inr (c, s')"
  shows "backup_adds b ws c s s'"
proof -
  obtain ks nk hs nh ts nt vs nv where
      m: "mergeRecords (Keys s) (bkKeys b) kID = Inr (ks, nk)" "mergeRecords (Hosts s) (bkHosts b) hID = Inr (hs, nh)"
      "mergeRecords (Tunnels s) (bkTunnels b) tID = Inr (ts, nt)" "mergeRecords (Services s) (bkServices b) sID = Inr (vs, nv)"
    and r: "rbind (if ws then import_settings os b (s\<lparr>Keys := ks, Hosts := hs, Tunnels := ts, Services := vs\<rparr>)
        else Inr (s\<lparr>Keys := ks, Hosts := hs, Tunnels := ts, Services := vs\<rparr>))
      (\<lambda>s2. rbind (Validate up s2) (\<lambda>_. Inr (\<lparr>nKeys = nk, nHosts = nh, nTunnels = nt, nServices = nv\<rparr>, s2))) = Inr (c, s')"
    using assms by (auto simp: mergeBackup_def rbind_eq_Inr Let_def)
  from r have "c = \<lparr>nKeys = nk, nHosts = nh, nTunnels = nt, nServices = nv\<rparr>"
    "s' = s\<lparr>Keys := ks, Hosts := hs, Tunnels := ts, Services := vs, Settings := if ws then bkSettings b else Settings s\<rparr>"
    by (auto simp: rbind_eq_Inr import_settings_def split: if_splits)
  with m [THEN mergeRecords_adds] show ?thesis by (simp add: backup_adds_def)
qed

end
