(* ===== verification/Records_Correct.thy ===== *)
theory Records_Correct
  imports WebRecords Tunnel Store_Correct
begin

text \<open>
  What editing records through the browser promises: a running tunnel keeps its configuration,
  the web links of a tunnel follow it, records in use stay, and backups only add.
\<close>

section \<open>Editing\<close>

text \<open>C29. While a tunnel is active no request changes its configuration: after any sequence of
  save and delete requests, each of which may fail, the store still holds the tunnel as it was.
  Request bodies are decoded JSON, so their strings are valid UTF-8.\<close>

theorem running_tunnel_is_not_edited:
  assumes "Tunnel.Active sh i" "find_id tID i (Tunnels (load d)) = Some t"
    and "clean_tunnels (load d)" "list_all clean_edit es"
  shows "find_id tID i (Tunnels (load
    (fold (\<lambda>e d. snd (Update up q (edit_update up os fs pk (Tunnel.Active sh) e) d)) es d))) = Some t"
proof -
  let ?P = "\<lambda>c. find_id tID i (Tunnels c) = Some t \<and> clean_tunnels c"
  let ?fns = "map (edit_update up os fs pk (Tunnel.Active sh)) es"
  have "?P (config (load (updates up (map (Pair q) ?fns) d)))"
  proof (rule updates_invariant [where P = ?P])
    show "?P (config (load d))" using assms(2,3) by (simp add: config_def clean_tunnels_def)
    fix q' fn e s
    assume "(q', fn) \<in> set (map (Pair q) ?fns)"
    moreover assume fn: "?P (config (load e))" "fn (load e) = Inr s"
    ultimately obtain x where x: "x \<in> set es" "edit_update up os fs pk (Tunnel.Active sh) x (load e) = Inr s" by auto
    have before: "find_id tID i (Tunnels (load e)) = Some t" "clean_tunnels (load e)"
      using fn(1) by (simp_all add: config_def clean_tunnels_def)
    from x(1) assms(4) have "clean_edit x" by (simp add: list_all_iff)
    from edit_clean [OF x(2) this before(2)] edit_running [OF x(2) assms(1) before(1)]
    show "?P (config (json_state s))"
      by (auto simp: config_def clean_tunnels_def find_id_map dest: find_id_SomeD)
  qed
  then show ?thesis by (simp add: config_def updates_def fold_map comp_def)
qed

text \<open>A manager whose only entry runs the tunnel \<open>t\<close>.\<close>

definition running_shared :: shared where
  "running_shared = add_entry ''t'' (fresh_entry sample_tunnel) (init_shared False)"

definition no_body :: body where
  "no_body = \<lparr>asHost = Inl (WebErr NotOneObject), asKey = Inl (WebErr NotOneObject),
     asTunnel = Inl (WebErr NotOneObject), asService = Inl (WebErr NotOneObject), asSettings = Inl (WebErr NotOneObject)\<rparr>"

definition sample_edits :: "edit list" where
  "sample_edits = [Save (\<lambda>_. ''n'') ''tunnels'' (no_body\<lparr>asTunnel := Inr (sample_tunnel\<lparr>tLocalPort := 1\<rparr>, None)\<rparr>),
     Remove ''tunnels'' ''t'']"

theorem running_tunnel_is_not_edited_witness:
  "find_id tID ''t'' (Tunnels (load (fold (\<lambda>e d. snd (Update (\<lambda>_. None) (\<lambda>_. True)
     (edit_update (\<lambda>_. None) (unix_os None) (\<lambda>_. None) (\<lambda>_. ParsedKey ()) (Tunnel.Active running_shared) e) d))
     sample_edits sample_db))) = Some sample_tunnel"
proof (rule running_tunnel_is_not_edited)
  show "Tunnel.Active running_shared ''t''" by code_simp
  show "find_id tID ''t'' (Tunnels (load sample_db)) = Some sample_tunnel" by code_simp
  show "clean_tunnels (load sample_db)" by code_simp
  show "list_all clean_edit sample_edits" by code_simp
qed

text \<open>Saving a tunnel with web links replaces its links by the submitted ones in their order:
  a link with an identifier must be one of this tunnel and keeps its environment and description,
  a new one gets the environment of the host; no identifier is used twice, every link is valid
  for the tunnel, and the links of other tunnels stay in front, untouched.\<close>

theorem saved_links_belong_to_tunnel:
  assumes "replaceTunnelLinks up new n s t links = Inr s'"
  shows "\<exists>h mine. State_Host s (tHostID t) = Inr h
    \<and> s' = s\<lparr>Services := filter (\<lambda>l. sTunnelID l \<noteq> tID t) (Services s) @ mine\<rparr>
    \<and> list_all2 (link_of up new (Services s) h t) links mine \<and> distinct (kept_ids links)"
  using assms by (rule replaceTunnelLinks_Inr) blast

definition sample_link :: service where
  "sample_link = \<lparr>sID = ''l'', sName = ''grafana'', sEnvironment = ''DEV'', sTunnelID = ''t'',
     sURL = ''http://127.0.0.1:15432/'', sDescription = ''board''\<rparr>"

definition link_parser :: "string \<Rightarrow> url option" where
  "link_parser u = Some \<lparr>uScheme = ''http'', uOpaque = [], uHasUser = False, uHost = ''127.0.0.1:15432'', uPath = ''/'',
     uRawQuery = [], uFragment = []\<rparr>"

definition linked_state :: state where
  "linked_state = sample_state\<lparr>Services := [sample_link]\<rparr>"

theorem saved_links_belong_to_tunnel_witness:
  "\<exists>mine. replaceTunnelLinks link_parser (\<lambda>_. ''n'') 0 linked_state sample_tunnel
       [sample_link\<lparr>sDescription := []\<rparr>, sample_link\<lparr>sID := [], sName := ''logs''\<rparr>] = Inr (linked_state\<lparr>Services := mine\<rparr>)
     \<and> map sID mine = [''l'', ''n''] \<and> length mine = 2"
proof -
  let ?r = "replaceTunnelLinks link_parser (\<lambda>_. ''n'') 0 linked_state sample_tunnel
       [sample_link\<lparr>sDescription := []\<rparr>, sample_link\<lparr>sID := [], sName := ''logs''\<rparr>]"
  let ?mine = "[sample_link, sample_link\<lparr>sID := ''n'', sName := ''logs''\<rparr>]"
  have r: "?r = Inr (linked_state\<lparr>Services := ?mine\<rparr>)" by code_simp
  from saved_links_belong_to_tunnel [OF r] obtain mine where
    "linked_state\<lparr>Services := ?mine\<rparr> = linked_state\<lparr>Services := filter (\<lambda>l. sTunnelID l \<noteq> tID sample_tunnel) (Services linked_state) @ mine\<rparr>"
    by blast
  with r show ?thesis by (intro exI [of _ ?mine]) (simp add: sample_link_def)
qed

text \<open>Deleting a tunnel that is not active deletes its web links with it, and nothing else is in
  the way: on a valid store with distinct identifiers the result is valid, so the request can only
  fail because the tunnel does not exist or the database fails.\<close>

theorem delete_tunnel_removes_links:
  assumes "well_formed up (load d)" "utf8_clean (load d)" "distinct (map tID (Tunnels (load d)))"
    and "i \<in> tID ` set (Tunnels (load d))" "\<not> running i" "\<And>st. q st"
  shows "\<exists>d'. web_delete up q running ''tunnels'' i d = (Inr (), d')
    \<and> Tunnels (load d') = filter (\<lambda>t. tID t \<noteq> i) (Tunnels (load d))
    \<and> Services (load d') = filter (\<lambda>v. sTunnelID v \<noteq> i) (Services (load d))
    \<and> Hosts (load d') = Hosts (load d) \<and> Keys (load d') = Keys (load d)"
proof -
  let ?s = "(load d)\<lparr>Tunnels := filter (\<lambda>t. tID t \<noteq> i) (Tunnels (load d)),
    Services := filter (\<lambda>v. sTunnelID v \<noteq> i) (Services (load d))\<rparr>"
  have fn: "delete_update running ''tunnels'' i (load d) = Inr ?s"
    using assms(4,5) Delete_removes_one [OF assms(3), of i] by (simp add: delete_update_def check_def)
  have wf: "well_formed up ?s" using delete_tunnel_valid [OF fn assms(1,3)] by simp
  have "utf8_clean ?s" using assms(2) by (auto simp: utf8_clean_iff)
  then have clean: "json_state ?s = ?s" by (simp add: utf8_clean_def)
  have "\<exists>d'. Update up q (delete_update running ''tunnels'' i) d = (Inr (), d')
      \<and> load d' = (json_state ?s)\<lparr>History := History (load d)\<rparr>"
    using assms(6) fn wf by (rule Update_commits)
  with clean show ?thesis by (auto simp: web_delete_def)
qed


theorem delete_tunnel_removes_links_witness:
  "\<exists>d'. web_delete (\<lambda>_. None) (\<lambda>_. True) (\<lambda>_. False) ''tunnels'' ''t'' sample_db = (Inr (), d') \<and> Tunnels (load d') = []"
proof -
  have "well_formed (\<lambda>_. None) (load sample_db)" using sample_valid by (simp add: Validate_iff load_sample)
  moreover have "utf8_clean (load sample_db)" by (simp add: load_sample sample_utf8)
  moreover have "distinct (map tID (Tunnels (load sample_db)))" "''t'' \<in> tID ` set (Tunnels (load sample_db))"
    by (simp_all add: load_sample) (simp_all add: sample_defs)
  ultimately show ?thesis
    using delete_tunnel_removes_links [of "\<lambda>_. None" sample_db "''t''" "\<lambda>_. False" "\<lambda>_. True"]
    by (auto simp: load_sample) (auto simp: sample_defs)
qed

text \<open>C31. What others need cannot be deleted: a key that a host uses, a host that a tunnel uses or
  that is the jump host of another. The request is answered with an error and the store is as
  before.\<close>

theorem records_in_use_cannot_be_deleted:
  assumes "in_use (load d) kind i" "unique_ids (load d)" "[] \<notin> hID ` set (Hosts (load d))"
  shows "\<exists>e. web_delete up q running kind i d = (Inl e, d)"
  unfolding web_delete_def
  using in_use_needed [OF _ assms] by (intro Update_refused)

theorem records_in_use_cannot_be_deleted_witness:
  "\<exists>e. web_delete (\<lambda>_. None) (\<lambda>_. True) (\<lambda>_. False) ''hosts'' ''b'' sample_db = (Inl e, sample_db)"
proof (rule records_in_use_cannot_be_deleted)
  show "in_use (load sample_db) ''hosts'' ''b''" by code_simp
  show "unique_ids (load sample_db)" by code_simp
  show "[] \<notin> hID ` set (Hosts (load sample_db))" by code_simp
qed

section \<open>Backups\<close>

text \<open>A configuration whose identifiers and paths can travel in a backup.\<close>

definition portable :: "(string \<Rightarrow> url option) \<Rightarrow> os \<Rightarrow> state \<Rightarrow> bool" where
  "portable up os s \<longleftrightarrow> well_formed up s \<and> unique_ids s
     \<and> (\<forall>i \<in> kID ` set (Keys s) \<union> hID ` set (Hosts s) \<union> tID ` set (Tunnels s) \<union> sID ` set (Services s). \<not> bad_id i)
     \<and> (\<forall>k \<in> set (Keys s). ok (Path os (kPath k))) \<and> ok (Path os (KnownHosts (Settings s))) \<and> ok (Path os (SSHConfig (Settings s)))"

text \<open>C30. A backup brings a configuration back: imported into an empty one with its settings it
  reproduces every record and counts them all; imported into the configuration it came from it
  adds nothing and changes nothing.\<close>

theorem backup_roundtrip:
  assumes "portable up os s" "empty_config e"
  shows "mergeBackup up os (export_backup now s) True e
      = Inr (\<lparr>nKeys = length (Keys s), nHosts = length (Hosts s), nTunnels = length (Tunnels s), nServices = length (Services s)\<rparr>,
          e\<lparr>Keys := Keys s, Hosts := Hosts s, Tunnels := Tunnels s, Services := Services s, Settings := Settings s\<rparr>)
    \<and> mergeBackup up os (export_backup now s) True s
      = Inr (\<lparr>nKeys = 0, nHosts = 0, nTunnels = 0, nServices = 0\<rparr>, s)"
proof -
  have wf: "well_formed up s" using assms(1) by (simp add: portable_def)
  have ids: "distinct (map kID (Keys s))" "\<forall>v \<in> set (Keys s). \<not> bad_id (kID v)"
    "distinct (map hID (Hosts s))" "\<forall>v \<in> set (Hosts s). \<not> bad_id (hID v)"
    "distinct (map tID (Tunnels s))" "\<forall>v \<in> set (Tunnels s). \<not> bad_id (tID v)"
    "distinct (map sID (Services s))" "\<forall>v \<in> set (Services s). \<not> bad_id (sID v)"
    using assms(1) by (simp_all add: portable_def unique_ids_def)
  note merges = mergeRecords_fresh [OF ids(1,2)] mergeRecords_fresh [OF ids(3,4)] mergeRecords_fresh [OF ids(5,6)]
    mergeRecords_fresh [OF ids(7,8)] mergeRecords_same [OF ids(1,2)] mergeRecords_same [OF ids(3,4)]
    mergeRecords_same [OF ids(5,6)] mergeRecords_same [OF ids(7,8)]
  have paths: "rall (check_key_path os) (Keys s) = Inr ()" "\<exists>p. Path os (KnownHosts (Settings s)) = Inr p"
    "\<exists>p. Path os (SSHConfig (Settings s)) = Inr p"
    using assms(1) by (auto simp: portable_def rall_eq_Inr check_key_path_def ok_def split: sum.splits)
  let ?e = "e\<lparr>Keys := Keys s, Hosts := Hosts s, Tunnels := Tunnels s, Services := Services s, Settings := Settings s\<rparr>"
  have "well_formed up ?e" using wf by (subst well_formed_cong [of _ s]) simp_all
  then have v: "Validate up ?e = Inr ()" "Validate up s = Inr ()" using wf by (simp_all add: Validate_iff)
  obtain p c where "Path os (KnownHosts (Settings s)) = Inr p" "Path os (SSHConfig (Settings s)) = Inr c"
    using paths(2,3) by blast
  with assms(2) merges paths(1) v show ?thesis
    by (simp add: mergeBackup_def export_backup_def empty_config_def import_settings_def Let_def check_def)
qed

definition travelling :: state where
  "travelling = sample_state\<lparr>Settings := \<lparr>KnownHosts = ''/home/u/.ssh/known_hosts'', SSHConfig = ''/home/u/.ssh/config''\<rparr>\<rparr>"

lemma travelling_portable: "portable (\<lambda>_. None) (unix_os (Some ''/home/u'')) travelling"
proof -
  have "well_formed (\<lambda>_. None) travelling"
    using sample_valid by (subst well_formed_cong [of _ sample_state]) (simp_all add: Validate_iff travelling_def)
  moreover have "unique_ids travelling" by code_simp
  moreover have "\<forall>i \<in> kID ` set (Keys travelling) \<union> hID ` set (Hosts travelling) \<union> tID ` set (Tunnels travelling)
      \<union> sID ` set (Services travelling). \<not> bad_id i" by code_simp
  moreover have "\<forall>k \<in> set (Keys travelling). ok (Path (unix_os (Some ''/home/u'')) (kPath k))" by code_simp
  moreover have "ok (Path (unix_os (Some ''/home/u'')) (KnownHosts (Settings travelling)))"
    "ok (Path (unix_os (Some ''/home/u'')) (SSHConfig (Settings travelling)))" by code_simp+
  ultimately show ?thesis by (simp add: portable_def)
qed

theorem backup_roundtrip_witness:
  "mergeBackup (\<lambda>_. None) (unix_os (Some ''/home/u'')) (export_backup ''now'' travelling) True empty_state =
   Inr (\<lparr>nKeys = 1, nHosts = 2, nTunnels = 1, nServices = 0\<rparr>, travelling)"
proof -
  have "empty_config empty_state" by code_simp
  from backup_roundtrip [OF travelling_portable this, of "''now''"] show ?thesis
    by (simp add: travelling_def sample_defs)
qed

text \<open>Importing a backup only adds: the records of the store stay, in place and unchanged,
  records with new identifiers follow, every record of the backup is there, and the settings change
  only when asked. The preview of the same request reports exactly the counts of the import and
  leaves the store alone.\<close>

theorem backup_import_only_adds:
  assumes "importBackup up q os ''apply'' (Inr (b, ws)) d = (Inr counts, d')"
  shows "importBackup up q os ''preview'' (Inr (b, ws)) d = (Inr counts, d)
    \<and> (\<exists>s'. backup_adds b ws counts (load d) s' \<and> well_formed up s' \<and> config (load d') = config (json_state s'))"
proof -
  let ?fn = "\<lambda>s. rbind (mergeBackup up os b ws s) (\<lambda>r. Inr (snd r))"
  obtain u where u: "Update up q ?fn d = (Inr u, d')"
    and m: "rbind (mergeBackup up os b ws (load d)) (\<lambda>r. Inr (fst r)) = Inr counts"
    using assms by (auto simp: importBackup_def split: prod.splits sum.splits)
  from m obtain s' where s': "mergeBackup up os b ws (load d) = Inr (counts, s')" by (auto simp: rbind_eq_Inr)
  from sqlite.committed [OF u] s' have "well_formed up s'" "config (load d') = config (json_state s')" by auto
  moreover have "Snapshot q d = Inr (load d)" using Update_Snapshot [OF u] .
  ultimately show ?thesis using mergeBackup_adds [OF s'] m by (auto simp: importBackup_def)
qed

theorem backup_import_only_adds_witness:
  "\<exists>d' s'. importBackup (\<lambda>_. None) (\<lambda>_. True) (unix_os (Some ''/home/u'')) ''apply'' (Inr (export_backup ''now'' travelling, False)) sample_db
     = (Inr \<lparr>nKeys = 0, nHosts = 0, nTunnels = 0, nServices = 0\<rparr>, d') \<and> config (load d') = config (json_state s')"
proof -
  let ?r = "importBackup (\<lambda>_. None) (\<lambda>_. True) (unix_os (Some ''/home/u'')) ''apply'' (Inr (export_backup ''now'' travelling, False)) sample_db"
  have "fst ?r = Inr \<lparr>nKeys = 0, nHosts = 0, nTunnels = 0, nServices = 0\<rparr>" by code_simp
  then have r: "?r = (Inr \<lparr>nKeys = 0, nHosts = 0, nTunnels = 0, nServices = 0\<rparr>, snd ?r)" by (metis prod.collapse)
  from backup_import_only_adds [OF r] r show ?thesis by blast
qed

end
