(* ===== verification/SshClient.thy ===== *)
theory SshClient
  imports PlatformKey
begin

text \<open>
  internal/sshclient: connecting to a host through its chain of jump hosts, the connection made
  of one SSH client per hop, and the host key policy. golang.org/x/crypto/ssh and the network
  are the parameter \<open>net\<close>; what the code does to them is a trace of events.
\<close>

section \<open>Host keys\<close>

text \<open>What the verifier of golang.org/x/crypto/ssh/knownhosts answers: the key is listed, no key is
  listed for the host (\<open>KeyError\<close> with an empty \<open>Want\<close>), or anything else.\<close>

datatype verdict = KeyKnown | KeyUnlisted | KeyRejected

text \<open>A callback takes the host and the server's key.\<close>

type_synonym callback = "string \<Rightarrow> string \<Rightarrow> unit res"

definition pin_callback :: "(string \<Rightarrow> string) \<Rightarrow> string \<Rightarrow> callback" where
  "pin_callback fp pin host k = check (pin = fp k) (NetErr (FingerprintMismatch host))"

definition known_callback :: "(string \<Rightarrow> string \<Rightarrow> verdict) \<Rightarrow> callback" where
  "known_callback verify host k =
     (case verify host k of
        KeyKnown \<Rightarrow> Inr ()
      | KeyUnlisted \<Rightarrow> Inl (NetErr (UnknownHost host))
      | KeyRejected \<Rightarrow> Inl (NetErr (HostKeyRejected host)))"

text \<open>\<open>fp\<close> is \<open>ssh.FingerprintSHA256\<close>, \<open>kh\<close> the parser of a known_hosts file.\<close>

definition HostKeyCallback ::
  "os \<Rightarrow> fs \<Rightarrow> (string \<Rightarrow> string) \<Rightarrow> (file_info \<Rightarrow> (string \<Rightarrow> string \<Rightarrow> verdict) option) \<Rightarrow> string \<Rightarrow> string \<Rightarrow> callback res" where
  "HostKeyCallback os fs fp kh path pin =
     (if pin \<noteq> [] then Inr (pin_callback fp pin)
      else rbind (Path os path)
        (\<lambda>p. case fs p of
           None \<Rightarrow> Inl (NetErr NoKnownHosts)
         | Some f \<Rightarrow>
             (case kh f of
                None \<Rightarrow> Inl (NetErr BadKnownHosts)
              | Some verify \<Rightarrow> Inr (known_callback verify))))"

section \<open>Connections\<close>

text \<open>
  The network: a TCP connection, directly or through the client of an earlier hop; the key the
  server of a hop shows and its SSH handshake; whether the hop's time was up when that ended; and
  keep-alive requests.
\<close>

record 's net =
  nDial :: "int \<Rightarrow> nat option \<Rightarrow> string \<Rightarrow> unit res"
  nServerKey :: "nat \<Rightarrow> string"
  nHandshake :: "nat \<Rightarrow> string \<Rightarrow> string \<Rightarrow> 's \<Rightarrow> callback \<Rightarrow> unit res"
  nExpired :: "nat \<Rightarrow> bool"
  nRequest :: "nat \<Rightarrow> unit res"

datatype event = Dial "nat option" string | Handshake nat | OpenClient nat | CloseRaw nat | CloseClient nat

text \<open>A connection: the clients are numbered by hop; \<open>cDone\<close> is the state of the \<open>sync.Once\<close>.\<close>

record connection =
  cClients :: nat
  cDone :: bool

definition close_clients :: "nat \<Rightarrow> event list" where
  "close_clients n = map CloseClient (rev [0..<n])"

definition conn_Close :: "connection \<Rightarrow> connection \<times> event list" where
  "conn_Close c = (if cDone c then (c, []) else (c\<lparr>cDone := True\<rparr>, close_clients (cClients c)))"

definition conn_Dial :: "'s net \<Rightarrow> int \<Rightarrow> connection \<Rightarrow> string \<Rightarrow> unit res" where
  "conn_Dial net t c a = nDial net t (Some (cClients c - 1)) a"

definition KeepAlive :: "'s net \<Rightarrow> connection \<Rightarrow> unit res" where
  "KeepAlive net c = rall (nRequest net) [0..<cClients c]"

text \<open>The part of a hop that needs no network: key, signer, host key policy.\<close>

definition prepare_hop ::
  "(state \<Rightarrow> string \<Rightarrow> 's res) \<Rightarrow> (string \<Rightarrow> string \<Rightarrow> callback res) \<Rightarrow> state \<Rightarrow> host \<Rightarrow> ('s \<times> callback) res" where
  "prepare_hop signer policy s h =
     rbind (State_Key s (hKeyID h))
     (\<lambda>k. rbind (signer s (kPath k))
     (\<lambda>sg. rbind (policy (KnownHosts (Settings s)) (hFingerprint h))
     (\<lambda>cb. Inr (sg, cb))))"

definition hop_address :: "host \<Rightarrow> string" where
  "hop_address h = JoinHostPort (hAddress h) (Itoa (hPort h))"

definition hop_via :: "nat \<Rightarrow> nat option" where
  "hop_via i = (if i = 0 then None else Some (i - 1))"

text \<open>The loop over the chain: \<open>i\<close> clients are open, \<open>tr\<close> is what happened so far.\<close>

fun connect_loop ::
  "'s net \<Rightarrow> int \<Rightarrow> (host \<Rightarrow> ('s \<times> callback) res) \<Rightarrow> nat \<Rightarrow> event list \<Rightarrow> host list \<Rightarrow> connection res \<times> event list" where
  "connect_loop net t prep i tr [] = (Inr \<lparr>cClients = i, cDone = False\<rparr>, tr)"
| "connect_loop net t prep i tr (h # hs) =
     (case prep h of
        Inl e \<Rightarrow> (Inl e, tr @ close_clients i)
      | Inr (sg, cb) \<Rightarrow>
          let a = hop_address h; tr1 = tr @ [Dial (hop_via i) a] in
          (case nDial net t (hop_via i) a of
             Inl e \<Rightarrow> (Inl (Named (hName h) e), tr1 @ close_clients i)
           | Inr _ \<Rightarrow>
               (case nHandshake net i a (hUsername h) sg cb of
                  Inl e \<Rightarrow> (Inl (Named (hName h) e), tr1 @ [Handshake i, CloseRaw i] @ close_clients i)
                | Inr _ \<Rightarrow>
                    if nExpired net i
                    then (Inl (Named (hName h) (NetErr DeadlineExceeded)), tr1 @ [Handshake i, CloseRaw i] @ close_clients i)
                    else connect_loop net t prep (Suc i) (tr1 @ [Handshake i, OpenClient i]) hs)))"

text \<open>Twelve seconds per hop unless configured otherwise, in nanoseconds.\<close>

definition hop_timeout :: "int \<Rightarrow> int" where
  "hop_timeout t = (if t = 0 then 12 * 10 ^ 9 else t)"

definition connect ::
  "'s net \<Rightarrow> int \<Rightarrow> (state \<Rightarrow> string \<Rightarrow> 's res) \<Rightarrow> (string \<Rightarrow> string \<Rightarrow> callback res) \<Rightarrow> state \<Rightarrow> host list \<Rightarrow>
   connection res \<times> event list" where
  "connect net t signer policy s chain =
     connect_loop net (hop_timeout t) (prepare_hop signer policy s) 0 [] chain"

text \<open>\<open>Connect\<close>: the attempt is recorded under the target; \<open>msg\<close> is the text of an error.\<close>

definition Connect ::
  "'s net \<Rightarrow> int \<Rightarrow> (state \<Rightarrow> string \<Rightarrow> 's res) \<Rightarrow> (string \<Rightarrow> string \<Rightarrow> callback res) \<Rightarrow> (stmt \<Rightarrow> bool) \<Rightarrow>
   (err \<Rightarrow> string) \<Rightarrow> string \<Rightarrow> string \<Rightarrow> string \<Rightarrow> db \<Rightarrow> connection res \<times> event list \<times> db" where
  "Connect net t signer policy q msg rowid at i d =
     (case Snapshot q d of
        Inl e \<Rightarrow> (Inl e, [], d)
      | Inr s \<Rightarrow>
          (case Chain s i of
             Inl e \<Rightarrow> (Inl (NetErr NoRoute), [], d)
           | Inr [] \<Rightarrow> (Inl (NetErr NoRoute), [], d)
           | Inr (h # hs) \<Rightarrow>
               let (r, tr) = connect net t signer policy s (h # hs);
                   err = (case r of Inl e \<Rightarrow> Some (msg e) | Inr _ \<Rightarrow> None)
               in (r, tr, Record q rowid at (last (h # hs)) ''ssh'' err d)))"

section \<open>What a trace says\<close>

definition opened :: "event list \<Rightarrow> nat list" where
  "opened tr = concat (map (\<lambda>e. case e of OpenClient i \<Rightarrow> [i] | _ \<Rightarrow> []) tr)"

definition closed :: "event list \<Rightarrow> nat list" where
  "closed tr = concat (map (\<lambda>e. case e of CloseClient i \<Rightarrow> [i] | _ \<Rightarrow> []) tr)"

definition dialled :: "event list \<Rightarrow> (nat option \<times> string) list" where
  "dialled tr = concat (map (\<lambda>e. case e of Dial v a \<Rightarrow> [(v, a)] | _ \<Rightarrow> []) tr)"

definition raw_closed :: "event list \<Rightarrow> nat list" where
  "raw_closed tr = concat (map (\<lambda>e. case e of CloseRaw i \<Rightarrow> [i] | _ \<Rightarrow> []) tr)"

definition shaken :: "event list \<Rightarrow> nat list" where
  "shaken tr = concat (map (\<lambda>e. case e of Handshake i \<Rightarrow> [i] | _ \<Rightarrow> []) tr)"

lemmas trace_defs = opened_def closed_def dialled_def raw_closed_def shaken_def

lemma trace_simps [simp]:
  "opened [] = []" "closed [] = []" "dialled [] = []" "raw_closed [] = []" "shaken [] = []"
  "opened (tr @ tr') = opened tr @ opened tr'" "closed (tr @ tr') = closed tr @ closed tr'"
  "dialled (tr @ tr') = dialled tr @ dialled tr'" "raw_closed (tr @ tr') = raw_closed tr @ raw_closed tr'"
  "shaken (tr @ tr') = shaken tr @ shaken tr'"
  by (simp_all add: trace_defs)

lemma trace_close_clients [simp]:
  "opened (close_clients n) = []" "closed (close_clients n) = rev [0..<n]" "dialled (close_clients n) = []"
  "raw_closed (close_clients n) = []" "shaken (close_clients n) = []"
  by (simp_all add: trace_defs close_clients_def comp_def)

text \<open>The dials the route prescribes for the hops from \<open>i\<close> on.\<close>

definition route_dials :: "nat \<Rightarrow> host list \<Rightarrow> (nat option \<times> string) list" where
  "route_dials i hs = map (\<lambda>(j, h). (hop_via j, hop_address h)) (enumerate i hs)"

lemma route_dials_simps [simp]:
  "route_dials i [] = []"
  "route_dials i (h # hs) = (hop_via i, hop_address h) # route_dials (Suc i) hs"
  by (simp_all add: route_dials_def)

text \<open>
  The loop, started with clients \<open>0..<i\<close> open: it succeeds with one client per hop, each dialled
  through the one before, and nothing closed; or it fails after a prefix of that, having closed
  every client in reverse order and the raw connection of a failed handshake.
\<close>

lemma connect_loop_trace:
  assumes "connect_loop net t prep i tr hs = (r, tr')"
    and "opened tr = [0..<i]" "closed tr = []" "raw_closed tr = []" "shaken tr = [0..<i]"
  shows "case r of
      Inr c \<Rightarrow> c = \<lparr>cClients = i + length hs, cDone = False\<rparr> \<and> opened tr' = [0..<i + length hs] \<and> closed tr' = []
        \<and> raw_closed tr' = [] \<and> shaken tr' = [0..<i + length hs] \<and> dialled tr' = dialled tr @ route_dials i hs
    | Inl _ \<Rightarrow> (\<exists>n < length hs. opened tr' = [0..<i + n] \<and> closed tr' = rev [0..<i + n]
        \<and> shaken tr' = [0..<i + n] @ raw_closed tr' \<and> raw_closed tr' \<in> {[], [i + n]}
        \<and> (\<exists>m \<le> Suc n. dialled tr' = dialled tr @ take m (route_dials i hs)))"
  using assms
proof (induction hs arbitrary: i tr)
  case Nil
  then show ?case by auto
next
  case (Cons h hs)
  let ?tr1 = "tr @ [Dial (hop_via i) (hop_address h)]"
  have d: "dialled ?tr1 = dialled tr @ take 1 (route_dials i (h # hs))"
    "dialled tr = dialled tr @ take 0 (route_dials i (h # hs))"
    by (simp_all add: trace_defs)
  have stop: ?case if "r = Inl e" "tr' = tr'' @ close_clients i" "opened tr'' = [0..<i]" "closed tr'' = []"
    "shaken tr'' = [0..<i] @ raw_closed tr''" "raw_closed tr'' \<in> {[], [i]}"
    "m \<le> 1" "dialled tr'' = dialled tr @ take m (route_dials i (h # hs))" for e tr'' m
    using that(2-) by (simp add: that(1), intro exI [where x = 0], auto intro!: exI [where x = m])
  show ?case
  proof (cases "prep h")
    case (Inl e)
    with Cons.prems d(2) show ?thesis by (intro stop [of e tr 0]) auto
  next
    case (Inr p)
    obtain sg cb where p: "p = (sg, cb)" by (cases p)
    show ?thesis
    proof (cases "nDial net t (hop_via i) (hop_address h)")
      case (Inl e)
      with Cons.prems Inr p d(1) show ?thesis
        by (intro stop [of "Named (hName h) e" ?tr1 1]) (auto simp: Let_def trace_defs)
    next
      case dial: (Inr u)
      let ?tr2 = "?tr1 @ [Handshake i, CloseRaw i]" and ?tr3 = "?tr1 @ [Handshake i, OpenClient i]"
      have raw: "opened ?tr2 = opened tr" "closed ?tr2 = closed tr" "raw_closed ?tr2 = raw_closed tr @ [i]"
        "shaken ?tr2 = shaken tr @ [i]" "dialled ?tr2 = dialled ?tr1"
        by (simp_all add: trace_defs)
      show ?thesis
      proof (cases "nHandshake net i (hop_address h) (hUsername h) sg cb")
        case (Inl e)
        with Cons.prems Inr p dial d(1) raw show ?thesis
          by (intro stop [of "Named (hName h) e" ?tr2 1]) (auto simp: Let_def)
      next
        case shake: (Inr v)
        show ?thesis
        proof (cases "nExpired net i")
          case True
          with Cons.prems Inr p dial shake d(1) raw show ?thesis
            by (intro stop [of "Named (hName h) (NetErr DeadlineExceeded)" ?tr2 1]) (auto simp: Let_def)
        next
          case False
          have rec: "connect_loop net t prep (Suc i) ?tr3 hs = (r, tr')"
            using Cons.prems(1) Inr p dial shake False by (simp add: Let_def)
          have "opened ?tr3 = [0..<Suc i]" "closed ?tr3 = []" "raw_closed ?tr3 = []" "shaken ?tr3 = [0..<Suc i]"
            "dialled ?tr3 = dialled tr @ [(hop_via i, hop_address h)]"
            using Cons.prems by (simp_all add: trace_defs)
          note IH = Cons.IH [OF rec this(1-4)] and d3 = this(5)
          show ?thesis
          proof (cases r)
            case (Inr c)
            with IH d3 show ?thesis by simp
          next
            case (Inl e)
            with IH d3 obtain n m where "n < length hs" "opened tr' = [0..<Suc i + n]" "closed tr' = rev [0..<Suc i + n]"
              "shaken tr' = [0..<Suc i + n] @ raw_closed tr'" "raw_closed tr' \<in> {[], [Suc i + n]}"
              "m \<le> Suc n" "dialled tr' = dialled tr @ take (Suc m) (route_dials i (h # hs))" by auto
            with Inl show ?thesis by (simp del: upt_Suc, intro exI [where x = "Suc n"]) (auto intro!: exI [where x = "Suc m"])
          qed
        qed
      qed
    qed
  qed
qed


text \<open>What a successful loop has been told by its environment, hop by hop.\<close>

definition hop_ok :: "'s net \<Rightarrow> int \<Rightarrow> (host \<Rightarrow> ('s \<times> callback) res) \<Rightarrow> nat \<Rightarrow> host \<Rightarrow> bool" where
  "hop_ok net t prep i h \<longleftrightarrow> (\<exists>sg cb. prep h = Inr (sg, cb) \<and> nDial net t (hop_via i) (hop_address h) = Inr ()
     \<and> nHandshake net i (hop_address h) (hUsername h) sg cb = Inr () \<and> \<not> nExpired net i)"

lemma connect_loop_ok:
  "connect_loop net t prep i tr hs = (Inr c, tr') \<Longrightarrow> j < length hs \<Longrightarrow> hop_ok net t prep (i + j) (hs ! j)"
proof (induction hs arbitrary: i tr j)
  case (Cons h hs)
  obtain tr2 where h: "hop_ok net t prep i h" and rec: "connect_loop net t prep (Suc i) tr2 hs = (Inr c, tr')"
    using Cons.prems(1) by (auto simp: hop_ok_def Let_def split: sum.splits if_splits)
  show ?case
  proof (cases j)
    case 0
    with h show ?thesis by simp
  next
    case (Suc k)
    with Cons.IH [OF rec, of k] Cons.prems(2) show ?thesis by simp
  qed
qed simp

text \<open>crypto/ssh ends a handshake with an error when the host key callback returns one.\<close>

definition checks_keys :: "'s net \<Rightarrow> bool" where
  "checks_keys net \<longleftrightarrow> (\<forall>i a u sg cb. nHandshake net i a u sg cb = Inr () \<longrightarrow> cb a (nServerKey net i) = Inr ())"

text \<open>A key that the policy accepts: the pinned one, or one that known_hosts lists for the host.\<close>

definition trusted ::
  "os \<Rightarrow> fs \<Rightarrow> (string \<Rightarrow> string) \<Rightarrow> (file_info \<Rightarrow> (string \<Rightarrow> string \<Rightarrow> verdict) option) \<Rightarrow> string \<Rightarrow> host \<Rightarrow> string \<Rightarrow> bool" where
  "trusted os fs fp kh path h k \<longleftrightarrow>
     (if hFingerprint h \<noteq> [] then fp k = hFingerprint h
      else \<exists>p f verify. Path os path = Inr p \<and> fs p = Some f \<and> kh f = Some verify \<and> verify (hop_address h) k = KeyKnown)"

lemma HostKeyCallback_trusted:
  assumes "HostKeyCallback os fs fp kh path (hFingerprint h) = Inr cb" "cb (hop_address h) k = Inr ()"
  shows "trusted os fs fp kh path h k"
proof (cases "hFingerprint h = []")
  case False
  with assms show ?thesis by (auto simp: HostKeyCallback_def trusted_def pin_callback_def res_simps)
next
  case True
  with assms(1) obtain p where p: "Path os path = Inr p"
    and rest: "(case fs p of None \<Rightarrow> Inl (NetErr NoKnownHosts)
      | Some f \<Rightarrow> (case kh f of None \<Rightarrow> Inl (NetErr BadKnownHosts) | Some v \<Rightarrow> Inr (known_callback v))) = Inr cb"
    by (auto simp: HostKeyCallback_def rbind_eq_Inr)
  from rest obtain f where f: "fs p = Some f"
    and rest: "(case kh f of None \<Rightarrow> Inl (NetErr BadKnownHosts) | Some v \<Rightarrow> Inr (known_callback v)) = Inr cb"
    by (cases "fs p") auto
  from rest obtain verify where "kh f = Some verify" "cb = known_callback verify"
    by (cases "kh f") auto
  note p f this
  moreover from this(4) assms(2) have "verify (hop_address h) k = KeyKnown"
    by (auto simp: known_callback_def split: verdict.splits)
  ultimately show ?thesis using True by (auto simp: trusted_def)
qed

end
