(* ===== verification/WebGuard.thy ===== *)
theory WebGuard
  imports GoStrings
begin

text \<open>
  The doors of the two web listeners (internal/web/server.go, sharing.go): which requests the
  management interface and the download page let in, and what a path leads to. The parts of
  Go's package net they use come first.
\<close>

section \<open>Package net\<close>

text \<open>\<open>net.SplitHostPort\<close>: the last colon separates the port; a host with colons is in brackets.\<close>

fun last_index :: "char \<Rightarrow> string \<Rightarrow> nat option" where
  "last_index c [] = None"
| "last_index c (x # xs) =
     (case last_index c xs of Some i \<Rightarrow> Some (Suc i) | None \<Rightarrow> if x = c then Some 0 else None)"

fun first_index :: "char \<Rightarrow> string \<Rightarrow> nat option" where
  "first_index c [] = None"
| "first_index c (x # xs) = (if x = c then Some 0 else map_option Suc (first_index c xs))"

definition brackets_ok :: "string \<Rightarrow> nat \<Rightarrow> nat \<Rightarrow> bool" where
  "brackets_ok s j k \<longleftrightarrow> CHR ''['' \<notin> set (drop j s) \<and> CHR '']'' \<notin> set (drop k s)"

definition SplitHostPort :: "string \<Rightarrow> (string \<times> string) option" where
  "SplitHostPort s =
     (case last_index (CHR '':'') s of
        None \<Rightarrow> None
      | Some i \<Rightarrow>
          if hd s = CHR ''['' then
            (case first_index (CHR '']'') s of
               None \<Rightarrow> None
             | Some e \<Rightarrow>
                 if Suc e \<noteq> i \<or> \<not> brackets_ok s 1 (Suc e) then None
                 else Some (take (e - 1) (drop 1 s), drop (Suc i) s))
          else if CHR '':'' \<in> set (take i s) \<or> \<not> brackets_ok s 0 0 then None
          else Some (take i s, drop (Suc i) s))"

text \<open>\<open>net.IPNet\<close>: the four bytes of an address and a mask of 4 or 16 bytes.\<close>

record ip_net =
  netIP :: "nat list"
  netMask :: "nat list"

definition mask4 :: "ip_net \<Rightarrow> nat list option" where
  "mask4 n = (if length (netMask n) = 4 then Some (netMask n)
     else if length (netMask n) = 16 then Some (drop 12 (netMask n)) else None)"

definition net_Contains :: "ip_net \<Rightarrow> ip option \<Rightarrow> bool" where
  "net_Contains n a =
     (case (mask4 n, Option.bind a To4) of
        (Some m, Some f) \<Rightarrow> length f = length (netIP n) \<and> map2 (and) (netIP n) m = map2 (and) f m
      | _ \<Rightarrow> False)"

definition net_Equal :: "ip_net \<Rightarrow> ip option \<Rightarrow> bool" where
  "net_Equal n a \<longleftrightarrow> Option.bind a To4 = Some (netIP n)"

text \<open>An interface is up or not and has addresses, some of them IP networks.\<close>

type_synonym iface = "bool \<times> (ip \<times> nat list) option list"

definition shareNetworks :: "iface list \<Rightarrow> ip_net list" where
  "shareNetworks ifs =
     concat (map (\<lambda>(up, as). if up then
         concat (map (\<lambda>a. case a of
             Some (i, m) \<Rightarrow> (case To4 i of Some f \<Rightarrow> [\<lparr>netIP = f, netMask = m\<rparr>] | None \<Rightarrow> [])
           | None \<Rightarrow> []) as)
       else []) ifs)"

section \<open>Requests\<close>

text \<open>\<open>rHeader\<close> is \<open>Header.Get\<close>: the first value of a header, or the empty string.\<close>

record request =
  rMethod :: string
  rHost :: string
  rPath :: string
  rHeader :: "string \<Rightarrow> string"
  rRemote :: string
  rBody :: string

definition safe_method :: "string \<Rightarrow> bool" where
  "safe_method m \<longleftrightarrow> m = ''GET'' \<or> m = ''HEAD''"

text \<open>The management interface: the status of a refusal, or none.\<close>

definition security :: "string \<Rightarrow> string \<Rightarrow> request \<Rightarrow> nat option" where
  "security origin token r =
     (if rHost r \<noteq> TrimPrefix origin ''http://'' then Some 403
      else if rHeader r ''Origin'' \<noteq> [] \<and> rHeader r ''Origin'' \<noteq> origin then Some 403
      else if rHeader r ''Sec-Fetch-Site'' = ''cross-site'' then Some 403
      else if \<not> safe_method (rMethod r) then
        (if rHeader r ''X-CSRF-Token'' \<noteq> token then Some 403
         else if rMethod r = ''POST'' \<and> \<not> HasPrefix (rHeader r ''Content-Type'') ''application/json'' then Some 415
         else None)
      else None)"

text \<open>\<open>http.MaxBytesReader\<close>: a longer body never decodes.\<close>

definition max_body :: nat where
  "max_body = 2 * 1024 * 1024"

section \<open>Routes\<close>

datatype endpoint =
    Static | Health | GetState | Index
  | SaveRecord string | DeleteRecord string string
  | TunnelAction string string | CheckHost string | CheckKey string
  | PickKeyFile | UploadKey | UploadSettings | SettingsEditor string
  | SharingStatus | SharingAction string | TeamAction string
  | OpenService string | ImportPreview | ImportApply
  | BackupExport | BackupImport string | Terminal string
  | NoEndpoint

text \<open>The segments of a path after its first slash. A wildcard never matches an empty one.\<close>

definition segments :: "string \<Rightarrow> string list" where
  "segments p = tl (Split (CHR ''/'') p)"

definition route_two :: "bool \<Rightarrow> bool \<Rightarrow> string \<Rightarrow> endpoint" where
  "route_two get post k =
     (if get \<and> k = ''state'' then GetState
      else if get \<and> k = ''sharing'' then SharingStatus
      else if post \<and> k \<noteq> [] then SaveRecord k
      else NoEndpoint)"

definition route_three :: "bool \<Rightarrow> bool \<Rightarrow> string \<Rightarrow> string \<Rightarrow> endpoint" where
  "route_three post del k x =
     (if x = [] then NoEndpoint
      else if del \<and> k \<noteq> [] then DeleteRecord k x
      else if \<not> post then NoEndpoint
      else if k = ''keys'' \<and> x = ''pick-file'' then PickKeyFile
      else if k = ''keys'' \<and> x = ''upload'' then UploadKey
      else if k = ''settings'' \<and> x = ''files'' then UploadSettings
      else if k = ''sharing'' then SharingAction x
      else if k = ''team-sync'' then TeamAction x
      else if k = ''import'' \<and> x = ''preview'' then ImportPreview
      else if k = ''import'' \<and> x = ''apply'' then ImportApply
      else if k = ''backup'' \<and> x = ''export'' then BackupExport
      else if k = ''backup'' then BackupImport x
      else NoEndpoint)"

definition route_four :: "bool \<Rightarrow> string \<Rightarrow> string \<Rightarrow> string \<Rightarrow> endpoint" where
  "route_four post k x y =
     (if \<not> post \<or> x = [] \<or> y = [] then NoEndpoint
      else if k = ''tunnels'' then TunnelAction x y
      else if k = ''hosts'' \<and> y = ''check'' then CheckHost x
      else if k = ''keys'' \<and> y = ''check'' then CheckKey x
      else if k = ''settings'' \<and> x = ''editor'' then SettingsEditor y
      else if k = ''services'' \<and> y = ''open'' then OpenService x
      else NoEndpoint)"

definition route :: "string \<Rightarrow> string \<Rightarrow> endpoint" where
  "route m p =
     (let get = safe_method m; post = m = ''POST'' in
      case segments p of
        [a] \<Rightarrow> if get \<and> a = [] then Index else if get \<and> a = ''health'' then Health else NoEndpoint
      | a # b # c \<Rightarrow>
          if a = ''static'' then (if get then Static else NoEndpoint)
          else if a = ''ws'' \<and> b = ''terminal'' then
            (case c of [i] \<Rightarrow> if get \<and> i \<noteq> [] then Terminal i else NoEndpoint | _ \<Rightarrow> NoEndpoint)
          else if a = ''api'' then
            (case c of
               [] \<Rightarrow> route_two get post b
             | [x] \<Rightarrow> route_three post (m = ''DELETE'') b x
             | [x, y] \<Rightarrow> route_four post b x y
             | _ \<Rightarrow> NoEndpoint)
          else NoEndpoint
      | [] \<Rightarrow> NoEndpoint)"

section \<open>The download page\<close>

definition SharePort :: int where
  "SharePort = 9877"

definition share_remote_ok :: "ip_net list \<Rightarrow> string \<Rightarrow> bool" where
  "share_remote_ok nets addr =
     (case SplitHostPort addr of
        None \<Rightarrow> False
      | Some (h, _) \<Rightarrow>
          (case ParseIP h of None \<Rightarrow> False | Some i \<Rightarrow> IsLoopback i) \<or> list_ex (\<lambda>n. net_Contains n (ParseIP h)) nets)"

definition share_host_ok :: "ip_net list \<Rightarrow> string \<Rightarrow> bool" where
  "share_host_ok nets host =
     (case SplitHostPort host of
        None \<Rightarrow> False
      | Some (h, p) \<Rightarrow> p = Itoa SharePort \<and> list_ex (\<lambda>n. net_Equal n (ParseIP h)) nets)"

definition share_guard :: "ip_net list \<Rightarrow> request \<Rightarrow> nat option" where
  "share_guard nets r =
     (if \<not> share_remote_ok nets (rRemote r) then Some 403
      else if \<not> share_host_ok nets (rHost r) then Some 403
      else if rHeader r ''Sec-Fetch-Site'' = ''cross-site'' then Some 403
      else if rHeader r ''Origin'' \<noteq> [] \<and> rHeader r ''Origin'' \<noteq> ''http://'' @ rHost r then Some 403
      else if \<not> safe_method (rMethod r) then Some 405
      else None)"

datatype share_page =
    Feed string | DownloadPage | MacZip | MacConfig | MacGuide | WindowsProgram | Configuration | NoPage

definition share_route :: "string \<Rightarrow> share_page" where
  "share_route p =
     (if HasPrefix p ''/sync/'' then Feed (TrimPrefix p ''/sync/'')
      else if p = ''/'' then DownloadPage
      else if p = ''/download/macos.zip'' then MacZip
      else if p = ''/download/ssh-config'' then MacConfig
      else if p = ''/download/macos-guide'' then MacGuide
      else if p = ''/download/sshdesk.exe'' then WindowsProgram
      else if p = ''/download/configuration'' then Configuration
      else NoPage)"

section \<open>Facts\<close>

text \<open>What can be reached without the session token.\<close>

definition reads_only :: "endpoint \<Rightarrow> bool" where
  "reads_only e \<longleftrightarrow> e \<in> {Static, Health, GetState, Index, SharingStatus, NoEndpoint} \<or> (\<exists>i. e = Terminal i)"

lemma route_parts_safe:
  "reads_only (route_two True False k)" "reads_only (route_three False False k x)" "reads_only (route_four False k x y)"
  by (simp_all add: route_two_def route_three_def route_four_def reads_only_def)

lemma reads_only_simps [simp]:
  "reads_only Static" "reads_only Health" "reads_only GetState" "reads_only Index" "reads_only SharingStatus"
  "reads_only NoEndpoint" "reads_only (Terminal i)"
  by (simp_all add: reads_only_def)

lemma route_safe:
  assumes "safe_method m"
  shows "reads_only (route m p)"
proof -
  have m: "m \<noteq> ''POST''" "m \<noteq> ''DELETE''" using assms by (auto simp: safe_method_def)
  show ?thesis
  proof (cases "segments p")
    case (Cons a s)
    show ?thesis
    proof (cases s)
      case Nil
      with Cons show ?thesis by (simp add: route_def Let_def)
    next
      case s: (Cons b c)
      show ?thesis
      proof (cases "a = ''api''")
        case True
        have "reads_only (case c of [] \<Rightarrow> route_two True False b | [x] \<Rightarrow> route_three False False b x
            | [x, y] \<Rightarrow> route_four False b x y | _ \<Rightarrow> NoEndpoint)"
          by (simp add: route_parts_safe split: list.split)
        with Cons s True m assms show ?thesis by (simp add: route_def Let_def)
      next
        case False
        then show ?thesis using Cons s by (simp add: route_def Let_def split: list.split)
      qed
    qed
  qed (simp add: route_def Let_def)
qed

lemma security_None:
  "security origin token r = None \<longleftrightarrow> rHost r = TrimPrefix origin ''http://''
     \<and> rHeader r ''Origin'' \<in> {[], origin} \<and> rHeader r ''Sec-Fetch-Site'' \<noteq> ''cross-site''
     \<and> (safe_method (rMethod r) \<or> rHeader r ''X-CSRF-Token'' = token
         \<and> (rMethod r = ''POST'' \<longrightarrow> HasPrefix (rHeader r ''Content-Type'') ''application/json''))"
  by (auto simp: security_def)

lemma share_guard_None:
  "share_guard nets r = None \<longleftrightarrow> share_remote_ok nets (rRemote r) \<and> share_host_ok nets (rHost r)
     \<and> rHeader r ''Sec-Fetch-Site'' \<noteq> ''cross-site'' \<and> rHeader r ''Origin'' \<in> {[], ''http://'' @ rHost r}
     \<and> safe_method (rMethod r)"
  by (auto simp: share_guard_def)

lemma share_remote_ok_iff:
  "share_remote_ok nets a \<longleftrightarrow> (\<exists>peer p. SplitHostPort a = Some (peer, p)
     \<and> ((\<exists>ip. ParseIP peer = Some ip \<and> IsLoopback ip) \<or> (\<exists>n \<in> set nets. net_Contains n (ParseIP peer))))"
  by (auto simp: share_remote_ok_def list_ex_iff split: option.splits)

lemma share_host_ok_iff:
  "share_host_ok nets a \<longleftrightarrow> (\<exists>host. SplitHostPort a = Some (host, Itoa SharePort)
     \<and> (\<exists>n \<in> set nets. Option.bind (ParseIP host) To4 = Some (netIP n)))"
  by (auto simp: share_host_ok_def net_Equal_def list_ex_iff split: option.splits)

text \<open>Splitting what was joined, for hosts without brackets.\<close>

lemma last_index_append:
  "last_index c (xs @ ys) = (case last_index c ys of Some i \<Rightarrow> Some (length xs + i) | None \<Rightarrow> last_index c xs)"
  by (induction xs) (auto split: option.splits)

lemma last_index_None: "last_index c xs = None \<longleftrightarrow> c \<notin> set xs"
  by (induction xs) (auto split: option.splits)

lemma first_index_append:
  "first_index c (xs @ ys) = (case first_index c xs of Some i \<Rightarrow> Some i | None \<Rightarrow> map_option ((+) (length xs)) (first_index c ys))"
proof (induction xs)
  case Nil
  show ?case by (cases "first_index c ys") simp_all
next
  case (Cons x xs)
  then show ?case by (cases "first_index c ys") (auto split: option.splits)
qed

lemma first_index_None: "first_index c xs = None \<longleftrightarrow> c \<notin> set xs"
  by (induction xs) auto

theorem SplitHostPort_JoinHostPort:
  assumes "set h \<inter> {CHR ''['', CHR '']''} = {}" "set p \<inter> {CHR '':'', CHR ''['', CHR '']''} = {}" 
  shows "SplitHostPort (JoinHostPort h p) = Some (h, p)"
proof -
  have li: "last_index (CHR '':'') p = None" using assms(2) by (auto simp: last_index_None)
  show ?thesis
  proof (cases "CHR '':'' \<in> set h")
    case True
    have "last_index (CHR '':'') (JoinHostPort h p) = Some (Suc (Suc (length h)))"
      using True li by (simp add: JoinHostPort_def last_index_append)
    moreover have "first_index (CHR '']'') (JoinHostPort h p) = Some (Suc (length h))"
      using True assms(1) first_index_None [of "CHR '']''" h] by (simp add: JoinHostPort_def first_index_append)
    moreover have "JoinHostPort h p = CHR ''['' # h @ CHR '']'' # CHR '':'' # p"
      using True by (simp add: JoinHostPort_def)
    ultimately show ?thesis using assms by (simp add: SplitHostPort_def brackets_ok_def)
  next
    case False
    then have j: "JoinHostPort h p = h @ CHR '':'' # p" by (simp add: JoinHostPort_def)
    have "last_index (CHR '':'') (JoinHostPort h p) = Some (length h)"
      using li by (simp add: j last_index_append)
    moreover have "hd (JoinHostPort h p) \<noteq> CHR ''[''" using assms(1) j by (cases h) auto
    ultimately show ?thesis using False assms by (auto simp: SplitHostPort_def j brackets_ok_def)
  qed
qed

end
