(* ===== verification/Terminal.thy ===== *)
theory Terminal
  imports SshClient WebGuard
begin

text \<open>
  Terminals in the browser (internal/web/terminal.go): the table of open terminals, which is
  bounded and closed with the server, and the course of one WebSocket session. What the WebSocket
  and the SSH session answer is a parameter; deadlines show as failed reads and writes.
\<close>

section \<open>The table of terminals\<close>

record hub =
  hbClosed :: bool
  hbOpen :: "string list"

definition max_terminals :: nat where
  "max_terminals = 16"

definition enter :: "string \<Rightarrow> hub \<Rightarrow> hub option" where
  "enter i h = (if hbClosed h \<or> max_terminals \<le> length (hbOpen h) then None
     else Some (h\<lparr>hbOpen := List.insert i (hbOpen h)\<rparr>))"

definition leave :: "string \<Rightarrow> hub \<Rightarrow> hub" where
  "leave i h = h\<lparr>hbOpen := removeAll i (hbOpen h)\<rparr>"

text \<open>\<open>Close\<close> of the server cancels the terminals it returns; each leaves on its own.\<close>

definition close_hub :: "hub \<Rightarrow> string list \<times> hub" where
  "close_hub h = (hbOpen h, h\<lparr>hbClosed := True\<rparr>)"

datatype hub_op = Enter string | Leave string | CloseHub

fun hub_step :: "hub_op \<Rightarrow> hub \<Rightarrow> hub" where
  "hub_step (Enter i) h = (case enter i h of Some h' \<Rightarrow> h' | None \<Rightarrow> h)"
| "hub_step (Leave i) h = leave i h"
| "hub_step CloseHub h = snd (close_hub h)"

section \<open>A session\<close>

record term_input =
  inType :: string
  inData :: string
  inCols :: int
  inRows :: int
  inToken :: string

text \<open>\<open>tnFirst\<close> is the first message, read within five seconds and decoded.\<close>

record term_net =
  tnAccept :: bool
  tnFirst :: "term_input res"
  tnSession :: "err option"
  tnPty :: "err option"
  tnPipes :: bool
  tnShell :: "err option"

datatype term_act =
    RefuseOrigin | RefuseCapacity | RefuseLogin | TryConnect string | SendError err
  | Pty int int | Shell | SendConnected | Stdin string | Window int int | SendUnknown
  | CloseSession

definition pty_rows :: "int \<Rightarrow> int" where
  "pty_rows r = (if r < 2 \<or> 500 < r then 30 else r)"

definition pty_cols :: "int \<Rightarrow> int" where
  "pty_cols c = (if c < 2 \<or> 500 < c then 100 else c)"

text \<open>The loop over the messages, each with the success of what it asks for; \<open>None\<close> does not
  decode, and the end of the list is a failed read.\<close>

fun message_loop :: "(term_input option \<times> bool) list \<Rightarrow> term_act list" where
  "message_loop [] = []"
| "message_loop ((None, _) # _) = []"
| "message_loop ((Some m, good) # ms) =
     (if inType m = ''input'' then Stdin (inData m) # (if good then message_loop ms else [])
      else if inType m = ''resize'' then
        (if 2 \<le> inCols m \<and> inCols m \<le> 500 \<and> 2 \<le> inRows m \<and> inRows m \<le> 500
         then Window (inRows m) (inCols m) # (if good then message_loop ms else [])
         else message_loop ms)
      else if inType m = ''disconnect'' then []
      else SendUnknown # message_loop ms)"

definition session_acts :: "term_net \<Rightarrow> term_input \<Rightarrow> (term_input option \<times> bool) list \<Rightarrow> term_act list" where
  "session_acts tn m ms =
     Pty (pty_rows (inRows m)) (pty_cols (inCols m)) #
       (case tnPty tn of
          Some e \<Rightarrow> [SendError e]
        | None \<Rightarrow>
            if \<not> tnPipes tn then []
            else Shell # (case tnShell tn of Some e \<Rightarrow> [SendError e] | None \<Rightarrow> SendConnected # message_loop ms))"

definition connected_acts :: "term_net \<Rightarrow> term_input \<Rightarrow> (term_input option \<times> bool) list \<Rightarrow> term_act list" where
  "connected_acts tn m ms =
     (case tnSession tn of Some e \<Rightarrow> [SendError e] | None \<Rightarrow> session_acts tn m ms @ [CloseSession])"

definition authenticated :: "string \<Rightarrow> term_input \<Rightarrow> bool" where
  "authenticated token m \<longleftrightarrow> inType m = ''auth'' \<and> inToken m = token"

text \<open>The handler, to its end: what it did, the events of the SSH connection, its deferred closing
  included, and the state it leaves.\<close>

definition terminal ::
  "string \<Rightarrow> string \<Rightarrow> (string \<Rightarrow> db \<Rightarrow> connection res \<times> event list \<times> db) \<Rightarrow> term_net \<Rightarrow> string \<Rightarrow>
   (term_input option \<times> bool) list \<Rightarrow> string \<Rightarrow> request \<Rightarrow> hub \<Rightarrow> db \<Rightarrow> term_act list \<times> event list \<times> hub \<times> db" where
  "terminal origin token dial tn i ms host r h d =
     (if rHeader r ''Origin'' \<noteq> origin then ([RefuseOrigin], [], h, d)
      else if \<not> tnAccept tn then ([], [], h, d)
      else case enter i h of
          None \<Rightarrow> ([RefuseCapacity], [], h, d)
        | Some h1 \<Rightarrow>
            (case tnFirst tn of
               Inl _ \<Rightarrow> ([RefuseLogin], [], leave i h1, d)
             | Inr m \<Rightarrow>
                 if \<not> authenticated token m then ([RefuseLogin], [], leave i h1, d)
                 else (case dial host d of
                     (Inl e, tr, d1) \<Rightarrow> ([TryConnect host, SendError e], tr, leave i h1, d1)
                   | (Inr c, tr, d1) \<Rightarrow>
                       (TryConnect host # connected_acts tn m ms, tr @ snd (conn_Close c), leave i h1, d1))))"

section \<open>Output and keep-alive\<close>

text \<open>\<open>copyOutput\<close>: the reads of a pipe, each with whether it was the last one; the messages sent
  and whether the session is cancelled.\<close>

fun copy_output :: "(string \<Rightarrow> bool) \<Rightarrow> (string \<times> bool) list \<Rightarrow> string list \<times> bool" where
  "copy_output w [] = ([], False)"
| "copy_output w ((b, ended) # rs) =
     (if b \<noteq> [] \<and> \<not> w b then ([], True)
      else case (if ended then ([], False) else copy_output w rs) of
          (out, cancel) \<Rightarrow> (if b = [] then out else b # out, cancel))"

text \<open>A tick of the keep-alive loop: the answer of the probe, if it came within ten seconds.\<close>

definition probe_cancels :: "unit res option \<Rightarrow> bool" where
  "probe_cancels p = (case p of Some (Inr _) \<Rightarrow> False | _ \<Rightarrow> True)"

definition exit_message :: "(err \<Rightarrow> string) \<Rightarrow> err option \<Rightarrow> string" where
  "exit_message msg e = (case e of None \<Rightarrow> ''Session ended'' | Some x \<Rightarrow> msg x)"

section \<open>Facts\<close>

lemma enter_Some:
  "enter i h = Some h' \<longleftrightarrow> \<not> hbClosed h \<and> length (hbOpen h) < max_terminals \<and> h' = h\<lparr>hbOpen := List.insert i (hbOpen h)\<rparr>"
  by (auto simp: enter_def)

lemma hub_step_bounded:
  assumes "distinct (hbOpen h)" "length (hbOpen h) \<le> max_terminals"
  shows "distinct (hbOpen (hub_step a h)) \<and> length (hbOpen (hub_step a h)) \<le> max_terminals"
proof (cases a)
  case (Leave i)
  have "length (removeAll i (hbOpen h)) \<le> max_terminals"
    using assms(2) by (rule order_trans [OF length_removeAll_less_eq])
  with Leave assms(1) show ?thesis by (simp add: leave_def distinct_removeAll)
qed (use assms in \<open>auto simp: close_hub_def enter_Some List.insert_def split: option.splits\<close>)

lemma hub_step_closed:
  assumes "hbClosed h"
  shows "hbClosed (hub_step a h) \<and> set (hbOpen (hub_step a h)) \<subseteq> set (hbOpen h)"
  using assms by (cases a) (auto simp: close_hub_def leave_def enter_def)

lemma leave_enter: "enter i h = Some h' \<Longrightarrow> i \<notin> set (hbOpen h) \<Longrightarrow> leave i h' = h"
  by (auto simp: enter_Some leave_def)

text \<open>What the terminal asks the server for is always a usable size.\<close>

fun sane :: "term_act \<Rightarrow> bool" where
  "sane (Pty r c) \<longleftrightarrow> r \<in> {2..500} \<and> c \<in> {2..500}"
| "sane (Window r c) \<longleftrightarrow> r \<in> {2..500} \<and> c \<in> {2..500}"
| "sane _ \<longleftrightarrow> True"

lemma message_loop_sane: "list_all sane (message_loop ms)"
  by (induction ms rule: message_loop.induct) auto

lemma connected_acts_sane: "list_all sane (connected_acts tn m ms)"
  using message_loop_sane [of ms]
  by (auto simp: connected_acts_def session_acts_def pty_rows_def pty_cols_def split: option.splits)

text \<open>A connection leaves nothing open once it is closed, or if it failed.\<close>

lemma opened_conn_Close [simp]: "opened (snd (conn_Close c)) = []"
  by (simp add: conn_Close_def)

lemma Connect_released:
  assumes "Connect net t signer policy q msg rowid at i d = (r, tr, d')"
  shows "case r of Inl _ \<Rightarrow> closed tr = rev (opened tr) | Inr c \<Rightarrow> closed (tr @ snd (conn_Close c)) = rev (opened tr)"
proof (cases "\<exists>s hs. connect net t signer policy s hs = (r, tr)")
  case False
  with assms have "tr = [] \<and> (\<exists>e. r = Inl e)"
    by (auto simp: Connect_def Let_def split: sum.splits list.splits prod.splits)
  then show ?thesis by auto
next
  case True
  then obtain s hs where c: "connect net t signer policy s hs = (r, tr)" by blast
  show ?thesis
  proof (cases r)
    case (Inl e)
    with connect_loop_trace [OF c [unfolded connect_def]] show ?thesis by auto
  next
    case (Inr x)
    with connect_loop_trace [OF c [unfolded connect_def]] show ?thesis by (auto simp: conn_Close_def)
  qed
qed

lemma Connect_config:
  assumes "Connect net t signer policy q msg rowid at i d = (r, tr, d')"
  shows "config (load d') = config (load d)" "dLocal d' = dLocal d"
  using assms
  by (auto simp: Connect_def Record_def load_def config_def Let_def split: sum.splits list.splits prod.splits if_splits)

text \<open>Output is passed on as it is read, until a write fails.\<close>

lemma copy_output_complete:
  assumes "copy_output w rs = (out, False)" "\<forall>(b, ended) \<in> set (butlast rs). \<not> ended"
  shows "concat out = concat (map fst rs) \<and> list_all (\<lambda>b. b \<noteq> [] \<and> w b) out"
  using assms
proof (induction rs arbitrary: out)
  case (Cons x rs)
  obtain b ended where x: "x = (b, ended)" by (cases x)
  show ?case
  proof (cases "rs = [] \<or> ended")
    case True
    then have "rs = []" using Cons.prems(2) x by (auto split: if_splits)
    with Cons.prems x show ?thesis by (auto split: if_splits prod.splits)
  next
    case False
    then obtain out' where o: "copy_output w rs = (out', False)" "out = (if b = [] then out' else b # out')" "b = [] \<or> w b"
      using Cons.prems(1) x by (auto split: if_splits prod.splits)
    have "\<forall>(b, ended) \<in> set (butlast rs). \<not> ended" using Cons.prems(2) False by (cases rs) auto
    from Cons.IH [OF o(1) this] o x show ?thesis by auto
  qed
qed simp

end
