(* ===== verification/WebFiles.thy ===== *)
theory WebFiles
  imports WebRecords SshImport
begin

text \<open>
  Files the browser can change (internal/web): the editor of the SSH configuration and of
  known_hosts (settingseditor.go), uploads of settings and keys (settingsupload.go, keyupload.go)
  and the file dialog (filepicker.go). Which calls of the operating system succeed is a parameter
  \<open>can\<close>; permissions are not modelled. \<open>kh\<close> tells whether knownhosts reads a text.
\<close>

section \<open>Reading a settings file\<close>

definition max_text :: nat where
  "max_text = 1024 * 1024"

definition settingsText :: "string \<Rightarrow> bool" where
  "settingsText b \<longleftrightarrow> utf8_valid b \<and> CHR 0x00 \<notin> set b \<and> \<not> Contains b ''PRIVATE KEY''"

text \<open>
  The content and its revision: a hash, or a word no hash is for a file that does not exist.
  \<open>seen\<close> tells whether the look at the path fails in no other way than that there is no file.
\<close>

definition readSettingsText :: "bool \<Rightarrow> (string \<Rightarrow> string) \<Rightarrow> fs \<Rightarrow> string \<Rightarrow> (string \<times> string) res" where
  "readSettingsText seen sha fs path =
     (if \<not> seen then Inl (WebErr EditorNotRegular)
      else case fs path of
        None \<Rightarrow> Inr ([], ''missing'')
      | Some f \<Rightarrow>
          if \<not> fRegular f \<or> max_text < fSize f then Inl (WebErr EditorNotRegular)
          else if \<not> fReadOk f then Inl (WebErr EditorUnreadable)
          else let b = take (max_text + 1) (fContent f) in
            if max_text < length b \<or> \<not> settingsText b then Inl (WebErr EditorNotText)
            else Inr (b, EncodeToString (sha b)))"

section \<open>The editor\<close>

record edit_request =
  edKind :: string
  edPath :: string
  edRevision :: string
  edContent :: string

datatype edit_reply = EditText string string string | EditSaved string string | EditConflict | EditFailed err | EditUnknown

datatype file_op = LookAt nat | MakeFolder nat | FolderOk nat | SecureFolder nat | Absolute nat
  | OpenNew nat | WriteNew nat | ChmodNew nat | SyncNew nat | CloseNew nat | RemoveNew nat | RenameNew

definition editor_path :: "os \<Rightarrow> string \<Rightarrow> settings \<Rightarrow> string res" where
  "editor_path os kind g =
     rbind (if kind = ''ssh_config'' then Inr (SSHConfig g)
            else if kind = ''known_hosts'' then Inr (KnownHosts g) else Inl (WebErr EditorKind))
     (Path os)"

text \<open>
  Writing the replacement \<open>tmp\<close> and renaming it; \<open>between\<close> is what others do to the files before
  the second look. A failing write leaves \<open>short\<close> bytes. The deferred removal comes last.
\<close>

definition drop_temp :: "(file_op \<Rightarrow> bool) \<Rightarrow> string \<Rightarrow> fs \<Rightarrow> fs" where
  "drop_temp can tmp fs = (if can (RemoveNew 0) then fs(tmp := None) else fs)"

definition editor_write ::
  "(file_op \<Rightarrow> bool) \<Rightarrow> nat \<Rightarrow> (string \<Rightarrow> string) \<Rightarrow> (string \<Rightarrow> bool) \<Rightarrow> (fs \<Rightarrow> fs) \<Rightarrow> string \<Rightarrow> string \<Rightarrow> edit_request \<Rightarrow>
   string \<Rightarrow> fs \<Rightarrow> edit_reply \<times> fs" where
  "editor_write can short sha kh between tmp path req revision fs =
     (if \<not> can (OpenNew 0) then (EditFailed (WebErr EditorCreate), fs)
      else let b = edContent req; fs1 = fs(tmp \<mapsto> file_of (if can (WriteNew 0) then b else take short b)) in
        if \<not> (can (WriteNew 0) \<and> can (ChmodNew 0) \<and> can (SyncNew 0)) \<or> \<not> can (CloseNew 0)
        then (EditFailed (WebErr EditorWrite), drop_temp can tmp fs1)
        else if edKind req = ''known_hosts'' \<and> \<not> kh b
        then (EditFailed (WebErr HostsFormat), drop_temp can tmp fs1)
        else let fs2 = between fs1 in
          (case readSettingsText (can (LookAt 1)) sha fs2 path of
             Inl _ \<Rightarrow> (EditConflict, drop_temp can tmp fs2)
           | Inr (_, latest) \<Rightarrow>
               if latest \<noteq> revision then (EditConflict, drop_temp can tmp fs2)
               else if \<not> can RenameNew then (EditFailed (WebErr EditorReplace), drop_temp can tmp fs2)
               else (EditSaved path (EncodeToString (sha b)), fs2(path := fs2 tmp, tmp := None))))"

definition settingsEditor ::
  "(stmt \<Rightarrow> bool) \<Rightarrow> os \<Rightarrow> (nat \<Rightarrow> nat) \<Rightarrow> (file_op \<Rightarrow> bool) \<Rightarrow> nat \<Rightarrow> (string \<Rightarrow> string) \<Rightarrow> (string \<Rightarrow> bool) \<Rightarrow> (fs \<Rightarrow> fs) \<Rightarrow>
   string \<Rightarrow> string \<Rightarrow> edit_request res \<Rightarrow> db \<Rightarrow> fs \<Rightarrow> edit_reply \<times> fs" where
  "settingsEditor q os ul can short sha kh between tmp action request d fs =
     (case rbind request (\<lambda>req. rbind (Snapshot q d) (\<lambda>s. rbind (editor_path os (edKind req) (Settings s))
        (\<lambda>p. rbind (readSettingsText (can (LookAt 0)) sha fs p) (\<lambda>cr. Inr (req, p, cr))))) of
        Inl e \<Rightarrow> (EditFailed e, fs)
      | Inr (req, path, content, revision) \<Rightarrow>
          if action = ''read'' then (EditText path content revision, fs)
          else if action \<noteq> ''save'' then (EditUnknown, fs)
          else if edPath req \<noteq> path \<or> edRevision req \<noteq> revision then (EditConflict, fs)
          else if max_text < length (edContent req) \<or> \<not> settingsText (edContent req)
          then (EditFailed (WebErr EditorContent), fs)
          else if edKind req = ''ssh_config'' \<and> \<not> ok (Parse ul (edContent req))
          then (EditFailed (WebErr ConfigFormat), fs)
          else editor_write can short sha kh between tmp path req revision fs)"

section \<open>New files\<close>

definition open_folder :: "(file_op \<Rightarrow> bool) \<Rightarrow> nat \<Rightarrow> unit res" where
  "open_folder can i =
     rbind (check (can (MakeFolder i)) (WebErr UploadFolder))
     (\<lambda>_. rbind (check (can (FolderOk i)) (WebErr UploadFolderBad))
     (\<lambda>_. rbind (check (can (SecureFolder i)) (WebErr UploadFolderAccess))
     (\<lambda>_. check (can (Absolute i)) (Ext ''path''))))"

text \<open>A file that must not exist yet; the second result tells whether it was created.\<close>

definition create_file :: "(file_op \<Rightarrow> bool) \<Rightarrow> nat \<Rightarrow> nat \<Rightarrow> string \<Rightarrow> string \<Rightarrow> fs \<Rightarrow> unit res \<times> bool \<times> fs" where
  "create_file can short i path b fs =
     (if \<not> can (OpenNew i) \<or> fs path \<noteq> None then (Inl (WebErr UploadSave), False, fs)
      else (check (can (WriteNew i) \<and> can (SyncNew i) \<and> can (CloseNew i)) (WebErr UploadSave), True,
            fs(path \<mapsto> file_of (if can (WriteNew i) then b else take short b))))"

definition remove_new :: "(file_op \<Rightarrow> bool) \<Rightarrow> (nat \<times> string) list \<Rightarrow> fs \<Rightarrow> fs" where
  "remove_new can created fs = fold (\<lambda>(i, p) fs. if can (RemoveNew i) then fs(p := None) else fs) created fs"

section \<open>Uploading a key\<close>

definition new_key :: "(nat \<Rightarrow> string) \<Rightarrow> string \<Rightarrow> string \<Rightarrow> string \<Rightarrow> state \<Rightarrow> state res" where
  "new_key new i name path s =
     rbind (Replace (Keys s) i \<lparr>kID = (if i = [] then new 1 else i), kName = name, kPath = path\<rparr> kID)
     (\<lambda>ks. Inr (s\<lparr>Keys := ks\<rparr>))"

definition uploadKey ::
  "(string \<Rightarrow> url option) \<Rightarrow> (stmt \<Rightarrow> bool) \<Rightarrow> os \<Rightarrow> (string \<Rightarrow> 's key_parse) \<Rightarrow> (file_op \<Rightarrow> bool) \<Rightarrow> nat \<Rightarrow> (nat \<Rightarrow> string) \<Rightarrow>
   string \<Rightarrow> (string \<times> string \<times> string) res \<Rightarrow> db \<Rightarrow> fs \<Rightarrow> unit res \<times> db \<times> fs" where
  "uploadKey up q os pk can short new dir request d fs =
     (case rbind request (\<lambda>(i, name, b). rbind (check (b \<noteq> [] \<and> length b \<le> max_text) (WebErr UploadSize))
        (\<lambda>_. rbind (open_folder can 0) (\<lambda>_. Inr (i, name, b)))) of
        Inl e \<Rightarrow> (Inl e, d, fs)
      | Inr (i, name, b) \<Rightarrow>
          let path = os_Join os (os_Join os dir ''uploaded-keys'') (new 0) in
          (case create_file can short 0 path b fs of
             (r, created, fs1) \<Rightarrow>
               let undone = (if created then remove_new can [(0, path)] fs1 else fs1) in
               (case rbind r (\<lambda>_. key_Validate os fs1 pk path) of
                  Inl e \<Rightarrow> (Inl e, d, undone)
                | Inr _ \<Rightarrow>
                    (case Update up q (new_key new i name path) d of
                       (Inl e, d1) \<Rightarrow> (Inl e, d1, undone)
                     | (Inr _, d1) \<Rightarrow> (Inr (), d1, fs1)))))"

section \<open>Uploading settings\<close>

text \<open>One of the two files: nothing uploaded keeps the path, an upload becomes a new file.\<close>

definition save_upload ::
  "os \<Rightarrow> (nat \<Rightarrow> nat) \<Rightarrow> (string \<Rightarrow> bool) \<Rightarrow> (file_op \<Rightarrow> bool) \<Rightarrow> nat \<Rightarrow> string \<Rightarrow> nat \<Rightarrow> string \<Rightarrow> string option \<Rightarrow> string \<Rightarrow> bool \<Rightarrow>
   fs \<times> (nat \<times> string) list \<Rightarrow> string res \<times> fs \<times> (nat \<times> string) list" where
  "save_upload os ul kh can short dir i name content current is_config w =
     (case content of
        None \<Rightarrow> (Path os current, w)
      | Some b \<Rightarrow>
          (case rbind (check (b \<noteq> []) (WebErr UploadEmpty))
             (\<lambda>_. rbind (check (is_config \<longrightarrow> ok (Parse ul b)) (WebErr ConfigFormat))
             (\<lambda>_. open_folder can i)) of
             Inl e \<Rightarrow> (Inl e, w)
           | Inr _ \<Rightarrow>
               let path = os_Join os (os_Join os dir ''uploaded-settings'') name in
               (case create_file can short i path b (fst w) of
                  (r, created, fs1) \<Rightarrow>
                    (rbind r (\<lambda>_. rbind (check (is_config \<or> kh b) (WebErr HostsFormat)) (\<lambda>_. Inr path)),
                     fs1, if created then snd w @ [(i, path)] else snd w))))"

record settings_upload =
  upSettings :: settings
  upConfig :: "string option"
  upHosts :: "string option"

definition upload_size :: "settings_upload \<Rightarrow> nat" where
  "upload_size u = (case upConfig u of None \<Rightarrow> 0 | Some b \<Rightarrow> length b) + (case upHosts u of None \<Rightarrow> 0 | Some b \<Rightarrow> length b)"

definition uploadSettings ::
  "(string \<Rightarrow> url option) \<Rightarrow> (stmt \<Rightarrow> bool) \<Rightarrow> os \<Rightarrow> (nat \<Rightarrow> nat) \<Rightarrow> (string \<Rightarrow> bool) \<Rightarrow> (file_op \<Rightarrow> bool) \<Rightarrow> nat \<Rightarrow> (nat \<Rightarrow> string) \<Rightarrow>
   string \<Rightarrow> settings_upload res \<Rightarrow> db \<Rightarrow> fs \<Rightarrow> settings res \<times> db \<times> fs" where
  "uploadSettings up q os ul kh can short new dir request d fs =
     (case rbind request (\<lambda>u. rbind (check (0 < upload_size u \<and> upload_size u \<le> max_text) (WebErr UploadSize)) (\<lambda>_. Inr u)) of
        Inl e \<Rightarrow> (Inl e, d, fs)
      | Inr u \<Rightarrow>
          (case save_upload os ul kh can short dir 0 (new 0) (upConfig u) (SSHConfig (upSettings u)) True (fs, []) of
             (Inl e, fs1, created) \<Rightarrow> (Inl e, d, remove_new can created fs1)
           | (Inr c, w) \<Rightarrow>
               (case save_upload os ul kh can short dir 1 (new 1) (upHosts u) (KnownHosts (upSettings u)) False w of
                  (Inl e, fs1, created) \<Rightarrow> (Inl e, d, remove_new can created fs1)
                | (Inr k, fs1, created) \<Rightarrow>
                    let g = \<lparr>KnownHosts = k, SSHConfig = c\<rparr> in
                    (case Update up q (\<lambda>s. Inr (s\<lparr>Settings := g\<rparr>)) d of
                       (Inl e, d1) \<Rightarrow> (Inl e, d1, remove_new can created fs1)
                     | (Inr _, d1) \<Rightarrow> (Inr g, d1, fs1)))))"

section \<open>The file dialog\<close>

datatype pick_reply = PickBusy | PickFailed err | Picked string bool

text \<open>One dialog at a time; an empty path is a cancelled dialog.\<close>

definition pickKeyFile :: "bool \<Rightarrow> string res \<Rightarrow> pick_reply" where
  "pickKeyFile open_already pick =
     (if open_already then PickBusy
      else case pick of Inl e \<Rightarrow> PickFailed e | Inr p \<Rightarrow> Picked p (p = []))"

section \<open>Facts\<close>

lemma readSettingsText_seen:
  "readSettingsText seen sha fs path = Inr x \<Longrightarrow> readSettingsText True sha fs path = Inr x"
  by (simp add: readSettingsText_def split: if_splits)

text \<open>
  The files a request has created: file \<open>i\<close> is \<open>place i\<close> and was not there in \<open>fs\<close>. Once they are
  removed again nothing is left of the request but those the operating system refused to remove.
\<close>

definition fresh_files :: "(nat \<Rightarrow> string) \<Rightarrow> fs \<Rightarrow> fs \<times> (nat \<times> string) list \<Rightarrow> bool" where
  "fresh_files place fs w \<longleftrightarrow> (\<forall>p. p \<notin> snd ` set (snd w) \<longrightarrow> fst w p = fs p)
     \<and> (\<forall>(i, p) \<in> set (snd w). p = place i \<and> fs p = None)"

definition refused :: "(file_op \<Rightarrow> bool) \<Rightarrow> (nat \<Rightarrow> string) \<Rightarrow> string \<Rightarrow> bool" where
  "refused can place p \<longleftrightarrow> (\<exists>i. p = place i \<and> \<not> can (RemoveNew i))"

definition uploaded :: "os \<Rightarrow> string \<Rightarrow> string \<Rightarrow> (nat \<Rightarrow> string) \<Rightarrow> nat \<Rightarrow> string" where
  "uploaded os dir folder new i = os_Join os (os_Join os dir folder) (new i)"

definition undone :: "(file_op \<Rightarrow> bool) \<Rightarrow> (nat \<Rightarrow> string) \<Rightarrow> fs \<Rightarrow> fs \<Rightarrow> bool" where
  "undone can place fs fs' \<longleftrightarrow> (\<forall>p. fs' p = fs p \<or> fs p = None \<and> refused can place p)"

lemma undone_refl [simp]: "undone can place fs fs"
  by (simp add: undone_def)

lemma create_file_fresh:
  assumes "create_file can short i (place i) b fs1 = (r, created, fs2)" "fresh_files place fs (fs1, l)"
  shows "fresh_files place fs (fs2, if created then l @ [(i, place i)] else l)"
proof -
  have "fs (place i) = None" if "fs1 (place i) = None"
    using assms(2) that by (cases "place i \<in> snd ` set l") (auto simp: fresh_files_def)
  with assms show ?thesis by (auto simp: create_file_def fresh_files_def split: if_splits)
qed

lemma remove_new_fs:
  "remove_new can l fs p = (if \<exists>i. (i, p) \<in> set l \<and> can (RemoveNew i) then None else fs p)"
  unfolding remove_new_def by (induction l arbitrary: fs) auto

lemma remove_fresh:
  assumes "fresh_files place fs (fs1, l)"
  shows "undone can place fs (remove_new can l fs1)"
  unfolding undone_def
proof
  fix p
  show "remove_new can l fs1 p = fs p \<or> fs p = None \<and> refused can place p"
  proof (cases "p \<in> snd ` set l")
    case True
    then obtain i where i: "(i, p) \<in> set l" by auto
    with assms have "p = place i" "fs p = None" by (auto simp: fresh_files_def)
    with i show ?thesis by (auto simp: remove_new_fs refused_def)
  next
    case False
    then have "(i, p) \<notin> set l" for i by force
    with False assms show ?thesis by (simp add: remove_new_fs fresh_files_def)
  qed
qed

lemma save_upload_fresh:
  assumes "save_upload os ul kh can short dir i (new i) content current is_config w = (r, w')"
    and "fresh_files (uploaded os dir ''uploaded-settings'' new) fs w"
  shows "fresh_files (uploaded os dir ''uploaded-settings'' new) fs w'"
proof (cases content)
  case None
  with assms show ?thesis by (simp add: save_upload_def)
next
  case (Some b)
  show ?thesis
  proof (cases "rbind (check (b \<noteq> []) (WebErr UploadEmpty))
      (\<lambda>_. rbind (check (is_config \<longrightarrow> ok (Parse ul b)) (WebErr ConfigFormat)) (\<lambda>_. open_folder can i))")
    case (Inl e)
    with Some assms show ?thesis by (simp add: save_upload_def)
  next
    case (Inr u)
    let ?path = "uploaded os dir ''uploaded-settings'' new i"
    obtain r' created fs1 where c: "create_file can short i ?path b (fst w) = (r', created, fs1)"
      by (cases "create_file can short i ?path b (fst w)") auto
    with create_file_fresh [where place = "uploaded os dir ''uploaded-settings'' new", OF c, of fs "snd w"] Some Inr assms show ?thesis
      by (auto simp: save_upload_def uploaded_def Let_def simp del: rbind_eq_Inr)
  qed
qed

lemma fresh_files_Nil: "fresh_files place fs (fs, [])"
  by (simp add: fresh_files_def)

lemma uploadKey_failed:
  assumes "uploadKey up q os pk can short new dir request d fs = (Inl e, d', fs')"
  shows "d' = d \<and> undone can (uploaded os dir ''uploaded-keys'' new) fs fs'"
proof (cases "rbind request (\<lambda>(i, name, b). rbind (check (b \<noteq> [] \<and> length b \<le> max_text) (WebErr UploadSize))
        (\<lambda>_. rbind (open_folder can 0) (\<lambda>_. Inr (i, name, b))))")
  case (Inl x)
  with assms(1) show ?thesis by (simp add: uploadKey_def)
next
  case (Inr a)
  obtain i name b where a: "a = (i, name, b)" by (cases a)
  let ?place = "uploaded os dir ''uploaded-keys'' new"
  let ?path = "?place 0"
  note path = uploaded_def [of os dir "''uploaded-keys''" new 0, symmetric]
  obtain r created fs1 where c: "create_file can short 0 ?path b fs = (r, created, fs1)"
    by (cases "create_file can short 0 ?path b fs") auto
  let ?undone = "if created then remove_new can [(0, ?path)] fs1 else fs1"
  have undone: "undone can ?place fs ?undone"
  proof (cases created)
    case True
    with remove_fresh [of ?place fs fs1 "[(0, ?path)]" can] create_file_fresh [where place = ?place, OF c fresh_files_Nil] show ?thesis by simp
  next
    case False
    with c show ?thesis by (simp add: create_file_def split: if_splits)
  qed
  show ?thesis
  proof (cases "rbind r (\<lambda>_. key_Validate os fs1 pk ?path)")
    case bad: (Inl x)
    from assms(1) Inr a c bad undone show ?thesis by (simp add: uploadKey_def Let_def path)
  next
    case v: (Inr u)
    obtain x d1 where x: "Update up q (new_key new i name ?path) d = (x, d1)" by fastforce
    show ?thesis
    proof (cases x)
      case bad: (Inl y)
      with Update_Inl x have "d1 = d" by blast
      with assms(1) Inr a c v x bad undone show ?thesis by (simp add: uploadKey_def Let_def path)
    next
      case good: (Inr y)
      from assms(1) Inr a c v x good show ?thesis by (simp add: uploadKey_def Let_def path)
    qed
  qed
qed

lemma uploadSettings_failed:
  assumes "uploadSettings up q os ul kh can short new dir request d fs = (Inl e, d', fs')"
  shows "d' = d \<and> undone can (uploaded os dir ''uploaded-settings'' new) fs fs'"
proof (cases "rbind request (\<lambda>u. rbind (check (0 < upload_size u \<and> upload_size u \<le> max_text) (WebErr UploadSize)) (\<lambda>_. Inr u))")
  case (Inl x)
  with assms(1) show ?thesis by (simp add: uploadSettings_def)
next
  case u: (Inr u)
  let ?first = "save_upload os ul kh can short dir 0 (new 0) (upConfig u) (SSHConfig (upSettings u)) True (fs, [])"
  obtain r1 fs1 l1 where one: "?first = (r1, fs1, l1)" by (cases ?first) auto
  have f1: "fresh_files (uploaded os dir ''uploaded-settings'' new) fs (fs1, l1)"
    by (rule save_upload_fresh [where new = new, OF one fresh_files_Nil])
  show ?thesis
  proof (cases r1)
    case (Inl x)
    with assms(1) u one remove_fresh [OF f1, of can] show ?thesis by (simp add: uploadSettings_def)
  next
    case c: (Inr c)
    let ?second = "save_upload os ul kh can short dir 1 (new 1) (upHosts u) (KnownHosts (upSettings u)) False (fs1, l1)"
    obtain r2 fs2 l2 where two: "?second = (r2, fs2, l2)" by (cases ?second) auto
    note gone = remove_fresh [OF save_upload_fresh [where new = new, OF two f1], of can]
    show ?thesis
    proof (cases r2)
      case (Inl x)
      with assms(1) u one c two gone show ?thesis by (simp add: uploadSettings_def)
    next
      case k: (Inr k)
      obtain x d1 where x: "Update up q (\<lambda>s. Inr (s\<lparr>Settings := \<lparr>KnownHosts = k, SSHConfig = c\<rparr>\<rparr>)) d = (x, d1)" by fastforce
      show ?thesis
      proof (cases x)
        case (Inl y)
        with Update_Inl x have "d1 = d" by blast
        with assms(1) u one c two k x Inl gone show ?thesis by (simp add: uploadSettings_def Let_def)
      next
        case (Inr y)
        with assms(1) u one c two k x show ?thesis by (simp add: uploadSettings_def Let_def)
      qed
    qed
  qed
qed

lemma editor_write_failed:
  assumes "editor_write can short sha kh id tmp path req revision fs = (r, fs')" "\<And>p v. r \<noteq> EditSaved p v"
    and "fs tmp = None"
  shows "undone can (\<lambda>_. tmp) fs fs'"
proof -
  have "undone can (\<lambda>_. tmp) fs (drop_temp can tmp (fs(tmp \<mapsto> x)))" for x
    using assms(3) by (auto simp: drop_temp_def undone_def refused_def)
  with assms(1,2) show ?thesis
    by (auto simp: editor_write_def Let_def split: if_splits sum.splits prod.splits)
qed

lemma settingsEditor_failed:
  assumes "settingsEditor q os ul can short sha kh id tmp action request d fs = (r, fs')" "\<And>p v. r \<noteq> EditSaved p v"
    and "fs tmp = None"
  shows "undone can (\<lambda>_. tmp) fs fs'"
proof (cases "rbind request (\<lambda>req. rbind (Snapshot q d) (\<lambda>s. rbind (editor_path os (edKind req) (Settings s))
        (\<lambda>p. rbind (readSettingsText (can (LookAt 0)) sha fs p) (\<lambda>cr. Inr (req, p, cr)))))")
  case (Inl e)
  with assms(1) show ?thesis by (simp add: settingsEditor_def)
next
  case (Inr a)
  obtain req path content revision where a: "a = (req, path, content, revision)" by (cases a)
  show ?thesis
  proof (cases "editor_write can short sha kh id tmp path req revision fs = (r, fs')")
    case True
    from editor_write_failed [OF True assms(2) assms(3)] show ?thesis .
  next
    case False
    with assms(1) Inr a show ?thesis by (simp add: settingsEditor_def split: if_splits)
  qed
qed

end
