(* ===== verification/MacExport.thy ===== *)
theory MacExport
  imports TeamBundle
begin

text \<open>
  internal/provision/macos.go: the macOS package, an OpenSSH configuration with a guide, an
  installer and the keys, as an archive. encoding/json, SHA-256, archive/zip and Unicode's table
  of printable runes are parameters; the texts of the files are spelled out byte by byte.
\<close>

section \<open>Strings\<close>

definition quoted :: "string \<Rightarrow> string" where
  "quoted s = [CHR 0x22] @ s @ [CHR 0x22]"

definition line :: "string \<Rightarrow> string" where
  "line s = s @ [CHR 0x0A]"

definition shellQuote :: "string \<Rightarrow> string" where
  "shellQuote s = [CHR 0x27] @ ReplaceByte (CHR 0x27) [CHR 0x27, CHR 0x22, CHR 0x27, CHR 0x22, CHR 0x27] s @ [CHR 0x27]"

definition comment :: "string \<Rightarrow> string" where
  "comment s = concat (map (\<lambda>c. if c = CHR 0x0D \<or> c = CHR 0x0A then '' '' else if c = CHR 0x00 then [] else [c]) s)"

text \<open>\<open>strconv.Quote\<close>; \<open>ip\<close> tells the printable runes above ASCII.\<close>

definition is_print :: "(nat \<Rightarrow> bool) \<Rightarrow> nat \<Rightarrow> bool" where
  "is_print ip r \<longleftrightarrow> (if r < 128 then 32 \<le> r \<and> r < 127 else ip r)"

definition hex_bytes :: "nat \<Rightarrow> nat \<Rightarrow> string" where
  "hex_bytes n r = map (\<lambda>i. hex_digit (r div 16 ^ (n - 1 - i) mod 16)) [0..<n]"

definition escape_rune :: "(nat \<Rightarrow> bool) \<Rightarrow> nat \<times> string \<Rightarrow> string" where
  "escape_rune ip rb =
     (let (r, b) = rb in
      if r = 65533 \<and> length b = 1 then [CHR 0x5C] @ ''x'' @ hex_bytes 2 (of_char (hd b))
      else if r = 34 \<or> r = 92 then [CHR 0x5C] @ b
      else if is_print ip r then b
      else if r = 7 then [CHR 0x5C] @ ''a''
      else if r = 8 then [CHR 0x5C] @ ''b''
      else if r = 12 then [CHR 0x5C] @ ''f''
      else if r = 10 then [CHR 0x5C] @ ''n''
      else if r = 13 then [CHR 0x5C] @ ''r''
      else if r = 9 then [CHR 0x5C] @ ''t''
      else if r = 11 then [CHR 0x5C] @ ''v''
      else if r < 32 \<or> r = 127 then [CHR 0x5C] @ ''x'' @ hex_bytes 2 r
      else if r < 65536 then [CHR 0x5C] @ ''u'' @ hex_bytes 4 r
      else [CHR 0x5C] @ ''U'' @ hex_bytes 8 r)"

definition Quote :: "(nat \<Rightarrow> bool) \<Rightarrow> string \<Rightarrow> string" where
  "Quote ip s = quoted (concat (map (escape_rune ip) (rune_chunks s)))"

text \<open>\<open>%02d\<close>.\<close>

definition two_digits :: "nat \<Rightarrow> string" where
  "two_digits n = (if n < 10 then ''0'' else []) @ nat_digits n"

section \<open>The fixed texts\<close>

definition config_intro :: string where
  "config_intro = map (char_of :: nat \<Rightarrow> char) [
     35, 32, 83, 83, 72, 68, 101, 115, 107, 32, 109, 97, 99, 79, 83, 32, 79, 112, 101, 110, 83, 83, 72, 32, 99, 111,
     110, 102, 105, 103, 117, 114, 97, 116, 105, 111, 110, 10, 35, 32, 85, 115, 101, 32, 119, 105, 116, 104, 32, 115,
     115, 104, 32, 45, 70, 59, 32, 101, 120, 105, 115, 116, 105, 110, 103, 32, 126, 47, 46, 115, 115, 104, 47, 99,
     111, 110, 102, 105, 103, 32, 105, 115, 32, 112, 114, 101, 115, 101, 114, 118, 101, 100, 46, 10, 10]"

definition guide_intro :: string where
  "guide_intro = map (char_of :: nat \<Rightarrow> char) [
     83, 83, 72, 68, 101, 115, 107, 32, 109, 97, 99, 79, 83, 32, 236, 132, 164, 236, 160, 149, 32, 236, 149, 136,
     235, 130, 180, 10, 10, 49, 46, 32, 90, 73, 80, 32, 237, 140, 140, 236, 157, 188, 236, 157, 132, 32, 237, 146,
     128, 234, 179, 160, 32, 115, 115, 104, 100, 101, 115, 107, 45, 109, 97, 99, 111, 115, 32, 237, 143, 180, 235,
     141, 148, 235, 165, 188, 32, 236, 151, 189, 235, 139, 136, 235, 139, 164, 46, 10, 50, 46, 32, 237, 132, 176,
     235, 175, 184, 235, 132, 144, 236, 151, 144, 236, 132, 156, 32, 237, 149, 180, 235, 139, 185, 32, 237, 143, 180,
     235, 141, 148, 235, 161, 156, 32, 236, 157, 180, 235, 143, 153, 237, 149, 156, 32, 235, 146, 164, 32, 236, 139,
     164, 237, 150, 137, 237, 149, 169, 235, 139, 136, 235, 139, 164, 58, 10, 32, 32, 32, 98, 97, 115, 104, 32, 105,
     110, 115, 116, 97, 108, 108, 46, 99, 111, 109, 109, 97, 110, 100, 10, 51, 46, 32, 236, 149, 132, 235, 158, 152,
     32, 236, 151, 176, 234, 178, 176, 32, 235, 170, 133, 235, 160, 185, 236, 157, 132, 32, 235, 179, 181, 236, 130,
     172, 237, 149, 180, 32, 236, 130, 172, 236, 154, 169, 237, 149, 152, 236, 132, 184, 236, 154, 148, 46, 10, 10,
     236, 132, 164, 236, 185, 152, 32, 236, 156, 132, 236, 185, 152, 58, 32]"

definition guide_intro_end :: string where
  "guide_intro_end = map (char_of :: nat \<Rightarrow> char) [
     10, 234, 184, 176, 236, 161, 180, 32, 126, 47, 46, 115, 115, 104, 47, 99, 111, 110, 102, 105, 103, 236, 153,
     128, 32, 107, 110, 111, 119, 110, 95, 104, 111, 115, 116, 115, 235, 138, 148, 32, 235, 179, 128, 234, 178, 189,
     237, 149, 152, 236, 167, 128, 32, 236, 149, 138, 236, 138, 181, 235, 139, 136, 235, 139, 164, 46, 32, 236, 132,
     164, 236, 185, 152, 235, 138, 148, 32, 83, 83, 72, 236, 151, 144, 32, 236, 160, 145, 236, 134, 141, 237, 149,
     152, 236, 167, 128, 32, 236, 149, 138, 236, 138, 181, 235, 139, 136, 235, 139, 164, 46, 10, 236, 132, 156, 235,
     178, 132, 236, 157, 152, 32, 236, 178, 152, 236, 157, 140, 32, 236, 160, 145, 236, 134, 141, 32, 236, 167, 128,
     235, 172, 184, 236, 157, 128, 32, 234, 180, 128, 235, 166, 172, 236, 158, 144, 236, 151, 144, 234, 178, 140, 32,
     237, 153, 149, 236, 157, 184, 237, 149, 152, 236, 132, 184, 236, 154, 148, 46, 32, 236, 158, 144, 235, 143, 153,
     32, 236, 139, 160, 235, 162, 176, 237, 149, 152, 236, 167, 128, 32, 236, 149, 138, 236, 138, 181, 235, 139, 136,
     235, 139, 164, 46, 10, 10]"

definition guide_with_keys :: string where
  "guide_with_keys = map (char_of :: nat \<Rightarrow> char) [
     236, 157, 180, 32, 90, 73, 80, 236, 151, 144, 235, 138, 148, 32, 236, 132, 160, 237, 131, 157, 237, 149, 156,
     32, 234, 176, 156, 236, 157, 184, 32, 237, 130, 164, 234, 176, 128, 32, 237, 143, 172, 237, 149, 168, 235, 144,
     169, 235, 139, 136, 235, 139, 164, 46, 32, 237, 140, 128, 32, 236, 153, 184, 235, 182, 128, 235, 130, 152, 32,
     234, 179, 181, 234, 176, 156, 32, 236, 160, 128, 236, 158, 165, 236, 134, 140, 236, 151, 144, 32, 236, 160, 132,
     235, 139, 172, 237, 149, 152, 236, 167, 128, 32, 235, 167, 136, 236, 132, 184, 236, 154, 148, 46, 10, 10]"

definition guide_without_keys :: string where
  "guide_without_keys = map (char_of :: nat \<Rightarrow> char) [
     234, 176, 156, 236, 157, 184, 32, 237, 130, 164, 235, 138, 148, 32, 237, 143, 172, 237, 149, 168, 235, 144, 152,
     236, 167, 128, 32, 236, 149, 138, 236, 149, 152, 236, 138, 181, 235, 139, 136, 235, 139, 164, 46, 32, 236, 149,
     132, 235, 158, 152, 32, 237, 140, 140, 236, 157, 188, 235, 170, 133, 236, 156, 188, 235, 161, 156, 32, 235, 179,
     184, 236, 157, 184, 236, 157, 152, 32, 237, 130, 164, 235, 165, 188, 32, 107, 101, 121, 115, 32, 237, 143, 180,
     235, 141, 148, 236, 151, 144, 32, 235, 132, 163, 236, 157, 128, 32, 235, 139, 164, 236, 157, 140, 32, 236, 132,
     164, 236, 185, 152, 237, 149, 152, 236, 132, 184, 236, 154, 148, 46, 10, 10]"

definition guide_hosts :: string where
  "guide_hosts = map (char_of :: nat \<Rightarrow> char) [
     10, 83, 83, 72, 32, 236, 160, 145, 236, 134, 141, 32, 235, 170, 133, 235, 160, 185, 10]"

definition guide_tunnels :: string where
  "guide_tunnels = map (char_of :: nat \<Rightarrow> char) [
     10, 237, 132, 176, 235, 132, 144, 32, 236, 139, 156, 236, 158, 145, 32, 235, 170, 133, 235, 160, 185, 32, 40,
     236, 162, 133, 235, 163, 140, 58, 32, 67, 116, 114, 108, 43, 67, 44, 32, 236, 158, 144, 235, 143, 153, 32, 236,
     158, 172, 236, 151, 176, 234, 178, 176, 236, 157, 128, 32, 236, 160, 156, 234, 179, 181, 237, 149, 152, 236,
     167, 128, 32, 236, 149, 138, 236, 138, 181, 235, 139, 136, 235, 139, 164, 41, 10]"

definition guide_key :: string where
  "guide_key = map (char_of :: nat \<Rightarrow> char) [
     237, 130, 164, 58, 32]"

definition guide_key_to :: string where
  "guide_key_to = map (char_of :: nat \<Rightarrow> char) [
     32, 226, 134, 146, 32, 107, 101, 121, 115, 47]"

definition guide_fingerprint :: string where
  "guide_fingerprint = map (char_of :: nat \<Rightarrow> char) [
     237, 153, 149, 236, 157, 184, 237, 149, 160, 32, 236, 132, 156, 235, 178, 132, 32, 236, 167, 128, 235, 172, 184,
     58, 32]"

definition guide_service :: string where
  "guide_service = map (char_of :: nat \<Rightarrow> char) [
     35, 32, 237, 132, 176, 235, 132, 144, 32, 236, 151, 176, 234, 178, 176, 32, 237, 155, 132, 32, 235, 179, 132,
     235, 143, 132, 32, 237, 132, 176, 235, 175, 184, 235, 132, 144, 236, 151, 144, 236, 132, 156, 32]"

definition guide_service_open :: string where
  "guide_service_open = map (char_of :: nat \<Rightarrow> char) [
     32, 236, 151, 180, 234, 184, 176, 10, 111, 112, 101, 110, 32]"

definition install_intro :: string where
  "install_intro = map (char_of :: nat \<Rightarrow> char) [
     35, 33, 47, 98, 105, 110, 47, 98, 97, 115, 104, 10, 115, 101, 116, 32, 45, 101, 117, 10, 117, 109, 97, 115, 107,
     32, 48, 55, 55, 10, 115, 111, 117, 114, 99, 101, 95, 100, 105, 114, 61, 34, 36, 40, 99, 100, 32, 45, 45, 32, 34,
     36, 40, 100, 105, 114, 110, 97, 109, 101, 32, 45, 45, 32, 34, 36, 48, 34, 41, 34, 32, 38, 38, 32, 112, 119, 100,
     41, 34, 10]"

definition install_link :: string where
  "install_link = map (char_of :: nat \<Rightarrow> char) [
     105, 102, 32, 91, 32, 45, 76, 32, 34, 36, 116, 97, 114, 103, 101, 116, 34, 32, 93, 59, 32, 116, 104, 101, 110,
     32, 101, 99, 104, 111, 32, 39, 236, 132, 164, 236, 185, 152, 32, 234, 178, 189, 235, 161, 156, 234, 176, 128,
     32, 236, 139, 172, 235, 179, 188, 235, 166, 173, 32, 235, 167, 129, 237, 129, 172, 236, 158, 133, 235, 139, 136,
     235, 139, 164, 46, 32, 236, 164, 145, 235, 139, 168, 237, 149, 169, 235, 139, 136, 235, 139, 164, 46, 39, 59,
     32, 101, 120, 105, 116, 32, 49, 59, 32, 102, 105, 10]"

definition install_config :: string where
  "install_config = map (char_of :: nat \<Rightarrow> char) [
     105, 102, 32, 91, 32, 45, 101, 32, 34, 36, 116, 97, 114, 103, 101, 116, 47, 99, 111, 110, 102, 105, 103, 34, 32,
     93, 32, 38, 38, 32, 33, 32, 99, 109, 112, 32, 45, 115, 32, 34, 36, 115, 111, 117, 114, 99, 101, 95, 100, 105,
     114, 47, 115, 115, 104, 95, 99, 111, 110, 102, 105, 103, 34, 32, 34, 36, 116, 97, 114, 103, 101, 116, 47, 99,
     111, 110, 102, 105, 103, 34, 59, 32, 116, 104, 101, 110, 32, 101, 99, 104, 111, 32, 39, 234, 184, 176, 236, 161,
     180, 32, 236, 132, 164, 236, 160, 149, 234, 179, 188, 32, 236, 182, 169, 235, 143, 140, 237, 149, 169, 235, 139,
     136, 235, 139, 164, 46, 39, 59, 32, 101, 120, 105, 116, 32, 49, 59, 32, 102, 105, 10]"

definition install_copy :: string where
  "install_copy = map (char_of :: nat \<Rightarrow> char) [
     109, 107, 100, 105, 114, 32, 45, 112, 32, 34, 36, 116, 97, 114, 103, 101, 116, 34, 10, 99, 104, 109, 111, 100,
     32, 55, 48, 48, 32, 34, 36, 72, 79, 77, 69, 47, 46, 115, 115, 104, 34, 32, 34, 36, 72, 79, 77, 69, 47, 46, 115,
     115, 104, 47, 115, 115, 104, 100, 101, 115, 107, 34, 32, 34, 36, 116, 97, 114, 103, 101, 116, 34, 10, 105, 102,
     32, 91, 32, 33, 32, 45, 101, 32, 34, 36, 116, 97, 114, 103, 101, 116, 47, 99, 111, 110, 102, 105, 103, 34, 32,
     93, 59, 32, 116, 104, 101, 110, 32, 99, 112, 32, 34, 36, 115, 111, 117, 114, 99, 101, 95, 100, 105, 114, 47,
     115, 115, 104, 95, 99, 111, 110, 102, 105, 103, 34, 32, 34, 36, 116, 97, 114, 103, 101, 116, 47, 99, 111, 110,
     102, 105, 103, 34, 59, 32, 102, 105, 10, 99, 104, 109, 111, 100, 32, 54, 48, 48, 32, 34, 36, 116, 97, 114, 103,
     101, 116, 47, 99, 111, 110, 102, 105, 103, 34, 10]"

definition install_end :: string where
  "install_end = map (char_of :: nat \<Rightarrow> char) [
     101, 99, 104, 111, 32, 39, 236, 132, 164, 236, 160, 149, 32, 236, 153, 132, 235, 163, 140, 46, 32, 82, 69, 65,
     68, 77, 69, 46, 116, 120, 116, 236, 157, 152, 32, 83, 83, 72, 47, 237, 132, 176, 235, 132, 144, 32, 235, 170,
     133, 235, 160, 185, 236, 157, 132, 32, 236, 130, 172, 236, 154, 169, 237, 149, 152, 236, 132, 184, 236, 154,
     148, 46, 39, 10]"

definition install_need_end :: string where
  "install_need_end = map (char_of :: nat \<Rightarrow> char) [
     32, 237, 130, 164, 32, 237, 140, 140, 236, 157, 188, 236, 157, 132, 32, 107, 101, 121, 115, 32, 237, 143, 180,
     235, 141, 148, 236, 151, 144, 32, 235, 132, 163, 236, 156, 188, 236, 132, 184, 236, 154, 148, 46, 39, 59, 32,
     101, 120, 105, 116, 32, 49, 59, 32, 102, 105, 10]"

definition install_have_rest :: string where
  "install_have_rest = map (char_of :: nat \<Rightarrow> char) [
     34, 59, 32, 116, 104, 101, 110, 32, 101, 99, 104, 111, 32, 39, 234, 184, 176, 236, 161, 180, 32, 237, 130, 164,
     236, 153, 128, 32, 236, 182, 169, 235, 143, 140, 237, 149, 169, 235, 139, 136, 235, 139, 164, 46, 39, 59, 32,
     101, 120, 105, 116, 32, 49, 59, 32, 102, 105, 10]"

definition keys_readme :: string where
  "keys_readme = map (char_of :: nat \<Rightarrow> char) [
     236, 131, 129, 236, 156, 132, 32, 82, 69, 65, 68, 77, 69, 46, 116, 120, 116, 236, 157, 152, 32, 235, 140, 128,
     236, 157, 145, 237, 145, 156, 236, 151, 144, 32, 235, 148, 176, 235, 157, 188, 32, 235, 179, 184, 236, 157, 184,
     236, 157, 152, 32, 83, 83, 72, 32, 234, 176, 156, 236, 157, 184, 32, 237, 130, 164, 235, 165, 188, 32, 236, 157,
     180, 32, 237, 143, 180, 235, 141, 148, 236, 151, 144, 32, 235, 132, 163, 236, 156, 188, 236, 132, 184, 236, 154,
     148, 46, 10]"

section \<open>Names\<close>

text \<open>A map from identifiers to names by position; a later record with the same identifier wins.\<close>

definition index_names :: "(nat \<Rightarrow> string) \<Rightarrow> string list \<Rightarrow> string \<Rightarrow> string" where
  "index_names name is = fold (\<lambda>(n, i) m. m(i := name (Suc n))) (enumerate 0 is) (\<lambda>_. [])"

definition key_names :: "state \<Rightarrow> string \<Rightarrow> string" where
  "key_names s = index_names (\<lambda>n. ''key-'' @ two_digits n) (map kID (Keys s))"

definition host_aliases :: "string \<Rightarrow> state \<Rightarrow> string \<Rightarrow> string" where
  "host_aliases tag s = index_names (\<lambda>n. ''sshdesk-'' @ tag @ ''-host-'' @ two_digits n) (map hID (Hosts s))"

definition tunnel_alias :: "string \<Rightarrow> nat \<Rightarrow> string" where
  "tunnel_alias tag i = ''sshdesk-'' @ tag @ ''-tunnel-'' @ two_digits (Suc i)"

definition mac_base :: "string \<Rightarrow> string" where
  "mac_base tag = ''~/.ssh/sshdesk/'' @ tag"

section \<open>The SSH configuration\<close>

definition host_lines :: "(nat \<Rightarrow> bool) \<Rightarrow> string \<Rightarrow> state \<Rightarrow> host \<Rightarrow> string \<Rightarrow> string list" where
  "host_lines ip tag s h alias =
     [''# '' @ comment (hName h),
      ''Host '' @ alias,
      ''  HostName '' @ hAddress h,
      ''  Port '' @ Itoa (hPort h),
      ''  User '' @ Quote ip (ReplaceByte (CHR ''%'') ''%%'' (hUsername h)),
      ''  IdentityFile '' @ Quote ip (mac_base tag @ ''/'' @ key_names s (hKeyID h)),
      ''  IdentitiesOnly yes'',
      ''  ServerAliveInterval 30'',
      ''  ServerAliveCountMax 3'']"

definition jump_lines :: "(string \<Rightarrow> string) \<Rightarrow> host list \<Rightarrow> string list" where
  "jump_lines aliases chain =
     (let hops = map (\<lambda>h. aliases (hID h)) (butlast chain)
      in if hops \<noteq> [] then [''  ProxyJump '' @ Join '','' hops] else [])"

text \<open>The chain without its last host is sliced out, which panics for an empty chain.\<close>

definition host_block :: "(nat \<Rightarrow> bool) \<Rightarrow> string \<Rightarrow> state \<Rightarrow> host \<Rightarrow> string \<Rightarrow> string list res" where
  "host_block ip tag s h alias =
     rbind (Chain s (hID h))
     (\<lambda>chain. if chain = [] then Inl (Ext ''slice bounds out of range'')
        else Inr (host_lines ip tag s h alias @ jump_lines (host_aliases tag s) chain))"

definition host_section :: "(nat \<Rightarrow> bool) \<Rightarrow> string \<Rightarrow> state \<Rightarrow> host \<Rightarrow> string list res" where
  "host_section ip tag s h =
     rbind (host_block ip tag s h (host_aliases tag s (hID h))) (\<lambda>b. Inr (b @ [[]]))"

definition tunnel_section :: "(nat \<Rightarrow> bool) \<Rightarrow> string \<Rightarrow> state \<Rightarrow> nat \<times> tunnel \<Rightarrow> string list res" where
  "tunnel_section ip tag s it =
     (let (i, t) = it in
      rbind (State_Host s (tHostID t))
      (\<lambda>h. rbind (host_block ip tag s h (tunnel_alias tag i))
      (\<lambda>b. Inr (b @ [''  LocalForward 127.0.0.1:'' @ Itoa (tLocalPort t) @ '' ''
                   @ JoinHostPort (tRemoteHost t) (Itoa (tRemotePort t)),
                 ''  ExitOnForwardFailure yes'', []]))))"

text \<open>The lines after the introduction, each ended by a line feed.\<close>

definition config_lines :: "(nat \<Rightarrow> bool) \<Rightarrow> string \<Rightarrow> state \<Rightarrow> string list res" where
  "config_lines ip tag s =
     rbind (rmap (host_section ip tag s) (Hosts s))
     (\<lambda>hs. rbind (rmap (tunnel_section ip tag s) (enumerate 0 (Tunnels s)))
     (\<lambda>ts. Inr (concat hs @ concat ts)))"

definition mac_config :: "(nat \<Rightarrow> bool) \<Rightarrow> string \<Rightarrow> state \<Rightarrow> string res" where
  "mac_config ip tag s = rbind (config_lines ip tag s) (\<lambda>ls. Inr (config_intro @ concat (map line ls)))"

section \<open>The guide\<close>

definition guide_command :: "string \<Rightarrow> string \<Rightarrow> string \<Rightarrow> string \<Rightarrow> string" where
  "guide_command tag name options alias =
     line (''# '' @ comment name)
     @ line (''ssh -F '' @ quoted (''$HOME/.ssh/sshdesk/'' @ tag @ ''/config'') @ options @ '' '' @ alias)"

definition guide_host :: "string \<Rightarrow> state \<Rightarrow> host \<Rightarrow> string" where
  "guide_host tag s h =
     guide_command tag (hName h) [] (host_aliases tag s (hID h))
     @ (if hFingerprint h \<noteq> [] then guide_fingerprint @ line (hFingerprint h) else [])"

definition guide_tunnel :: "string \<Rightarrow> state \<Rightarrow> nat \<times> tunnel \<Rightarrow> string" where
  "guide_tunnel tag s it =
     (let (i, t) = it in
      guide_command tag (tName t) '' -N -T'' (tunnel_alias tag i)
      @ concat (map (\<lambda>v. guide_service @ comment (sName v) @ guide_service_open @ line (shellQuote (sURL v)))
          (filter (\<lambda>v. sTunnelID v = tID t) (Services s))))"

definition mac_guide :: "string \<Rightarrow> state \<Rightarrow> (string \<times> string) list \<Rightarrow> string" where
  "mac_guide tag s keys =
     guide_intro @ mac_base tag @ guide_intro_end
     @ (if keys \<noteq> [] then guide_with_keys else guide_without_keys)
     @ concat (map (\<lambda>k. guide_key @ comment (kName k) @ guide_key_to @ line (key_names s (kID k))) (Keys s))
     @ guide_hosts @ concat (map (guide_host tag s) (Hosts s))
     @ guide_tunnels @ concat (map (guide_tunnel tag s) (enumerate 0 (Tunnels s)))"

section \<open>The installer\<close>

definition target_file :: "string \<Rightarrow> string" where
  "target_file n = quoted (''$target/'' @ n)"

definition source_key :: "string \<Rightarrow> string" where
  "source_key n = quoted (''$source_dir/keys/'' @ n)"

definition install_present :: "string \<Rightarrow> string" where
  "install_present n = ''if [ ! -f '' @ source_key n @ '' ]; then echo '' @ [CHR 0x27] @ n @ install_need_end"

definition install_unchanged :: "string \<Rightarrow> string" where
  "install_unchanged n = ''if [ -e '' @ target_file n @ '' ] && ! cmp -s '' @ source_key n @ '' '' @ [CHR 0x22] @ ''$target/'' @ n @ install_have_rest"

definition install_copy_key :: "string \<Rightarrow> string" where
  "install_copy_key n =
     line (''if [ ! -e '' @ target_file n @ '' ]; then cp '' @ source_key n @ '' '' @ target_file n @ ''; fi'')
     @ line (''chmod 600 '' @ target_file n)"

definition mac_install :: "string \<Rightarrow> string list \<Rightarrow> string" where
  "mac_install tag names =
     install_intro @ line (''target='' @ quoted (''$HOME/.ssh/sshdesk/'' @ tag)) @ install_link
     @ concat (map install_present names) @ install_config
     @ concat (map install_unchanged names) @ install_copy
     @ concat (map install_copy_key names) @ install_end"

section \<open>The package\<close>

record mac_package =
  macConfig :: string
  macInstructions :: string
  macArchive :: string

text \<open>A file of the archive: its name, its permissions and its content.\<close>

type_synonym archive_file = "string \<times> nat \<times> string"

definition archive_files :: "string \<Rightarrow> string \<Rightarrow> string \<Rightarrow> state \<Rightarrow> (string \<times> string) list \<Rightarrow> archive_file list" where
  "archive_files conf guide install s keys =
     map (\<lambda>(n, m, b). (''sshdesk-macos/'' @ n, m, b))
       ([(''ssh_config'', 384, conf), (''README.txt'', 384, guide), (''install.command'', 448, install)]
        @ concat (map (\<lambda>k. case map_of keys (kID k) of
            Some b \<Rightarrow> [(''keys/'' @ key_names s (kID k), 384, b)] | None \<Rightarrow> []) (Keys s))
        @ (if keys = [] then [(''keys/README.txt'', 384, keys_readme)] else []))"

text \<open>What of a configuration is exported: no settings, no history, no paths of the sender.\<close>

definition mac_state :: "state \<Rightarrow> state" where
  "mac_state s = set_paths ''recipient-key'' (s\<lparr>Settings := empty_settings, History := []\<rparr>)"

definition mac_source :: "codec \<Rightarrow> state \<Rightarrow> string \<Rightarrow> (state \<times> (string \<times> string) list) res" where
  "mac_source c s payload =
     (if payload = [] then Inr (s, [])
      else if MaxPayload < length payload then Inl (ShareErr BundleTooLarge)
      else rbind (UnmarshalBundle c payload) (\<lambda>b. Inr (bState b, bKeys b)))"

definition MacExport ::
  "(string \<Rightarrow> url option) \<Rightarrow> codec \<Rightarrow> (state \<Rightarrow> string) \<Rightarrow> (string \<Rightarrow> string) \<Rightarrow> (archive_file list \<Rightarrow> string) \<Rightarrow>
   (nat \<Rightarrow> bool) \<Rightarrow> state \<Rightarrow> string \<Rightarrow> mac_package res" where
  "MacExport up c js sha pack ip s payload =
     rbind (mac_source c s payload)
     (\<lambda>(s1, keys). let s2 = mac_state s1 in
       rbind (Validate up s2)
       (\<lambda>_. let tag = EncodeToString (take 6 (sha (js s2 @ payload))); guide = mac_guide tag s2 keys in
         rbind (mac_config ip tag s2)
         (\<lambda>conf. Inr \<lparr>macConfig = conf, macInstructions = guide,
            macArchive = pack (archive_files conf guide
              (mac_install tag (map (\<lambda>k. key_names s2 (kID k)) (Keys s2))) s2 keys)\<rparr>)))"

end
