(* ===== verification/WebShare.thy ===== *)
theory WebShare
  imports WebGuard WebRecords MacExport
begin

text \<open>
  Team features of internal/web: following other machines' feeds (team_sync.go), the state of the
  download page and what it serves (sharing.go). \<open>msg\<close> is the text of an error.
\<close>

section \<open>Following feeds\<close>

definition same_subscription :: "team_subscription \<Rightarrow> team_subscription \<Rightarrow> bool" where
  "same_subscription sub current \<longleftrightarrow> \<not> Paused current \<and> SameSource (Source current) (Source sub)
     \<and> tsURL (Source current) = tsURL (Source sub)"

fun first_where :: "('a \<Rightarrow> bool) \<Rightarrow> 'a list \<Rightarrow> nat option" where
  "first_where P [] = None"
| "first_where P (x # xs) = (if P x then Some 0 else map_option Suc (first_where P xs))"

text \<open>The transaction of a poll: the first subscription that still is the polled one.\<close>

definition poll_update ::
  "(string \<Rightarrow> string \<Rightarrow> string option) \<Rightarrow> string \<Rightarrow> (err \<Rightarrow> string) \<Rightarrow> team_subscription \<Rightarrow> state res \<Rightarrow> state \<Rightarrow> state res" where
  "poll_update us now msg sub fetched s =
     (case first_where (same_subscription sub) (Team s) of
        None \<Rightarrow> Inr s
      | Some i \<Rightarrow>
          (case fetched of
             Inl e \<Rightarrow> Inr (s\<lparr>Team := (Team s)[i := (Team s ! i)\<lparr>SubError := msg e\<rparr>]\<rparr>)
           | Inr incoming \<Rightarrow> ApplyFeed us now i incoming s))"

definition conflict_text :: string where
  "conflict_text = map (char_of :: nat \<Rightarrow> char) [
     235, 179, 128, 234, 178, 189, 32, 236, 130, 172, 237, 149, 173, 32, 236, 182, 169, 235, 143, 140, 32, 194,
     183, 32, 234, 184, 176, 236, 161, 180, 32, 236, 132, 164, 236, 160, 149, 32, 236, 156, 160, 236, 167, 128,
     58, 32]"

definition mark_conflict :: "team_subscription \<Rightarrow> string \<Rightarrow> state \<Rightarrow> state" where
  "mark_conflict sub m s =
     s\<lparr>Team := map (\<lambda>v. if SameSource (Source v) (Source sub) then v\<lparr>SubError := conflict_text @ m\<rparr> else v) (Team s)\<rparr>"

text \<open>One subscription: \<open>q\<close> and \<open>q'\<close> are the statements of the transaction and, when it failed, of
  the one that notes the conflict.\<close>

definition poll_one ::
  "(string \<Rightarrow> url option) \<Rightarrow> (stmt \<Rightarrow> bool) \<Rightarrow> (stmt \<Rightarrow> bool) \<Rightarrow> (string \<Rightarrow> string \<Rightarrow> string option) \<Rightarrow> string \<Rightarrow>
   (err \<Rightarrow> string) \<Rightarrow> team_subscription \<Rightarrow> state res \<Rightarrow> db \<Rightarrow> db" where
  "poll_one up q q' us now msg sub fetched d =
     (case Update up q (poll_update us now msg sub fetched) d of
        (Inr _, d1) \<Rightarrow> d1
      | (Inl e, d1) \<Rightarrow> snd (Update up q' (\<lambda>s. Inr (mark_conflict sub (msg e) s)) d1))"

text \<open>The loop over the subscriptions of a snapshot. \<open>fetch i\<close> is what the i-th request yields,
  \<open>ctx i\<close> whether the context was cancelled before and after it.\<close>

fun poll_loop ::
  "(nat \<Rightarrow> team_subscription \<Rightarrow> state res \<Rightarrow> db \<Rightarrow> db) \<Rightarrow> (nat \<Rightarrow> team_source \<Rightarrow> state res) \<Rightarrow> (nat \<Rightarrow> bool \<times> bool) \<Rightarrow>
   nat \<Rightarrow> team_subscription list \<Rightarrow> db \<Rightarrow> db" where
  "poll_loop one fetch ctx i [] d = d"
| "poll_loop one fetch ctx i (sub # subs) d =
     (if Paused sub \<or> fst (ctx i) then poll_loop one fetch ctx (Suc i) subs d
      else if snd (ctx i) then d
      else poll_loop one fetch ctx (Suc i) subs (one i sub (fetch i (Source sub)) d))"

text \<open>Each transaction of a poll has its own outcome of the statements: \<open>q 0\<close> is the snapshot,
  \<open>q (2 * i + 1)\<close> and \<open>q (2 * i + 2)\<close> the two transactions of the i-th subscription.\<close>

definition pollTeam ::
  "(string \<Rightarrow> url option) \<Rightarrow> (nat \<Rightarrow> stmt \<Rightarrow> bool) \<Rightarrow> (string \<Rightarrow> string \<Rightarrow> string option) \<Rightarrow> string \<Rightarrow> (err \<Rightarrow> string) \<Rightarrow>
   (nat \<Rightarrow> team_source \<Rightarrow> state res) \<Rightarrow> (nat \<Rightarrow> bool \<times> bool) \<Rightarrow> db \<Rightarrow> db" where
  "pollTeam up q us now msg fetch ctx d =
     (case Snapshot (q 0) d of
        Inl _ \<Rightarrow> d
      | Inr s \<Rightarrow> poll_loop (\<lambda>i. poll_one up (q (2 * i + 1)) (q (2 * i + 2)) us now msg) fetch ctx 0 (Team s) d)"

section \<open>Managing subscriptions\<close>

definition TrimRight :: "char \<Rightarrow> string \<Rightarrow> string" where
  "TrimRight c s = rev (dropWhile (\<lambda>x. x = c) (rev s))"

definition team_update ::
  "(string \<Rightarrow> url option) \<Rightarrow> string \<Rightarrow> string \<Rightarrow> string \<Rightarrow> state \<Rightarrow> state res" where
  "team_update up action i url s =
     (case first_where (\<lambda>sub. tsFeed (Source sub) = i) (Team s) of
        None \<Rightarrow> Inl (WebErr SubscriptionNotFound)
      | Some k \<Rightarrow>
          let sub = Team s ! k; put = (\<lambda>v. Inr (s\<lparr>Team := (Team s)[k := v]\<rparr>)) in
          if action = ''pause'' then put (sub\<lparr>Paused := True\<rparr>)
          else if action = ''resume'' then put (sub\<lparr>Paused := False\<rparr>)
          else if action = ''address'' then
            (let src = (Source sub)\<lparr>tsURL := TrimRight (CHR ''/'') (TrimSpace url)\<rparr>
             in rbind (ValidateSource up src) (\<lambda>_. put (sub\<lparr>Source := src\<rparr>)))
          else Inl (WebErr UnknownSyncAction))"

text \<open>\<open>teamAction\<close>: \<open>poll\<close> is \<open>pollTeam\<close>.\<close>

definition teamAction ::
  "(string \<Rightarrow> url option) \<Rightarrow> (stmt \<Rightarrow> bool) \<Rightarrow> (db \<Rightarrow> db) \<Rightarrow> string \<Rightarrow> (string \<times> string) res \<Rightarrow> db \<Rightarrow> unit res \<times> db" where
  "teamAction up q poll action req d =
     (case req of
        Inl e \<Rightarrow> (Inl e, d)
      | Inr (i, url) \<Rightarrow> if action = ''refresh'' then (Inr (), poll d) else Update up q (team_update up action i url) d)"

definition teamStatus :: "state \<Rightarrow> (string \<times> string \<times> (string \<times> string) list \<times> string \<times> string \<times> bool) list" where
  "teamStatus s = map (\<lambda>sub. (tsFeed (Source sub), tsURL (Source sub), Items sub, LastSync sub, SubError sub, Paused sub)) (Team s)"

section \<open>The state of the download page\<close>

text \<open>Servers are numbered; peers are addresses with the time of their last request, in nanoseconds.\<close>

record share =
  shServer :: "nat option"
  shStarted :: nat
  shPayload :: string
  shSelection :: "string list"
  shConfig :: "backup option"
  shFeed :: string
  shPublic :: string
  shPeers :: "(string \<times> int) list"

definition stopSharing :: "share \<Rightarrow> share" where
  "stopSharing sh = sh\<lparr>shServer := None, shPayload := [], shSelection := [], shConfig := None, shFeed := [],
     shPublic := [], shPeers := []\<rparr>"

definition StartSharing :: "err option \<Rightarrow> share \<Rightarrow> unit res \<times> share" where
  "StartSharing listen sh =
     (if shServer sh \<noteq> None then (Inr (), sh)
      else case listen of
          Some e \<Rightarrow> (Inl e, sh)
        | None \<Rightarrow> (Inr (), sh\<lparr>shServer := Some (shStarted sh), shStarted := Suc (shStarted sh)\<rparr>))"

text \<open>The goroutine of server \<open>n\<close> after \<open>Serve\<close> returned.\<close>

definition serve_ended :: "nat \<Rightarrow> share \<Rightarrow> share" where
  "serve_ended n sh = (if shServer sh = Some n then sh\<lparr>shServer := None\<rparr> else sh)"

definition share_backup :: "string \<Rightarrow> state \<Rightarrow> backup" where
  "share_backup now s = \<lparr>bkFormat = ''sshdesk'', bkVersion = 1, bkExportedAt = now, bkHosts = Hosts s,
     bkKeys = Keys (set_paths ''~/SSHDesk-team-key'' s), bkTunnels = Tunnels s, bkServices = Services s, bkSettings = empty_settings\<rparr>"

text \<open>Packing and signing, with the identity \<open>gen\<close> and random bytes \<open>rnd\<close> of \<open>PrepareFeed\<close>.\<close>

definition share_prepare ::
  "(string \<Rightarrow> url option) \<Rightarrow> (stmt \<Rightarrow> bool) \<Rightarrow> os \<Rightarrow> fs \<Rightarrow> (string \<Rightarrow> 's key_parse) \<Rightarrow> codec \<Rightarrow> ed25519 \<Rightarrow> string res \<Rightarrow>
   (nat \<Rightarrow> string) \<Rightarrow> nat \<Rightarrow> string \<Rightarrow> string list \<Rightarrow> share \<Rightarrow> db \<Rightarrow> unit res \<times> share \<times> db" where
  "share_prepare up q os fs pk c ed gen rnd n now ids sh d =
     (case rbind (Snapshot q d) (\<lambda>s. rbind (Select up s ids) (\<lambda>sel. rbind (Create up os fs pk c s ids) (\<lambda>p. Inr (sel, p)))) of
        Inl e \<Rightarrow> (Inl e, sh, d)
      | Inr (sel, payload) \<Rightarrow>
          (case PrepareFeed q c ed gen rnd n ids d of
             (Inl e, d1) \<Rightarrow> (Inl e, sh, d1)
           | (Inr (feed, pub), d1) \<Rightarrow>
               (Inr (), sh\<lparr>shPayload := payload, shSelection := ids, shConfig := Some (share_backup now sel),
                  shFeed := feed, shPublic := pub\<rparr>, d1)))"

datatype reply = Ok | Fail err | NotFound

definition reply_of :: "unit res \<times> 'a \<Rightarrow> reply \<times> 'a" where
  "reply_of r = ((case fst r of Inl e \<Rightarrow> Fail e | Inr _ \<Rightarrow> Ok), snd r)"

definition sharingAction ::
  "(string list \<Rightarrow> share \<Rightarrow> db \<Rightarrow> unit res \<times> share \<times> db) \<Rightarrow> err option \<Rightarrow> string \<Rightarrow> string list res \<Rightarrow> share \<Rightarrow> db \<Rightarrow>
   reply \<times> share \<times> db" where
  "sharingAction prepare listen action req sh d =
     (let start = (\<lambda>sh d. reply_of (case StartSharing listen sh of (r, sh') \<Rightarrow> (r, sh', d))) in
      if action = ''prepare'' \<or> action = ''publish'' then
        (case req of
           Inl e \<Rightarrow> (Fail e, sh, d)
         | Inr ids \<Rightarrow>
             if action = ''publish'' \<and> ids = [] then start (stopSharing sh) d
             else (case prepare ids sh d of
                 (Inl e, sh1, d1) \<Rightarrow> (Fail e, sh1, d1)
               | (Inr _, sh1, d1) \<Rightarrow> if action = ''publish'' then start sh1 d1 else (Ok, sh1, d1)))
      else if action = ''start'' then start sh d
      else if action = ''stop'' then (Ok, stopSharing sh, d)
      else (NotFound, sh, d))"

definition peer_life :: int where
  "peer_life = 5 * 60 * 10 ^ 9"

text \<open>\<open>sharingStatus\<close>: the peers shown and the addresses of the page.\<close>

definition recent_peers :: "int \<Rightarrow> share \<Rightarrow> (string \<times> int) list" where
  "recent_peers now sh = filter (\<lambda>(_, t). now - t < peer_life) (shPeers sh)"

text \<open>What the status shows of the page: running, the selected keys, whether a package is prepared.\<close>

definition sharing_view :: "int \<Rightarrow> share \<Rightarrow> bool \<times> string list \<times> bool \<times> (string \<times> int) list" where
  "sharing_view now sh = (shServer sh \<noteq> None, shSelection sh, shPayload sh \<noteq> [], recent_peers now sh)"

definition dotted :: "nat list \<Rightarrow> string" where
  "dotted f = Join ''.'' (map nat_digits f)"

definition page_url :: "string \<Rightarrow> string" where
  "page_url a = ''http://'' @ a @ '':'' @ Itoa SharePort"

definition share_urls :: "ip_net list \<Rightarrow> string list" where
  "share_urls nets = map (\<lambda>n. page_url (dotted (netIP n))) (filter (\<lambda>n. hd (netIP n) \<noteq> 127) nets)"

text \<open>\<open>local\<close> is the address of the outbound interface, if the lookup succeeds.\<close>

definition preferredShareURL :: "string option \<Rightarrow> string list \<Rightarrow> string" where
  "preferredShareURL local urls =
     (case local of
        Some a \<Rightarrow> if page_url a \<in> set urls then page_url a else if urls \<noteq> [] then hd urls else []
      | None \<Rightarrow> if urls \<noteq> [] then hd urls else [])"

section \<open>What the download page serves\<close>

definition max_peers :: nat where
  "max_peers = 128"

definition note_peer :: "int \<Rightarrow> string \<Rightarrow> (string \<times> int) list \<Rightarrow> (string \<times> int) list" where
  "note_peer now ip peers =
     (let p = filter (\<lambda>(_, t). \<not> now - t > peer_life) peers in
      if length p < max_peers \<or> map_of p ip \<noteq> None then AList.update ip now p else p)"

datatype download =
    Refused nat | Failed err | NotServed
  | Page bool bool | FeedBody "signed_sync option" | Archive "string option" | ConfigText "string option"
  | Instructions "string option" | Redirected | Unavailable | Program "string option" | ConfigFile backup

text \<open>The feed; \<open>full\<close> tells \<open>GET\<close> from \<open>HEAD\<close>.\<close>

definition serveFeed ::
  "(string \<Rightarrow> url option) \<Rightarrow> (stmt \<Rightarrow> bool) \<Rightarrow> codec \<Rightarrow> ed25519 \<Rightarrow> int \<Rightarrow> string \<Rightarrow> string \<Rightarrow> string \<Rightarrow> bool \<Rightarrow> share \<Rightarrow> db \<Rightarrow>
   download \<times> share" where
  "serveFeed up q c ed now feed nonce remote full sh d =
     (case SignFeed up q c ed d feed nonce of
        Inl _ \<Rightarrow> (Refused 503, sh)
      | Inr sg \<Rightarrow>
          let ip = (case SplitHostPort remote of Some (h, _) \<Rightarrow> h | None \<Rightarrow> [])
          in (FeedBody (if full then Some sg else None), sh\<lparr>shPeers := note_peer now ip (shPeers sh)\<rparr>))"

definition downloadPayload ::
  "(string \<Rightarrow> url option) \<Rightarrow> (stmt \<Rightarrow> bool) \<Rightarrow> codec \<Rightarrow> string \<Rightarrow> share \<Rightarrow> db \<Rightarrow> string res" where
  "downloadPayload up q c host sh d =
     rbind (RefreshBundle up q c (shPayload sh) d)
     (\<lambda>updated. if updated = [] then Inr []
        else AttachSource up c updated \<lparr>tsURL = ''http://'' @ host, tsFeed = shFeed sh, tsPublicKey = shPublic sh\<rparr>)"

definition serve_mac ::
  "(string \<Rightarrow> url option) \<Rightarrow> (stmt \<Rightarrow> bool) \<Rightarrow> codec \<Rightarrow> (state \<Rightarrow> string \<Rightarrow> mac_package res) \<Rightarrow> share_page \<Rightarrow> string \<Rightarrow> bool \<Rightarrow>
   share \<Rightarrow> db \<Rightarrow> download" where
  "serve_mac up q c export page host full sh d =
     (case rbind (downloadPayload up q c host sh d) (\<lambda>p. rbind (Snapshot q d) (\<lambda>s. export s p)) of
        Inl e \<Rightarrow> Failed e
      | Inr pack \<Rightarrow>
          let body = (\<lambda>s. if full then Some s else None) in
          if page = MacZip then Archive (body (macArchive pack))
          else if page = MacConfig then ConfigText (body (macConfig pack))
          else Instructions (body (macInstructions pack)))"

text \<open>\<open>exe\<close> is the running program on Windows, or none if it cannot be opened.\<close>

definition serve_program ::
  "(string \<Rightarrow> url option) \<Rightarrow> (stmt \<Rightarrow> bool) \<Rightarrow> codec \<Rightarrow> bool \<Rightarrow> exe option \<Rightarrow> (part \<Rightarrow> bool) \<Rightarrow> string \<Rightarrow> bool \<Rightarrow>
   share \<Rightarrow> db \<Rightarrow> download" where
  "serve_program up q c windows exe w host full sh d =
     (case downloadPayload up q c host sh d of
        Inl e \<Rightarrow> Failed e
      | Inr payload \<Rightarrow>
          if \<not> windows then (if payload \<noteq> [] then Refused 503 else Redirected)
          else (case exe of
              None \<Rightarrow> Unavailable
            | Some f \<Rightarrow>
                if \<not> ok (BaseSize f) then Unavailable
                else Program (if full then (case WriteExecutable w f payload of Inl _ \<Rightarrow> None | Inr b \<Rightarrow> Some b) else None)))"

definition serve_configuration ::
  "(string \<Rightarrow> url option) \<Rightarrow> (stmt \<Rightarrow> bool) \<Rightarrow> codec \<Rightarrow> string \<Rightarrow> string \<Rightarrow> share \<Rightarrow> db \<Rightarrow> download" where
  "serve_configuration up q c now host sh d =
     (case shConfig sh of
        Some _ \<Rightarrow>
          (case rbind (downloadPayload up q c host sh d) (UnmarshalBundle c) of
             Inl e \<Rightarrow> Failed e
           | Inr b \<Rightarrow> ConfigFile (share_backup now (bState b)))
      | None \<Rightarrow> (case Snapshot q d of Inl e \<Rightarrow> Failed e | Inr s \<Rightarrow> ConfigFile (export_backup now s)))"

text \<open>
  The handler of the download page. The environment: the parameters of the packages, the running
  program, the interfaces, and the time as text and as a number. The handler gets the database
  to read only.
\<close>

record share_env =
  seParse :: "string \<Rightarrow> url option"
  seSQL :: "stmt \<Rightarrow> bool"
  seCodec :: codec
  seEd :: ed25519
  seJSON :: "state \<Rightarrow> string"
  seSha :: "string \<Rightarrow> string"
  seZip :: "archive_file list \<Rightarrow> string"
  sePrint :: "nat \<Rightarrow> bool"
  seWindows :: bool
  seExe :: "exe option"
  seWrite :: "part \<Rightarrow> bool"
  seIfaces :: "iface list"
  seNow :: string
  seClock :: int

definition shareHandler :: "share_env \<Rightarrow> string \<Rightarrow> request \<Rightarrow> share \<Rightarrow> db \<Rightarrow> download \<times> share" where
  "shareHandler env nonce r sh d =
     (case share_guard (shareNetworks (seIfaces env)) r of
        Some n \<Rightarrow> (Refused n, sh)
      | None \<Rightarrow>
          let up = seParse env; q = seSQL env; c = seCodec env; full = (rMethod r \<noteq> ''HEAD'');
              export = MacExport up c (seJSON env) (seSha env) (seZip env) (sePrint env) in
          (case share_route (rPath r) of
             Feed f \<Rightarrow> serveFeed up q c (seEd env) (seClock env) f nonce (rRemote r) full sh d
           | DownloadPage \<Rightarrow> (Page (shPayload sh \<noteq> []) (Contains (rHeader r ''User-Agent'') ''Macintosh''), sh)
           | MacZip \<Rightarrow> (serve_mac up q c export MacZip (rHost r) full sh d, sh)
           | MacConfig \<Rightarrow> (serve_mac up q c export MacConfig (rHost r) full sh d, sh)
           | MacGuide \<Rightarrow> (serve_mac up q c export MacGuide (rHost r) full sh d, sh)
           | WindowsProgram \<Rightarrow> (serve_program up q c (seWindows env) (seExe env) (seWrite env) (rHost r) full sh d, sh)
           | Configuration \<Rightarrow> (serve_configuration up q c (seNow env) (rHost r) sh d, sh)
           | NoPage \<Rightarrow> (NotServed, sh)))"

section \<open>Facts\<close>

text \<open>Looking at the page changes at most the list of peers, which stays bounded.\<close>

lemma AList_update_length: "length (AList.update k v m) = (if map_of m k = None then Suc (length m) else length m)"
  by (induction m) auto

lemma note_peer_bounded: "length peers \<le> max_peers \<Longrightarrow> length (note_peer now ip peers) \<le> max_peers"
proof -
  assume "length peers \<le> max_peers"
  then have "length (filter (\<lambda>(_, t). \<not> now - t > peer_life) peers) \<le> max_peers"
    using length_filter_le order_trans by blast
  then show ?thesis by (auto simp: note_peer_def Let_def AList_update_length)
qed

lemma shareHandler_peers:
  assumes "shareHandler env nonce r sh d = (a, sh')"
  shows "\<exists>peers. sh' = sh\<lparr>shPeers := peers\<rparr> \<and> (length (shPeers sh) \<le> max_peers \<longrightarrow> length peers \<le> max_peers)"
proof (cases "\<exists>f. share_guard (shareNetworks (seIfaces env)) r = None \<and> share_route (rPath r) = Feed f")
  case True
  then obtain f where "share_guard (shareNetworks (seIfaces env)) r = None" "share_route (rPath r) = Feed f" by blast
  with assms consider "sh' = sh\<lparr>shPeers := shPeers sh\<rparr>"
    | now ip where "sh' = sh\<lparr>shPeers := note_peer now ip (shPeers sh)\<rparr>"
    by (auto simp: shareHandler_def serveFeed_def Let_def split: sum.splits)
  then show ?thesis
  proof cases
    case 1
    then show ?thesis by blast
  next
    case (2 now ip)
    with note_peer_bounded show ?thesis by blast
  qed
next
  case False
  then have "sh' = sh\<lparr>shPeers := shPeers sh\<rparr>"
    using assms by (auto simp: shareHandler_def Let_def split: option.splits share_page.splits)
  then show ?thesis by blast
qed

text \<open>The package a visitor gets: read back, it is the current selection of the keys that still exist.\<close>

definition reads_back :: "codec \<Rightarrow> bool" where
  "reads_back c \<longleftrightarrow> (\<forall>b data. MarshalBundle c b = Inr data \<and> (\<forall>i \<in> dom (map_of (bKeys b)). utf8_valid i) \<longrightarrow>
     (\<exists>m. UnmarshalBundle c data = Inr ((wire_bundle b)\<lparr>bKeys := m\<rparr>) \<and> map_of m = map_of (bKeys b)))"

lemma reads_backD:
  assumes "reads_back c" "MarshalBundle c b = Inr data" "\<And>i. map_of (bKeys b) i \<noteq> None \<Longrightarrow> utf8_valid i"
  obtains m where "UnmarshalBundle c data = Inr ((wire_bundle b)\<lparr>bKeys := m\<rparr>)" "map_of m = map_of (bKeys b)"
  using assms unfolding reads_back_def by blast

lemma map_of_retained: "map_of (retained old ks) i \<noteq> None \<longleftrightarrow> i \<in> kID ` set ks"
proof -
  have "map_of (fold (\<lambda>k. AList.update (kID k) (item old (kID k))) ks m) i \<noteq> None \<longleftrightarrow> i \<in> kID ` set ks \<or> map_of m i \<noteq> None" for m
    by (induction ks arbitrary: m) (auto simp: map_of_update)
  from this [of "[]"] show ?thesis by (simp add: retained_def)
qed

lemma marshal_bundle_Inr: "marshal_bundle c b = Inr data \<longleftrightarrow> MarshalBundle c b = Inr data \<and> length data \<le> MaxPayload"
  by (auto simp: marshal_bundle_def res_simps)

lemma downloadPayload_Inr:
  assumes "downloadPayload up q c host sh d = Inr p" "p \<noteq> []" "reads_back c" "utf8_clean (load d)"
  obtains b0 b r where "UnmarshalBundle c (shPayload sh) = Inr b0" "UnmarshalBundle c p = Inr b"
    "Select up (load d) (filter (\<lambda>i. ok (State_Key (load d) i)) (map kID (Keys (bState b0)))) = Inr r"
    "bState b = set_paths ''bundled-key'' r" "\<And>i. map_of (bKeys b) i \<noteq> None \<longleftrightarrow> i \<in> kID ` set (Keys r)"
    "bSource b = Some (json_source \<lparr>tsURL = ''http://'' @ host, tsFeed = shFeed sh, tsPublicKey = shPublic sh\<rparr>)"
proof -
  let ?src = "\<lparr>tsURL = ''http://'' @ host, tsFeed = shFeed sh, tsPublicKey = shPublic sh\<rparr>"
  obtain u where u: "RefreshBundle up q c (shPayload sh) d = Inr u" and a: "AttachSource up c u ?src = Inr p"
    using assms(1,2) by (auto simp: downloadPayload_def rbind_eq_Inr split: if_splits)
  have "shPayload sh \<noteq> []"
  proof
    assume "shPayload sh = []"
    with u assms(1,2) show False by (simp add: downloadPayload_def RefreshBundle_def)
  qed
  with u obtain b0 r where b0: "UnmarshalBundle c (shPayload sh) = Inr b0"
    and r: "Select up (load d) (filter (\<lambda>i. ok (State_Key (load d) i)) (map kID (Keys (bState b0)))) = Inr r"
    and m: "MarshalBundle c (b0\<lparr>bState := set_paths ''bundled-key'' r,
        bKeys := retained (bKeys b0) (Keys r)\<rparr>) = Inr u"
    by (auto simp: RefreshBundle_def Let_def rbind_eq_Inr Snapshot_def marshal_bundle_Inr)
  note wire = wire_selection [OF r assms(4), of "''bundled-key''"]
  have w: "wire_state (set_paths ''bundled-key'' r) = set_paths ''bundled-key'' r"
    by (rule wire(1)) (simp add: utf8_valid_ascii)
  let ?b1 = "b0\<lparr>bState := set_paths ''bundled-key'' r, bKeys := retained (bKeys b0) (Keys r)\<rparr>"
  have names: "utf8_valid i" if "map_of (retained (bKeys b0) (Keys r)) i \<noteq> None" for i
    using that wire(2) [of i] by (simp only: map_of_retained) (simp add: utf8_valid_ascii)
  obtain m1 where m1: "UnmarshalBundle c u = Inr ((wire_bundle ?b1)\<lparr>bKeys := m1\<rparr>)" "map_of m1 = map_of (bKeys ?b1)"
    using reads_backD [OF assms(3) m] names by auto
  let ?b2 = "(wire_bundle ?b1)\<lparr>bKeys := m1, bSource := Some ?src\<rparr>"
  have mp: "MarshalBundle c ?b2 = Inr p"
    using a m1(1) by (auto simp: AttachSource_def rbind_eq_Inr marshal_bundle_Inr)
  have "utf8_valid i" if "map_of (bKeys ?b2) i \<noteq> None" for i
    using that m1(2) names [of i] by simp
  then obtain m2 where m2: "UnmarshalBundle c p = Inr ((wire_bundle ?b2)\<lparr>bKeys := m2\<rparr>)" "map_of m2 = map_of m1"
    using reads_backD [OF assms(3) mp] by auto
  have km: "map_of m2 i \<noteq> None \<longleftrightarrow> i \<in> kID ` set (Keys r)" for i
    using m1(2) m2(2) map_of_retained [of "bKeys b0" "Keys r" i] by simp
  show ?thesis
    by (rule that [OF b0 m2(1) r]) (use km in \<open>simp_all add: wire_bundle_def w\<close>)
qed

end
