(* ===== verification/WebServer.thy ===== *)
theory WebServer
  imports Terminal WebFiles WebShare Tunnel
begin

text \<open>
  The management interface as a whole (internal/web/server.go): the remaining handlers, which act
  on tunnels, hosts, keys, services and imports, and the way every request takes, through the guard
  and the router to its handler, on the state the server keeps. The tunnel manager runs on its own:
  a request sees its tables, and what it asks of it is listed as the calls it makes.
\<close>

section \<open>Tunnels, hosts, keys\<close>

datatype call = Call Tunnel.thread | Browse string | Ssh SshClient.event

definition tunnelAction ::
  "(stmt \<Rightarrow> bool) \<Rightarrow> (tunnel \<Rightarrow> unit res) \<Rightarrow> string \<Rightarrow> string \<Rightarrow> db \<Rightarrow> unit res \<times> call list" where
  "tunnelAction q start i action d =
     (if action = ''stop'' then (Inr (), [Call (StopCall i)])
      else case rbind (Snapshot q d) (\<lambda>s. rbind (State_Tunnel s i)
          (\<lambda>t. rbind (check (action = ''start'') (WebErr UnknownAction)) (\<lambda>_. Inr t))) of
          Inl e \<Rightarrow> (Inl e, [])
        | Inr t \<Rightarrow> (start t, [Call (StartCall t)]))"

definition checkHost ::
  "(string \<Rightarrow> db \<Rightarrow> connection res \<times> SshClient.event list \<times> db) \<Rightarrow> string \<Rightarrow> db \<Rightarrow>
   unit res \<times> SshClient.event list \<times> db" where
  "checkHost dial i d =
     (case dial i d of
        (Inl e, tr, d1) \<Rightarrow> (Inl e, tr, d1)
      | (Inr c, tr, d1) \<Rightarrow> (Inr (), tr @ snd (conn_Close c), d1))"

definition checkKey :: "(stmt \<Rightarrow> bool) \<Rightarrow> os \<Rightarrow> fs \<Rightarrow> (string \<Rightarrow> 's key_parse) \<Rightarrow> string \<Rightarrow> db \<Rightarrow> unit res" where
  "checkKey q os fs pk i d =
     rbind (Snapshot q d) (\<lambda>s. rbind (State_Key s i) (\<lambda>k. key_Validate os fs pk (kPath k)))"

section \<open>Opening a service\<close>

text \<open>The record, its tunnel and the checks before anything is started.\<close>

definition service_target ::
  "(string \<Rightarrow> url option) \<Rightarrow> (stmt \<Rightarrow> bool) \<Rightarrow> (tunnel \<Rightarrow> bool) \<Rightarrow> string \<Rightarrow> db \<Rightarrow> (service \<times> tunnel) res" where
  "service_target up q changed i d =
     rbind (Snapshot q d)
     (\<lambda>s. case find_id sID i (Services s) of
        None \<Rightarrow> Inl (WebErr ServiceNotFound)
      | Some v \<Rightarrow>
          rbind (State_Tunnel s (sTunnelID v))
          (\<lambda>t. rbind (check (\<not> changed t) (WebErr TunnelChanged))
          (\<lambda>_. rbind (ValidateService up v t) (\<lambda>_. Inr (v, t)))))"

definition openService ::
  "(string \<Rightarrow> url option) \<Rightarrow> (stmt \<Rightarrow> bool) \<Rightarrow> (tunnel \<Rightarrow> bool) \<Rightarrow> (tunnel \<Rightarrow> unit res) \<Rightarrow> (string \<Rightarrow> unit res) \<Rightarrow>
   (string \<Rightarrow> unit res) \<Rightarrow> string \<Rightarrow> db \<Rightarrow> string res \<times> call list" where
  "openService up q changed start ready browse i d =
     (case service_target up q changed i d of
        Inl e \<Rightarrow> (Inl e, [])
      | Inr (v, t) \<Rightarrow>
          (case start t of
             Inl e \<Rightarrow> (Inl e, [Call (StartCall t)])
           | Inr _ \<Rightarrow>
               (case ready (tID t) of
                  Inl e \<Rightarrow> (Inl e, [Call (StartCall t), Call (ReadyCall (tID t))])
                | Inr _ \<Rightarrow>
                    ((case browse (sURL v) of Inl _ \<Rightarrow> Inl (WebErr BrowserFailed) | Inr _ \<Rightarrow> Inr (sURL v)),
                     [Call (StartCall t), Call (ReadyCall (tID t)), Browse (sURL v)]))))"

section \<open>Importing a configuration file\<close>

definition web_preview :: "os \<Rightarrow> fs \<Rightarrow> (nat \<Rightarrow> nat) \<Rightarrow> (string \<times> string list) res \<Rightarrow> preview res" where
  "web_preview os fs ul req = rbind req (\<lambda>(path, _). config_Read os fs ul path)"

definition importConfig ::
  "(string \<Rightarrow> url option) \<Rightarrow> (stmt \<Rightarrow> bool) \<Rightarrow> os \<Rightarrow> fs \<Rightarrow> (string \<Rightarrow> 's key_parse) \<Rightarrow> (nat \<Rightarrow> nat) \<Rightarrow> (nat \<Rightarrow> string) \<Rightarrow>
   (string \<times> string list) res \<Rightarrow> db \<Rightarrow> nat res \<times> db" where
  "importConfig up q os fs pk ul new req d =
     (case rbind req (\<lambda>(path, aliases). rbind (config_Read os fs ul path)
        (\<lambda>p. rbind (check (aliases \<noteq> []) (WebErr NothingToImport)) (\<lambda>_. Inr (p, remdups aliases)))) of
        Inl e \<Rightarrow> (Inl e, d)
      | Inr (p, sel) \<Rightarrow>
          (case Update up q (ApplySelected os fs pk new p sel) d of
             (Inl e, d1) \<Rightarrow> (Inl e, d1)
           | (Inr _, d1) \<Rightarrow> (Inr (length sel), d1)))"

section \<open>The state a browser sees\<close>

text \<open>The statuses of the tunnels, each with whether the saved tunnel differs from the running one.\<close>

definition shown_statuses :: "Tunnel.shared \<Rightarrow> state \<Rightarrow> (string \<times> status \<times> bool) list" where
  "shown_statuses sh s =
     fold (\<lambda>t m. AList.map_entry (tID t) (\<lambda>(v, _). (v, ConfigChanged sh t)) m) (Tunnels s)
       (map (\<lambda>(i, v). (i, v, False)) (Statuses sh))"

section \<open>The server\<close>

record server =
  svDb :: db
  svFiles :: fs
  svShare :: share
  svHub :: hub
  svTunnels :: Tunnel.shared

text \<open>The platform and the libraries.\<close>

record 's web_env =
  weOrigin :: string
  weToken :: string
  weParse :: "string \<Rightarrow> url option"
  weSQL :: "stmt \<Rightarrow> bool"
  weOS :: os
  weKey :: "string \<Rightarrow> 's key_parse"
  weFold :: "nat \<Rightarrow> nat"
  weCodec :: codec
  weEd :: ed25519
  weGen :: "string res"
  weSha :: "string \<Rightarrow> string"
  weHosts :: "string \<Rightarrow> bool"
  weMsg :: "err \<Rightarrow> string"
  weURL :: "string \<Rightarrow> string \<Rightarrow> string option"
  weDir :: string
  weStartup :: startup_result

text \<open>What happens while a request runs: the operating system, the network, the tunnel manager.\<close>

record 's web_run =
  wrCan :: "file_op \<Rightarrow> bool"
  wrShort :: nat
  wrBetween :: "fs \<Rightarrow> fs"
  wrTmp :: string
  wrNew :: "nat \<Rightarrow> string"
  wrNow :: string
  wrClock :: int
  wrNet :: "'s net"
  wrSigner :: "state \<Rightarrow> string \<Rightarrow> 's res"
  wrPolicy :: "string \<Rightarrow> string \<Rightarrow> callback res"
  wrStart :: "tunnel \<Rightarrow> unit res"
  wrReady :: "string \<Rightarrow> unit res"
  wrBrowse :: "string \<Rightarrow> unit res"
  wrPicker :: "bool \<times> string res"
  wrPoll :: "nat \<Rightarrow> stmt \<Rightarrow> bool"
  wrFetch :: "nat \<Rightarrow> team_source \<Rightarrow> state res"
  wrCtx :: "nat \<Rightarrow> bool \<times> bool"
  wrListen :: "err option"
  wrIfaces :: "iface list"
  wrLocal :: "string option"
  wrTerm :: term_net
  wrMessages :: "(term_input option \<times> bool) list"

text \<open>Decoding a body into what each handler expects.\<close>

record web_json =
  wjRecord :: "string \<Rightarrow> body"
  wjKey :: "string \<Rightarrow> (string \<times> string \<times> string) res"
  wjSettings :: "string \<Rightarrow> settings_upload res"
  wjEdit :: "string \<Rightarrow> edit_request res"
  wjTeam :: "string \<Rightarrow> (string \<times> string) res"
  wjShare :: "string \<Rightarrow> string list res"
  wjImport :: "string \<Rightarrow> (string \<times> string list) res"
  wjBackup :: "string \<Rightarrow> (backup \<times> bool) res"

definition decoded :: "(string \<Rightarrow> 'a res) \<Rightarrow> request \<Rightarrow> 'a res" where
  "decoded dec r = (if max_body < length (rBody r) then Inl (Ext ''request body too large'') else dec (rBody r))"

definition decoded_body :: "(string \<Rightarrow> body) \<Rightarrow> request \<Rightarrow> body" where
  "decoded_body dec r = \<lparr>asHost = decoded (asHost \<circ> dec) r, asKey = decoded (asKey \<circ> dec) r,
     asTunnel = decoded (asTunnel \<circ> dec) r, asService = decoded (asService \<circ> dec) r,
     asSettings = decoded (asSettings \<circ> dec) r\<rparr>"

datatype answer =
    Denied nat | Missing | StaticFile | HealthOk | IndexPage string
  | StateView state "(string \<times> status \<times> bool) list" "(string \<times> string \<times> (string \<times> string) list \<times> string \<times> string \<times> bool) list" startup_result
  | Done | Failure err | TunnelList "(string \<times> status) list" | Picking pick_reply | NewSettings settings
  | Editing edit_reply | SharingView bool "string list" bool "(string \<times> int) list" "string list" string | SharingReply reply | Opened string
  | Preview preview | Imported nat | BackupFile backup | BackupCounts backup_counts | TerminalEnd "term_act list"

definition answer_with :: "('a \<Rightarrow> answer) \<Rightarrow> 'a res \<Rightarrow> answer" where
  "answer_with f r = (case r of Inl e \<Rightarrow> Failure e | Inr x \<Rightarrow> f x)"

definition web_dial :: "'s web_env \<Rightarrow> 's web_run \<Rightarrow> string \<Rightarrow> db \<Rightarrow> connection res \<times> SshClient.event list \<times> db" where
  "web_dial E R = Connect (wrNet R) 0 (wrSigner R) (wrPolicy R) (weSQL E) (weMsg E) (wrNew R 0) (wrNow R)"

text \<open>Requests that only look, and the terminal.\<close>

definition look :: "'s web_env \<Rightarrow> 's web_run \<Rightarrow> request \<Rightarrow> endpoint \<Rightarrow> server \<Rightarrow> answer \<times> call list \<times> server" where
  "look E R r e sv =
     (case e of
        Static \<Rightarrow> (StaticFile, [], sv)
      | Health \<Rightarrow> (HealthOk, [], sv)
      | Index \<Rightarrow> (IndexPage (weToken E), [], sv)
      | GetState \<Rightarrow>
          (answer_with (\<lambda>s. StateView s (shown_statuses (svTunnels sv) s) (teamStatus s) (weStartup E))
             (Snapshot (weSQL E) (svDb sv)), [], sv)
      | SharingStatus \<Rightarrow>
          (case sharing_view (wrClock R) (svShare sv) of
             (on, sel, prepared, peers) \<Rightarrow>
               let urls = share_urls (shareNetworks (wrIfaces R)) in
               (SharingView on sel prepared peers urls (preferredShareURL (wrLocal R) urls), [], sv))
      | Terminal i \<Rightarrow>
          (case terminal (weOrigin E) (weToken E) (web_dial E R) (wrTerm R) (wrNew R 1) (wrMessages R) i r (svHub sv) (svDb sv) of
             (acts, tr, h, d) \<Rightarrow> (TerminalEnd acts, map Ssh tr, sv\<lparr>svHub := h, svDb := d\<rparr>))
      | _ \<Rightarrow> (Missing, [], sv))"

text \<open>Requests that change records.\<close>

definition with_db :: "server \<Rightarrow> answer \<Rightarrow> db \<Rightarrow> answer \<times> call list \<times> server" where
  "with_db sv a d = (a, [], sv\<lparr>svDb := d\<rparr>)"

definition change_records ::
  "'s web_env \<Rightarrow> 's web_run \<Rightarrow> web_json \<Rightarrow> request \<Rightarrow> endpoint \<Rightarrow> server \<Rightarrow> answer \<times> call list \<times> server" where
  "change_records E R J r e sv =
     (let up = weParse E; q = weSQL E; os = weOS E; d = svDb sv; fs = svFiles sv; act = Tunnel.Active (svTunnels sv) in
      case e of
        SaveRecord kind \<Rightarrow>
          (case web_save up q os fs (weKey E) act (wrNew R) kind (decoded_body (wjRecord J) r) d of
             (x, d1) \<Rightarrow> with_db sv (answer_with (\<lambda>_. Done) x) d1)
      | DeleteRecord kind i \<Rightarrow>
          (case web_delete up q act kind i d of (x, d1) \<Rightarrow> with_db sv (answer_with (\<lambda>_. Done) x) d1)
      | TeamAction action \<Rightarrow>
          (case teamAction up q (pollTeam up (wrPoll R) (weURL E) (wrNow R) (weMsg E) (wrFetch R) (wrCtx R)) action
              (decoded (wjTeam J) r) d of
             (x, d1) \<Rightarrow> with_db sv (answer_with (\<lambda>_. Done) x) d1)
      | ImportPreview \<Rightarrow> (answer_with Preview (web_preview os fs (weFold E) (decoded (wjImport J) r)), [], sv)
      | ImportApply \<Rightarrow>
          (case importConfig up q os fs (weKey E) (weFold E) (wrNew R) (decoded (wjImport J) r) d of
             (x, d1) \<Rightarrow> with_db sv (answer_with Imported x) d1)
      | BackupExport \<Rightarrow> (answer_with (BackupFile \<circ> export_backup (wrNow R)) (Snapshot q d), [], sv)
      | BackupImport action \<Rightarrow>
          (case importBackup up q os action (decoded (wjBackup J) r) d of
             (x, d1) \<Rightarrow> with_db sv (answer_with BackupCounts x) d1)
      | _ \<Rightarrow> (Missing, [], sv))"

text \<open>Requests that change files or the download page.\<close>

definition change_files ::
  "'s web_env \<Rightarrow> 's web_run \<Rightarrow> web_json \<Rightarrow> request \<Rightarrow> endpoint \<Rightarrow> server \<Rightarrow> answer \<times> call list \<times> server" where
  "change_files E R J r e sv =
     (let up = weParse E; q = weSQL E; os = weOS E; d = svDb sv; fs = svFiles sv in
      case e of
        PickKeyFile \<Rightarrow> (Picking (case_prod pickKeyFile (wrPicker R)), [], sv)
      | UploadKey \<Rightarrow>
          (case uploadKey up q os (weKey E) (wrCan R) (wrShort R) (wrNew R) (weDir E) (decoded (wjKey J) r) d fs of
             (x, d1, fs1) \<Rightarrow> (answer_with (\<lambda>_. Done) x, [], sv\<lparr>svDb := d1, svFiles := fs1\<rparr>))
      | UploadSettings \<Rightarrow>
          (case uploadSettings up q os (weFold E) (weHosts E) (wrCan R) (wrShort R) (wrNew R) (weDir E)
              (decoded (wjSettings J) r) d fs of
             (x, d1, fs1) \<Rightarrow> (answer_with NewSettings x, [], sv\<lparr>svDb := d1, svFiles := fs1\<rparr>))
      | SettingsEditor action \<Rightarrow>
          (case settingsEditor q os (weFold E) (wrCan R) (wrShort R) (weSha E) (weHosts E) (wrBetween R) (wrTmp R) action
              (decoded (wjEdit J) r) d fs of
             (x, fs1) \<Rightarrow> (Editing x, [], sv\<lparr>svFiles := fs1\<rparr>))
      | SharingAction action \<Rightarrow>
          (case sharingAction (share_prepare up q os fs (weKey E) (weCodec E) (weEd E) (weGen E) (wrNew R) 0 (wrNow R))
              (wrListen R) action (decoded (wjShare J) r) (svShare sv) d of
             (x, sh, d1) \<Rightarrow> (SharingReply x, [], sv\<lparr>svShare := sh, svDb := d1\<rparr>))
      | _ \<Rightarrow> (Missing, [], sv))"

text \<open>Requests that use the network.\<close>

definition use_network :: "'s web_env \<Rightarrow> 's web_run \<Rightarrow> endpoint \<Rightarrow> server \<Rightarrow> answer \<times> call list \<times> server" where
  "use_network E R e sv =
     (let up = weParse E; q = weSQL E; d = svDb sv in
      case e of
        TunnelAction i action \<Rightarrow>
          (case tunnelAction q (wrStart R) i action d of
             (x, cs) \<Rightarrow> (answer_with (\<lambda>_. TunnelList (Statuses (svTunnels sv))) x, cs, sv))
      | CheckHost i \<Rightarrow>
          (case checkHost (web_dial E R) i d of
             (x, tr, d1) \<Rightarrow> (answer_with (\<lambda>_. Done) x, map Ssh tr, sv\<lparr>svDb := d1\<rparr>))
      | CheckKey i \<Rightarrow> (answer_with (\<lambda>_. Done) (checkKey q (weOS E) (svFiles sv) (weKey E) i d), [], sv)
      | OpenService i \<Rightarrow>
          (case openService up q (ConfigChanged (svTunnels sv)) (wrStart R) (wrReady R) (wrBrowse R) i d of
             (x, cs) \<Rightarrow> (answer_with Opened x, cs, sv))
      | _ \<Rightarrow> (Missing, [], sv))"

definition handle ::
  "'s web_env \<Rightarrow> 's web_run \<Rightarrow> web_json \<Rightarrow> request \<Rightarrow> endpoint \<Rightarrow> server \<Rightarrow> answer \<times> call list \<times> server" where
  "handle E R J r e sv =
     (case e of
        Static \<Rightarrow> look E R r e sv | Health \<Rightarrow> look E R r e sv | Index \<Rightarrow> look E R r e sv | GetState \<Rightarrow> look E R r e sv
      | SharingStatus \<Rightarrow> look E R r e sv | Terminal _ \<Rightarrow> look E R r e sv | NoEndpoint \<Rightarrow> look E R r e sv
      | SaveRecord _ \<Rightarrow> change_records E R J r e sv | DeleteRecord _ _ \<Rightarrow> change_records E R J r e sv
      | TeamAction _ \<Rightarrow> change_records E R J r e sv | ImportPreview \<Rightarrow> change_records E R J r e sv
      | ImportApply \<Rightarrow> change_records E R J r e sv | BackupExport \<Rightarrow> change_records E R J r e sv
      | BackupImport _ \<Rightarrow> change_records E R J r e sv
      | PickKeyFile \<Rightarrow> change_files E R J r e sv | UploadKey \<Rightarrow> change_files E R J r e sv
      | UploadSettings \<Rightarrow> change_files E R J r e sv | SettingsEditor _ \<Rightarrow> change_files E R J r e sv
      | SharingAction _ \<Rightarrow> change_files E R J r e sv
      | TunnelAction _ _ \<Rightarrow> use_network E R e sv | CheckHost _ \<Rightarrow> use_network E R e sv
      | CheckKey _ \<Rightarrow> use_network E R e sv | OpenService _ \<Rightarrow> use_network E R e sv)"

text \<open>A request, from the listener to its answer.\<close>

definition serve ::
  "'s web_env \<Rightarrow> 's web_run \<Rightarrow> web_json \<Rightarrow> request \<Rightarrow> server \<Rightarrow> answer \<times> call list \<times> server" where
  "serve E R J r sv =
     (case security (weOrigin E) (weToken E) r of
        Some n \<Rightarrow> (Denied n, [], sv)
      | None \<Rightarrow> handle E R J r (route (rMethod r) (rPath r)) sv)"

text \<open>\<open>Close\<close>: the page stops, the terminals are cancelled and the tunnel manager is closed.\<close>

definition web_Close :: "server \<Rightarrow> string list \<times> call list \<times> server" where
  "web_Close sv = (case close_hub (svHub sv) of
     (is, h) \<Rightarrow> (is, [Call CloseCall], sv\<lparr>svShare := stopSharing (svShare sv), svHub := h\<rparr>))"

section \<open>Facts\<close>

lemma look_terminal:
  assumes "look E R r e sv = (a, cs, sv')" "reads_only e" "wrNew R 1 \<notin> set (hbOpen (svHub sv))"
  shows "sv' = sv \<and> cs = []
    \<or> (\<exists>i m d'. e = Terminal i \<and> rHeader r ''Origin'' = weOrigin E \<and> tnFirst (wrTerm R) = Inr m
        \<and> authenticated (weToken E) m \<and> sv' = sv\<lparr>svDb := d'\<rparr> \<and> config (load d') = config (load (svDb sv))
        \<and> dLocal d' = dLocal (svDb sv) \<and> (\<forall>c \<in> set cs. \<exists>x. c = Ssh x))"
proof (cases "\<exists>i. e = Terminal i")
  case False
  with assms(1,2) show ?thesis
    by (auto simp: look_def reads_only_def Let_def split: prod.splits)
next
  case True
  then obtain i where e: "e = Terminal i" by blast
  let ?t = "terminal (weOrigin E) (weToken E) (web_dial E R) (wrTerm R) (wrNew R 1) (wrMessages R) i r (svHub sv) (svDb sv)"
  obtain acts tr h d' where t: "?t = (acts, tr, h, d')" by (cases ?t) auto
  with assms(1) e have r: "cs = map Ssh tr" "sv' = sv\<lparr>svHub := h, svDb := d'\<rparr>" by (simp_all add: look_def)
  have h: "h = svHub sv"
    using t leave_enter [OF _ assms(3)] by (auto simp: terminal_def split: if_splits option.splits sum.splits prod.splits)
  show ?thesis
  proof (cases "tr = [] \<and> d' = svDb sv")
    case True
    with r h show ?thesis by simp
  next
    case False
    with t obtain m c tr0 where m: "rHeader r ''Origin'' = weOrigin E" "tnFirst (wrTerm R) = Inr m" "authenticated (weToken E) m"
      and c: "web_dial E R i (svDb sv) = (c, tr0, d')"
      by (auto simp: terminal_def split: if_splits option.splits sum.splits prod.splits)
    from Connect_config [OF c [unfolded web_dial_def]] m e r h show ?thesis by auto
  qed
qed

lemma service_target_Inr:
  assumes "service_target up q changed i d = Inr (v, t)"
  shows "find_id sID i (Services (load d)) = Some v" "find_id tID (sTunnelID v) (Tunnels (load d)) = Some t"
    "\<not> changed t" "ValidateService up v t = Inr ()"
  using assms
  by (auto simp: service_target_def Snapshot_def State_Tunnel_def res_simps split: option.splits)

end
