(* ===== verification/TeamPoll.thy ===== *)
theory TeamPoll
  imports WebShare "HOL-Library.Code_Target_Nat"
begin

text \<open>
  Facts about following feeds: a record no subscription manages is never touched, whatever the
  sources send, in any sequence of polls and of requests that manage the subscriptions.
\<close>

section \<open>Personal records\<close>

datatype item_record = KeyRec key | HostRec host | TunnelRec tunnel | ServiceRec service

definition free :: "team_subscription list \<Rightarrow> string \<Rightarrow> string \<Rightarrow> bool" where
  "free team kind j \<longleftrightarrow> (\<forall>sub \<in> set team. unmanaged (Items sub) kind j)"

text \<open>A record the configuration holds and no subscription manages.\<close>

fun personal :: "state \<Rightarrow> item_record \<Rightarrow> bool" where
  "personal s (KeyRec k) \<longleftrightarrow> find_id kID (kID k) (Keys s) = Some k \<and> free (Team s) ''keys'' (kID k)"
| "personal s (HostRec h) \<longleftrightarrow> find_id hID (hID h) (Hosts s) = Some h \<and> free (Team s) ''hosts'' (hID h)"
| "personal s (TunnelRec t) \<longleftrightarrow> find_id tID (tID t) (Tunnels s) = Some t \<and> free (Team s) ''tunnels'' (tID t)"
| "personal s (ServiceRec v) \<longleftrightarrow> find_id sID (sID v) (Services s) = Some v \<and> free (Team s) ''services'' (sID v)"

lemma personal_cong:
  assumes "Keys s' = Keys s" "Hosts s' = Hosts s" "Tunnels s' = Tunnels s" "Services s' = Services s"
    and "map Items (Team s') = map Items (Team s)"
  shows "personal s' r \<longleftrightarrow> personal s r"
proof -
  have "free (Team s') kind j \<longleftrightarrow> free (Team s) kind j" for kind j
  proof -
    have f: "free team kind j \<longleftrightarrow> (\<forall>i \<in> set (map Items team). unmanaged i kind j)" for team
      by (auto simp: free_def)
    show ?thesis by (simp only: f assms(5))
  qed
  then show ?thesis using assms(1-4) by (cases r) simp_all
qed

lemma personal_config: "personal (config s) r \<longleftrightarrow> personal s r"
  by (rule personal_cong) (simp_all add: config_def)

text \<open>A source that sends a personal record is refused, so what it tracks afterwards is not personal.\<close>

lemma syncRecords_not_sent:
  assumes "syncRecords old inc kind owned f = Inr r" "find_id f j old \<noteq> None" "unmanaged owned kind j"
  shows "j \<notin> f ` set inc"
proof
  assume "j \<in> f ` set inc"
  then obtain v where v: "v \<in> set inc" "f v = j" by auto
  moreover have "f v \<in> f ` set old" using assms(2) v(2) by (simp add: find_id_None_iff)
  ultimately have "map_of owned (item_key kind (f v)) \<noteq> None" by (intro syncRecords_Inr(4) [OF assms(1)])
  with v(2) assms(3) show False by (simp add: unmanaged_def)
qed

lemma unmanaged_after:
  assumes "unmanaged owned kind j" "item_key kind j \<notin> tracked incoming"
  shows "unmanaged (mark_missing owned (Track incoming)) kind j"
proof -
  have "item_key kind j \<notin> fst ` set owned" using assms(1) by (simp add: unmanaged_def map_of_eq_None_iff)
  moreover have "item_key kind j \<notin> dom (map_of (Track incoming))" using assms(2) by (simp add: domIff map_of_Track)
  ultimately have "item_key kind j \<notin> dom (map_of (mark_missing owned (Track incoming)))"
    by (simp add: dom_mark_missing)
  then show ?thesis by (simp add: unmanaged_def domIff)
qed

lemma tracked_kinds:
  "item_key ''hosts'' j \<in> tracked s \<longleftrightarrow> j \<in> hID ` set (Hosts s)"
  "item_key ''keys'' j \<in> tracked s \<longleftrightarrow> j \<in> kID ` set (Keys s)"
  "item_key ''tunnels'' j \<in> tracked s \<longleftrightarrow> j \<in> tID ` set (Tunnels s)"
  "item_key ''services'' j \<in> tracked s \<longleftrightarrow> j \<in> sID ` set (Services s)"
  by (auto simp: tracked_def item_key_inj)

lemma ApplyFeed_keeps:
  assumes "ApplyFeed us now i incoming s = Inr s'" "i < length (Team s)" "personal s r"
  shows "personal s' r"
proof -
  let ?owned = "Items (Team s ! i)"
  obtain inkeys vs where k: "rmap (local_path s ?owned) (Keys incoming) = Inr inkeys"
    and ks: "syncRecords (Keys s) inkeys ''keys'' ?owned kID = Inr (Keys s')"
    and hs: "syncRecords (Hosts s) (Hosts incoming) ''hosts'' ?owned hID = Inr (Hosts s')"
    and ts: "syncRecords (Tunnels s) (Tunnels incoming) ''tunnels'' ?owned tID = Inr (Tunnels s')"
    and vs: "syncRecords (Services s) (Services incoming) ''services'' ?owned sID = Inr vs"
    and team: "Team s' = (Team s)[i := (Team s ! i)\<lparr>Items := mark_missing ?owned (Track incoming), LastSync := now, SubError := []\<rparr>]"
    by (rule ApplyFeed_Inr [OF assms(1)]) (rule that)
  have own: "free (Team s) kind j \<Longrightarrow> unmanaged ?owned kind j" for kind j
    using assms(2) by (auto simp: free_def)
  have keep: "free (Team s') kind j" if "free (Team s) kind j" "item_key kind j \<notin> tracked incoming" for kind j
    using that unmanaged_after [OF own [OF that(1)] that(2)]
    by (auto simp: free_def team dest!: subsetD [OF set_update_subset_insert])
  note personal = ApplyFeed_personal [OF assms(1), unfolded keeps_personal_def]
  show ?thesis
  proof (cases r)
    case (KeyRec x)
    with assms(3) own have "find_id kID (kID x) (Keys s) = Some x" "unmanaged ?owned ''keys'' (kID x)" by auto
    moreover from syncRecords_not_sent [OF ks] this ids_local_keys(1) [OF k] have "item_key ''keys'' (kID x) \<notin> tracked incoming"
      by (simp add: tracked_kinds)
    ultimately show ?thesis using KeyRec assms(3) keep personal by simp
  next
    case (HostRec x)
    with assms(3) own have "find_id hID (hID x) (Hosts s) = Some x" "unmanaged ?owned ''hosts'' (hID x)" by auto
    moreover from syncRecords_not_sent [OF hs] this have "item_key ''hosts'' (hID x) \<notin> tracked incoming"
      by (simp add: tracked_kinds)
    ultimately show ?thesis using HostRec assms(3) keep personal by simp
  next
    case (TunnelRec x)
    with assms(3) own have "find_id tID (tID x) (Tunnels s) = Some x" "unmanaged ?owned ''tunnels'' (tID x)" by auto
    moreover from syncRecords_not_sent [OF ts] this have "item_key ''tunnels'' (tID x) \<notin> tracked incoming"
      by (simp add: tracked_kinds)
    ultimately show ?thesis using TunnelRec assms(3) keep personal by simp
  next
    case (ServiceRec x)
    with assms(3) own have "find_id sID (sID x) (Services s) = Some x" "unmanaged ?owned ''services'' (sID x)" by auto
    moreover from syncRecords_not_sent [OF vs] this have "item_key ''services'' (sID x) \<notin> tracked incoming"
      by (simp add: tracked_kinds)
    ultimately show ?thesis using ServiceRec assms(3) keep personal by simp
  qed
qed

section \<open>One transaction\<close>

lemma first_where_Some:
  "first_where P xs = Some i \<Longrightarrow> i < length xs \<and> P (xs ! i) \<and> (\<forall>j < i. \<not> P (xs ! j))"
proof (induction xs arbitrary: i)
  case (Cons x xs)
  then show ?case by (cases i) (auto simp: less_Suc_eq_0_disj split: if_splits)
qed simp

lemma first_where_None: "first_where P xs = None \<longleftrightarrow> (\<forall>x \<in> set xs. \<not> P x)"
  by (induction xs) auto

lemma items_update: "i < length team \<Longrightarrow> Items v = Items (team ! i) \<Longrightarrow> map Items (team[i := v]) = map Items team"
  by (simp add: map_update list_update_same_conv)

lemma poll_update_keeps:
  assumes "poll_update us now msg sub fetched s = Inr s'" "personal s r"
  shows "personal s' r"
proof (cases "first_where (same_subscription sub) (Team s)")
  case None
  with assms show ?thesis by (simp add: poll_update_def)
next
  case (Some i)
  then have i: "i < length (Team s)" by (simp add: first_where_Some)
  show ?thesis
  proof (cases fetched)
    case (Inl e)
    with assms(1) Some have "s' = s\<lparr>Team := (Team s)[i := (Team s ! i)\<lparr>SubError := msg e\<rparr>]\<rparr>" by (simp add: poll_update_def)
    with assms(2) i show ?thesis by (subst personal_cong [of _ s]) (simp_all add: items_update)
  next
    case (Inr incoming)
    with assms(1) Some have "ApplyFeed us now i incoming s = Inr s'" by (simp add: poll_update_def)
    from ApplyFeed_keeps [OF this i assms(2)] show ?thesis .
  qed
qed

lemma mark_conflict_keeps: "personal (mark_conflict sub m s) r \<longleftrightarrow> personal s r"
  by (rule personal_cong) (simp_all add: mark_conflict_def)

lemma team_update_frame:
  assumes "team_update up action i url s = Inr s'"
  shows "Keys s' = Keys s" "Hosts s' = Hosts s" "Tunnels s' = Tunnels s" "Services s' = Services s"
    "Settings s' = Settings s" "map Items (Team s') = map Items (Team s)"
proof -
  obtain k where k: "first_where (\<lambda>sub. tsFeed (Source sub) = i) (Team s) = Some k"
    using assms by (auto simp: team_update_def split: option.splits)
  then have len: "k < length (Team s)" by (simp add: first_where_Some)
  from assms k consider
      "s' = s\<lparr>Team := (Team s)[k := (Team s ! k)\<lparr>Paused := True\<rparr>]\<rparr>"
    | "s' = s\<lparr>Team := (Team s)[k := (Team s ! k)\<lparr>Paused := False\<rparr>]\<rparr>"
    | src where "s' = s\<lparr>Team := (Team s)[k := (Team s ! k)\<lparr>Source := src\<rparr>]\<rparr>"
    by (auto simp: team_update_def Let_def res_simps split: if_splits)
  then have "Keys s' = Keys s \<and> Hosts s' = Hosts s \<and> Tunnels s' = Tunnels s \<and> Services s' = Services s
      \<and> Settings s' = Settings s \<and> map Items (Team s') = map Items (Team s)"
    by cases (simp_all add: items_update [OF len])
  then show "Keys s' = Keys s" "Hosts s' = Hosts s" "Tunnels s' = Tunnels s" "Services s' = Services s"
    "Settings s' = Settings s" "map Items (Team s') = map Items (Team s)"
    by simp_all
qed

section \<open>Valid UTF-8\<close>

text \<open>What a source sends is decoded JSON, messages and times are texts.\<close>

lemma item_key_valid: "utf8_valid kind \<Longrightarrow> utf8_valid j \<Longrightarrow> utf8_valid (item_key kind j)"
  unfolding item_key_def by (intro utf8_valid_append) (simp_all add: utf8_valid_ascii)

definition clean_items :: "(string \<times> string) list \<Rightarrow> bool" where
  "clean_items m \<longleftrightarrow> (\<forall>(k, v) \<in> set m. utf8_valid k \<and> utf8_valid v)"

lemma clean_items_update: "clean_items m \<Longrightarrow> utf8_valid k \<Longrightarrow> utf8_valid v \<Longrightarrow> clean_items (AList.update k v m)"
  by (induction m) (auto simp: clean_items_def)

lemma clean_track:
  "clean_items m \<Longrightarrow> utf8_valid kind \<Longrightarrow> \<forall>v \<in> set vs. utf8_valid (f v) \<Longrightarrow> clean_items (track m kind f vs)"
proof (induction vs arbitrary: m)
  case (Cons v vs)
  have "clean_items (AList.update (item_key kind (f v)) ''current'' m)"
    using Cons.prems by (intro clean_items_update item_key_valid) (simp_all add: utf8_valid_ascii)
  with Cons show ?case by (simp add: track_def)
qed (simp add: track_def)

lemma clean_mark_missing: "clean_items owned \<Longrightarrow> clean_items m \<Longrightarrow> clean_items (mark_missing owned m)"
proof (induction owned arbitrary: m)
  case (Cons p owned)
  obtain i v where p: "p = (i, v)" by (cases p)
  have "clean_items (if item m i = [] then AList.update i ''missing'' m else m)"
    using Cons.prems by (auto simp: p clean_items_def [of "(i, v) # _"] utf8_valid_ascii intro!: clean_items_update)
  with Cons show ?case by (auto simp: p mark_missing_def clean_items_def [of "(i, v) # _"] clean_items_def [of owned])
qed (simp add: mark_missing_def)

lemma clean_items_iff: "map (\<lambda>(k, v). (to_valid k, to_valid v)) m = m \<longleftrightarrow> clean_items m"
  by (induction m) (auto simp: clean_items_def to_valid_fixpoint)

lemma json_team_id:
  "json_team m = m \<longleftrightarrow> json_source (Source m) = Source m \<and> clean_items (Items m) \<and> utf8_valid (LastSync m) \<and> utf8_valid (SubError m)"
  by (cases m) (simp add: json_team_def clean_items_iff to_valid_fixpoint)

lemma json_ids:
  "json_host h = h \<Longrightarrow> utf8_valid (hID h)" "json_key k = k \<Longrightarrow> utf8_valid (kID k)"
  "json_tunnel t = t \<Longrightarrow> utf8_valid (tID t)" "json_service v = v \<Longrightarrow> utf8_valid (sID v)"
  by (cases h, simp add: json_host_def to_valid_fixpoint, cases k, simp add: json_key_def to_valid_fixpoint,
      cases t, simp add: json_tunnel_def to_valid_fixpoint, cases v, simp add: json_service_def to_valid_fixpoint)

lemma clean_Track: "utf8_clean s \<Longrightarrow> clean_items (Track s)"
  unfolding Track_def by (intro clean_track) (auto simp: utf8_clean_iff json_ids utf8_valid_ascii clean_items_def)

lemma list_all2_Ball: "list_all2 R xs ys \<Longrightarrow> (\<And>x y. R x y \<Longrightarrow> x \<in> set xs \<Longrightarrow> P y) \<Longrightarrow> \<forall>y \<in> set ys. P y"
  by (induction rule: list_all2_induct) auto

text \<open>
  Identifiers and item names in valid UTF-8: replacing invalid bytes then changes what the records
  say, but not which is which. Other texts, such as an error or a URL put together by net/url, need
  not be valid.
\<close>

definition tidy :: "state \<Rightarrow> bool" where
  "tidy s \<longleftrightarrow> (\<forall>m \<in> set (map Items (Team s)). clean_items m)
     \<and> (\<forall>h \<in> set (Hosts s). utf8_valid (hID h)) \<and> (\<forall>k \<in> set (Keys s). utf8_valid (kID k))
     \<and> (\<forall>t \<in> set (Tunnels s). utf8_valid (tID t)) \<and> (\<forall>v \<in> set (Services s). utf8_valid (sID v))"

lemma tidy_clean: "utf8_clean s \<Longrightarrow> tidy s"
  by (auto simp: tidy_def utf8_clean_iff json_team_id json_ids)

lemma tidy_cong:
  "Keys s' = Keys s \<Longrightarrow> Hosts s' = Hosts s \<Longrightarrow> Tunnels s' = Tunnels s \<Longrightarrow> Services s' = Services s \<Longrightarrow>
    map Items (Team s') = map Items (Team s) \<Longrightarrow> tidy s' \<longleftrightarrow> tidy s"
  by (simp only: tidy_def)

lemma find_id_json:
  assumes "\<forall>x \<in> set xs. utf8_valid (f x)" "\<And>x. f (j x) = to_valid (f x)"
  shows "find_id f i (map j xs) = map_option j (find_id f i xs)"
  using assms(1) by (induction xs) (auto simp: assms(2) to_valid_id)

lemma unmanaged_json:
  "clean_items m \<Longrightarrow> unmanaged (map (\<lambda>(k, v). (to_valid k, to_valid v)) m) kind j \<longleftrightarrow> unmanaged m kind j"
  by (simp add: clean_items_iff [THEN iffD2])

fun json_record :: "item_record \<Rightarrow> item_record" where
  "json_record (KeyRec k) = KeyRec (json_key k)"
| "json_record (HostRec h) = HostRec (json_host h)"
| "json_record (TunnelRec t) = TunnelRec (json_tunnel t)"
| "json_record (ServiceRec v) = ServiceRec (json_service v)"

lemma personal_json:
  assumes "personal s r" "tidy s" "json_record r = r"
  shows "personal (json_state s) r"
proof -
  have "free (map json_team (Team s)) kind j \<longleftrightarrow> free (Team s) kind j" for kind j
    using assms(2) by (simp add: free_def tidy_def json_team_def unmanaged_json)
  moreover have "find_id kID i (map json_key (Keys s)) = map_option json_key (find_id kID i (Keys s))"
    "find_id hID i (map json_host (Hosts s)) = map_option json_host (find_id hID i (Hosts s))"
    "find_id tID i (map json_tunnel (Tunnels s)) = map_option json_tunnel (find_id tID i (Tunnels s))"
    "find_id sID i (map json_service (Services s)) = map_option json_service (find_id sID i (Services s))" for i
    using assms(2) by (intro find_id_json; simp add: tidy_def json_key_def json_host_def json_tunnel_def json_service_def)+
  ultimately show ?thesis using assms(1,3) by (cases r) simp_all
qed

lemma personal_record_clean:
  assumes "personal s r" "utf8_clean s"
  shows "json_record r = r"
  using assms by (cases r) (auto simp: utf8_clean_iff dest!: find_id_SomeD)

text \<open>A feed of decoded JSON keeps identifiers tidy.\<close>

lemma ApplyFeed_tidy:
  assumes "ApplyFeed us now i incoming s = Inr s'" "i < length (Team s)" "utf8_clean s" "utf8_clean incoming"
  shows "tidy s'"
proof -
  let ?owned = "Items (Team s ! i)"
  obtain inkeys vs where k: "rmap (local_path s ?owned) (Keys incoming) = Inr inkeys"
    and ks: "syncRecords (Keys s) inkeys ''keys'' ?owned kID = Inr (Keys s')"
    and hs: "syncRecords (Hosts s) (Hosts incoming) ''hosts'' ?owned hID = Inr (Hosts s')"
    and ts: "syncRecords (Tunnels s) (Tunnels incoming) ''tunnels'' ?owned tID = Inr (Tunnels s')"
    and vs: "syncRecords (Services s) (Services incoming) ''services'' ?owned sID = Inr vs"
    and l: "list_all2 (\<lambda>v v'. relink us s' (mark_missing ?owned (Track incoming)) v = Inr v') vs (Services s')"
    and team: "Team s' = (Team s)[i := (Team s ! i)\<lparr>Items := mark_missing ?owned (Track incoming), LastSync := now, SubError := []\<rparr>]"
    by (rule ApplyFeed_Inr [OF assms(1)]) (rule that)
  note tidy = tidy_clean [OF assms(3), unfolded tidy_def] tidy_clean [OF assms(4), unfolded tidy_def]
  have "\<forall>k \<in> set inkeys. utf8_valid (kID k)"
    using ids_local_keys(1) [OF k] tidy(2) by (metis image_iff)
  then have "\<forall>k \<in> set (Keys s'). utf8_valid (kID k)" using syncRecords_Inr(6) [OF ks] tidy(1) by blast
  moreover have "\<forall>h \<in> set (Hosts s'). utf8_valid (hID h)" using syncRecords_Inr(6) [OF hs] tidy by blast
  moreover have "\<forall>t \<in> set (Tunnels s'). utf8_valid (tID t)" using syncRecords_Inr(6) [OF ts] tidy by blast
  moreover have "\<forall>v \<in> set (Services s'). utf8_valid (sID v)"
  proof (rule list_all2_Ball [OF l])
    fix v v'
    assume r: "relink us s' (mark_missing ?owned (Track incoming)) v = Inr v'" "v \<in> set vs"
    have "utf8_valid (sID v)" using r(2) syncRecords_Inr(6) [OF vs] tidy by blast
    with relink_id [OF r(1)] show "utf8_valid (sID v')" by simp
  qed
  moreover have "\<forall>m \<in> set (Team s'). clean_items (Items m)"
  proof -
    have old: "\<forall>m \<in> set (Team s). clean_items (Items m)" using tidy(1) by simp
    then have "clean_items ?owned" using assms(2) by simp
    then have "clean_items (mark_missing ?owned (Track incoming))"
      by (rule clean_mark_missing [OF _ clean_Track [OF assms(4)]])
    with old show ?thesis unfolding team by (auto dest!: subsetD [OF set_update_subset_insert])
  qed
  ultimately show ?thesis by (simp add: tidy_def)
qed

section \<open>Sequences of polls and requests\<close>

text \<open>A poll with its time, the answers it gets and the cancellation it meets; a request that
  manages a subscription.\<close>

datatype team_op =
    Poll "nat \<Rightarrow> stmt \<Rightarrow> bool" string "nat \<Rightarrow> team_source \<Rightarrow> state res" "nat \<Rightarrow> bool \<times> bool"
  | Manage "stmt \<Rightarrow> bool" string string string

fun run_op ::
  "(string \<Rightarrow> url option) \<Rightarrow> (string \<Rightarrow> string \<Rightarrow> string option) \<Rightarrow> (err \<Rightarrow> string) \<Rightarrow> team_op \<Rightarrow> db \<Rightarrow> db" where
  "run_op up us msg (Poll q now fetch ctx) d = pollTeam up q us now msg fetch ctx d"
| "run_op up us msg (Manage q action i url) d = snd (teamAction up q id action (Inr (i, url)) d)"

text \<open>Every configuration a poll receives is one encoding/json decoded, so its strings are valid UTF-8.\<close>

fun decoded_feeds :: "team_op \<Rightarrow> bool" where
  "decoded_feeds (Poll q now fetch ctx) \<longleftrightarrow> (\<forall>i src s. fetch i src = Inr s \<longrightarrow> utf8_clean s)"
| "decoded_feeds (Manage q action i url) \<longleftrightarrow> True"

definition kept :: "item_record \<Rightarrow> state \<Rightarrow> bool" where
  "kept r s \<longleftrightarrow> personal s r \<and> utf8_clean s"

text \<open>What the change of a transaction keeps, the transaction keeps.\<close>

lemma Update_keeps:
  assumes "kept r (load d)" "\<And>s. fn (load d) = Inr s \<Longrightarrow> personal s r \<and> tidy s"
  shows "kept r (load (snd (Update up q fn d)))"
proof -
  have clean: "json_record r = r" using assms(1) by (auto simp: kept_def intro: personal_record_clean)
  have "personal (config (load (snd (Update up q fn d)))) r"
  proof (rule sqlite.update_invariant [where P = "\<lambda>s. personal s r"])
    show "personal (config (load d)) r" using assms(1) by (simp add: kept_def personal_config)
    show "personal (config (json_state s)) r" if "fn (load d) = Inr s" for s
      using assms(2) [OF that] clean by (simp add: personal_config personal_json)
  qed
  with Update_keeps_text [of d up q fn] assms(1) show ?thesis by (simp add: kept_def personal_config)
qed

lemma poll_update_kept:
  assumes "poll_update us now msg sub fetched s = Inr s'" "kept r s" "\<And>t. fetched = Inr t \<Longrightarrow> utf8_clean t"
  shows "personal s' r \<and> tidy s'"
proof -
  have clean: "utf8_clean s" "tidy s" using assms(2) by (simp_all add: kept_def tidy_clean)
  have "tidy s'"
  proof (cases "first_where (same_subscription sub) (Team s)")
    case None
    with assms(1) clean show ?thesis by (simp add: poll_update_def)
  next
    case (Some i)
    then have i: "i < length (Team s)" by (simp add: first_where_Some)
    show ?thesis
    proof (cases fetched)
      case (Inl e)
      with assms(1) Some have "s' = s\<lparr>Team := (Team s)[i := (Team s ! i)\<lparr>SubError := msg e\<rparr>]\<rparr>" by (simp add: poll_update_def)
      with clean(2) i show ?thesis by (subst tidy_cong [of _ s]) (simp_all add: items_update)
    next
      case (Inr t)
      with assms(1) Some have "ApplyFeed us now i t s = Inr s'" by (simp add: poll_update_def)
      from ApplyFeed_tidy [OF this i clean(1) assms(3) [OF Inr]] show ?thesis .
    qed
  qed
  with poll_update_keeps [OF assms(1)] assms(2) show ?thesis by (simp add: kept_def)
qed

lemma mark_conflict_tidy: "tidy (mark_conflict sub m s) \<longleftrightarrow> tidy s"
  by (rule tidy_cong) (simp_all add: mark_conflict_def)

lemma poll_one_kept:
  assumes "kept r (load d)" "\<And>t. fetched = Inr t \<Longrightarrow> utf8_clean t"
  shows "kept r (load (poll_one up q q' us now msg sub fetched d))"
proof -
  have first: "kept r (load (snd (Update up q (poll_update us now msg sub fetched) d)))"
    using poll_update_kept [OF _ assms(1)] assms(2) by (intro Update_keeps [OF assms(1)]) blast
  show ?thesis
  proof (cases "Update up q (poll_update us now msg sub fetched) d")
    case (Pair res d1)
    show ?thesis
    proof (cases res)
      case (Inl e)
      have "kept r (load (snd (Update up q' (\<lambda>s. Inr (mark_conflict sub (msg e) s)) d1)))"
        using first Pair by (intro Update_keeps) (auto simp: kept_def mark_conflict_keeps mark_conflict_tidy tidy_clean)
      with Pair Inl show ?thesis by (simp add: poll_one_def)
    next
      case (Inr u)
      with Pair first show ?thesis by (simp add: poll_one_def)
    qed
  qed
qed

lemma poll_loop_kept:
  assumes "\<And>i sub src d. kept r (load d) \<Longrightarrow> kept r (load (one i sub (fetch i src) d))" "kept r (load d)"
  shows "kept r (load (poll_loop one fetch ctx i subs d))"
  using assms(2) by (induction subs arbitrary: i d) (simp_all add: assms(1))

lemma run_op_kept:
  assumes "kept r (load d)" "decoded_feeds op"
  shows "kept r (load (run_op up us msg op d))"
proof (cases op)
  case (Poll q now fetch ctx)
  have "kept r (load (poll_one up (q (2 * i + 1)) (q (2 * i + 2)) us now msg sub (fetch i src) e))"
    if "kept r (load e)" for sub i src e
    using that assms(2) Poll by (intro poll_one_kept) auto
  from poll_loop_kept [of r "\<lambda>i. poll_one up (q (2 * i + 1)) (q (2 * i + 2)) us now msg" fetch, OF this assms(1)] assms(1)
  show ?thesis by (simp add: Poll pollTeam_def split: sum.splits)
next
  case (Manage q action i url)
  have "personal s r \<and> tidy s" if s: "team_update up action i url (load d) = Inr s" for s
  proof
    note f = team_update_frame [OF s]
    show "personal s r"
      using assms(1) f by (subst personal_cong [of _ "load d"]) (simp_all add: kept_def)
    show "tidy s"
      using assms(1) f by (subst tidy_cong [of _ "load d"]) (simp_all add: kept_def tidy_clean)
  qed
  then show ?thesis using Update_keeps [OF assms(1)] assms(1) by (simp add: Manage teamAction_def)
qed

end
