(* ===== verification/Share_Correct.thy ===== *)
theory Share_Correct
  imports TeamPoll Store_Correct
begin

text \<open>
  What sharing promises: following feeds never touches personal records, the download page is
  local and read-only, and what it hands out is the current selection without local paths.
\<close>

section \<open>Following feeds\<close>

text \<open>C12. A record that no subscription manages survives, unchanged and still unmanaged, any
  sequence of polls and requests that manage the subscriptions, whatever the sources answer, which
  statements fail in each transaction and when a poll is cancelled. All strings the store holds and
  a source sends are valid UTF-8, as those are that encoding/json decoded; URLs and error texts put
  together on the way need not be.\<close>

theorem personal_records_survive:
  assumes "personal (load d) r" "utf8_clean (load d)" "\<And>op. op \<in> set ops \<Longrightarrow> decoded_feeds op"
  shows "personal (load (fold (run_op up us msg) ops d)) r"
proof -
  have "kept r (load d)" using assms(1,2) by (simp add: kept_def)
  then have "kept r (load (fold (run_op up us msg) ops d))"
    using assms(3) by (induction ops arbitrary: d) (simp_all add: run_op_kept)
  then show ?thesis by (simp add: kept_def)
qed

definition followed :: team_subscription where
  "followed = \<lparr>Source = \<lparr>tsURL = ''http://192.168.0.7:9877'', tsFeed = ''f'', tsPublicKey = ''p''\<rparr>,
     Items = [(''keys/k'', ''current''), (''hosts/b'', ''current'')], LastSync = [], SubError = [], Paused = False\<rparr>"

definition member_db :: db where
  "member_db = sample_db\<lparr>dTeam := [(''f'', followed)]\<rparr>"

definition moved_bastion :: state where
  "moved_bastion = empty_state\<lparr>Hosts := [sample_bastion\<lparr>hPort := 2222\<rparr>], Keys := [sample_key]\<rparr>"

definition stolen_server :: state where
  "stolen_server = moved_bastion\<lparr>Hosts := [sample_server\<lparr>hAddress := ''evil.example''\<rparr>]\<rparr>"

text \<open>A first poll that moves the bastion, one that tries to take over the member's own server and
  whose conflict cannot be noted at first, and a pause. Error texts are not valid UTF-8.\<close>

definition sample_ops :: "team_op list" where
  "sample_ops = [Poll (\<lambda>_ _. True) ''now'' (\<lambda>_ _. Inr moved_bastion) (\<lambda>_. (False, False)),
     Poll (\<lambda>n _. n \<noteq> 2) ''later'' (\<lambda>_ _. Inr stolen_server) (\<lambda>_. (False, False)),
     Poll (\<lambda>_ _. True) ''later'' (\<lambda>_ _. Inr stolen_server) (\<lambda>_. (False, False)),
     Manage (\<lambda>_. True) ''pause'' ''f'' []]"

definition after_ops :: db where
  "after_ops = fold (run_op (\<lambda>_. None) (\<lambda>_ _. None) (\<lambda>_. [CHR 0xFF])) sample_ops member_db"

lemma sample_feeds_clean: "utf8_clean moved_bastion" "utf8_clean stolen_server" "utf8_clean (load member_db)"
  unfolding utf8_clean_def by code_simp+

lemma sample_ops_decoded: "\<forall>op \<in> set sample_ops. decoded_feeds op"
  by (simp add: sample_ops_def sample_feeds_clean)

theorem personal_records_survive_witness:
  "find_id hID ''s'' (Hosts (load after_ops)) = Some sample_server
    \<and> map_option hPort (find_id hID ''b'' (Hosts (load after_ops))) = Some 2222
    \<and> map Paused (Team (load after_ops)) = [True]"
proof -
  have "personal (load member_db) (HostRec sample_server)" by code_simp
  then have "personal (load after_ops) (HostRec sample_server)"
    unfolding after_ops_def
    using sample_ops_decoded sample_feeds_clean(3) by (intro personal_records_survive) auto
  moreover have "map_option hPort (find_id hID ''b'' (Hosts (load after_ops))) = Some 2222"
    "map Paused (Team (load after_ops)) = [True]" by code_simp+
  ultimately show ?thesis by (simp add: sample_server_def)
qed

section \<open>The download page\<close>

text \<open>C36. The download page answers only requests from this machine or one of its own subnets whose
  \<open>Host\<close> is one of its own IPv4 addresses with port 9877 (so no foreign name leads to it), that a
  browser did not send from another site, and that only read; everything else gets 403 or 405 and
  nothing happens. An answer changes nothing but the list of peers, which never exceeds 128.\<close>

theorem download_page_is_local_and_readonly:
  assumes "shareHandler env nonce r sh d = (a, sh')"
  defines "nets \<equiv> shareNetworks (seIfaces env)"
  shows "(a = Refused 403 \<or> a = Refused 405) \<and> sh' = sh
    \<or> (\<exists>peer p host. SplitHostPort (rRemote r) = Some (peer, p) \<and> SplitHostPort (rHost r) = Some (host, ''9877'')
        \<and> ((\<exists>ip. ParseIP peer = Some ip \<and> IsLoopback ip) \<or> (\<exists>n \<in> set nets. net_Contains n (ParseIP peer)))
        \<and> (\<exists>n \<in> set nets. Option.bind (ParseIP host) To4 = Some (netIP n))
        \<and> rMethod r \<in> {''GET'', ''HEAD''} \<and> rHeader r ''Sec-Fetch-Site'' \<noteq> ''cross-site''
        \<and> rHeader r ''Origin'' \<in> {[], ''http://'' @ rHost r})
      \<and> (\<exists>peers. sh' = sh\<lparr>shPeers := peers\<rparr> \<and> (length (shPeers sh) \<le> 128 \<longrightarrow> length peers \<le> 128))"
proof (cases "share_guard nets r")
  case (Some n)
  then have "n = 403 \<or> n = 405" by (auto simp: share_guard_def split: if_splits)
  with Some assms show ?thesis by (auto simp: shareHandler_def)
next
  case None
  have port: "Itoa SharePort = ''9877''" by code_simp
  note guard = None [unfolded share_guard_None share_remote_ok_iff share_host_ok_iff port safe_method_def]
  from guard shareHandler_peers [OF assms(1)] show ?thesis
    unfolding max_peers_def by blast
qed

definition lan :: "iface list" where
  "lan = [(True, [Some (v4_in_6 [192, 168, 0, 7], [255, 255, 255, 0]), None]), (False, [])]"

definition quiet_share :: share where
  "quiet_share = \<lparr>shServer = Some 0, shStarted = 1, shPayload = [], shSelection = [], shConfig = None, shFeed = [],
     shPublic = [], shPeers = []\<rparr>"

definition lan_request :: "string \<Rightarrow> request" where
  "lan_request m = \<lparr>rMethod = m, rHost = ''192.168.0.7:9877'', rPath = ''/'', rHeader = (\<lambda>_. []),
     rRemote = ''192.168.0.9:50000'', rBody = []\<rparr>"

definition unreadable :: codec where
  "unreadable = \<lparr>MarshalBundle = (\<lambda>_. Inl (ShareErr JSONDecode)), DecodeStrict = (\<lambda>_. Inl (ShareErr JSONDecode)),
     UnmarshalBundle = (\<lambda>_. Inl (ShareErr JSONDecode)), MarshalIDs = (\<lambda>_. Inl (ShareErr JSONDecode)),
     UnmarshalIDs = (\<lambda>_. Inl (ShareErr JSONDecode)), MarshalMessage = (\<lambda>_. Inl (ShareErr JSONDecode)),
     UnmarshalMessage = (\<lambda>_. Inl (ShareErr JSONDecode)), MarshalSigned = (\<lambda>_. Inl (ShareErr JSONDecode)),
     UnmarshalSigned = (\<lambda>_. Inl (ShareErr JSONDecode))\<rparr>"

definition lan_env :: share_env where
  "lan_env = \<lparr>seParse = (\<lambda>_. None), seSQL = (\<lambda>_. True), seCodec = unreadable,
     seEd = \<lparr>edSign = (\<lambda>_ m. m), edVerify = (\<lambda>_ m s. m = s), edPublic = id\<rparr>,
     seJSON = (\<lambda>_. []), seSha = id, seZip = (\<lambda>_. []), sePrint = (\<lambda>_. False), seWindows = False, seExe = None, seWrite = (\<lambda>_. True),
     seIfaces = lan, seNow = [], seClock = 0\<rparr>"

theorem download_page_is_local_and_readonly_witness:
  "shareHandler lan_env [] (lan_request ''GET'') quiet_share sample_db = (Page False False, quiet_share)
   \<and> (\<exists>n \<in> set (shareNetworks lan). net_Contains n (ParseIP ''192.168.0.9''))"
proof -
  have s: "shareHandler lan_env [] (lan_request ''GET'') quiet_share sample_db = (Page False False, quiet_share)" by code_simp
  have "SplitHostPort ''192.168.0.9:50000'' = Some (''192.168.0.9'', ''50000'')" by code_simp
  moreover have "\<not> (case ParseIP ''192.168.0.9'' of None \<Rightarrow> False | Some i \<Rightarrow> IsLoopback i)" by code_simp
  ultimately show ?thesis
    using download_page_is_local_and_readonly [OF s] s by (auto simp: lan_request_def lan_env_def)
qed

text \<open>C37. What a visitor downloads is current: the package is the selection, from the store as it is
  now, of the shared keys that still exist, with key bytes of exactly these keys and the page itself
  as its source; the configuration file lists the same records. Neither holds a key path or a
  setting of this machine.\<close>

theorem downloads_are_current:
  assumes "reads_back c" "utf8_clean (load d)" "UnmarshalBundle c (shPayload sh) = Inr b0"
    and "downloadPayload up q c host sh d = Inr p" "p \<noteq> []"
  defines "ids \<equiv> filter (\<lambda>i. i \<in> kID ` set (Keys (load d))) (map kID (Keys (bState b0)))"
  shows "\<exists>r b. Select up (load d) ids = Inr r \<and> UnmarshalBundle c p = Inr b
    \<and> bState b = set_paths ''bundled-key'' r \<and> {i. map_of (bKeys b) i \<noteq> None} = kID ` set (Keys r)
    \<and> bSource b = Some (json_source \<lparr>tsURL = ''http://'' @ host, tsFeed = shFeed sh, tsPublicKey = shPublic sh\<rparr>)
    \<and> (shConfig sh \<noteq> None \<longrightarrow> serve_configuration up q c now host sh d = ConfigFile (share_backup now r))"
proof -
  have ids: "filter (\<lambda>i. ok (State_Key (load d) i)) (map kID (Keys (bState b0))) = ids"
    by (simp add: ids_def ok_State_Key)
  obtain b1 b r where "UnmarshalBundle c (shPayload sh) = Inr b1" "UnmarshalBundle c p = Inr b"
    "Select up (load d) (filter (\<lambda>i. ok (State_Key (load d) i)) (map kID (Keys (bState b1)))) = Inr r"
    "bState b = set_paths ''bundled-key'' r" "\<And>i. map_of (bKeys b) i \<noteq> None \<longleftrightarrow> i \<in> kID ` set (Keys r)"
    "bSource b = Some (json_source \<lparr>tsURL = ''http://'' @ host, tsFeed = shFeed sh, tsPublicKey = shPublic sh\<rparr>)"
    by (rule downloadPayload_Inr [OF assms(4,5,1,2)]) (rule that)
  note d = this
  have b: "b1 = b0" using d(1) assms(3) by simp
  have "share_backup now (bState b) = share_backup now r"
    by (simp add: share_backup_def d(4) set_paths_def)
  then have "shConfig sh \<noteq> None \<longrightarrow> serve_configuration up q c now host sh d = ConfigFile (share_backup now r)"
    using assms(4) d(2) by (auto simp: serve_configuration_def)
  moreover have "{i. map_of (bKeys b) i \<noteq> None} = kID ` set (Keys r)" using d(5) by auto
  ultimately show ?thesis using d(2-4,6) ids b by auto
qed

definition page_parser :: "string \<Rightarrow> url option" where
  "page_parser u = Some \<lparr>uScheme = ''http'', uOpaque = [], uHasUser = False, uHost = ''192.168.0.7:9877'', uPath = [],
     uRawQuery = [], uFragment = []\<rparr>"

definition prepared_bundle :: team_bundle where
  "prepared_bundle = \<lparr>bSource = None, bVersion = 1,
     bState = empty_state\<lparr>Keys := [sample_key, \<lparr>kID = ''gone'', kName = ''old'', kPath = ''bundled-key''\<rparr>]\<rparr>,
     bKeys = [(''k'', ''PEM''), (''gone'', ''OLD'')]\<rparr>"

definition refreshed_bundle :: team_bundle where
  "refreshed_bundle = prepared_bundle\<lparr>bState := set_paths ''bundled-key'' (projr (Select page_parser sample_state [''k''])),
     bKeys := [(''k'', ''PEM'')]\<rparr>"

definition page_source :: team_source where
  "page_source = \<lparr>tsURL = ''http://192.168.0.7:9877'', tsFeed = replicate 64 CHR ''a'', tsPublicKey = replicate 32 CHR ''p''\<rparr>"

definition page_codec :: codec where
  "page_codec = unreadable\<lparr>
     MarshalBundle := (\<lambda>b. if b = refreshed_bundle then Inr ''refreshed''
        else if b = refreshed_bundle\<lparr>bSource := Some page_source\<rparr> then Inr ''attached'' else Inl (ShareErr JSONDecode)),
     UnmarshalBundle := (\<lambda>t. if t = ''prepared'' then Inr prepared_bundle else if t = ''refreshed'' then Inr refreshed_bundle
        else if t = ''attached'' then Inr (refreshed_bundle\<lparr>bSource := Some page_source\<rparr>) else Inl (ShareErr JSONDecode))\<rparr>"

definition prepared_share :: share where
  "prepared_share = quiet_share\<lparr>shPayload := ''prepared'', shSelection := [''k'', ''gone''],
     shConfig := Some (share_backup [] empty_state), shFeed := replicate 64 CHR ''a'', shPublic := replicate 32 CHR ''p''\<rparr>"

lemma page_codec_reads_back: "reads_back page_codec"
proof -
  have "wire_bundle refreshed_bundle = refreshed_bundle"
    "wire_bundle (refreshed_bundle\<lparr>bSource := Some page_source\<rparr>) = refreshed_bundle\<lparr>bSource := Some page_source\<rparr>"
    by code_simp+
  then show ?thesis
    by (auto simp: reads_back_def page_codec_def split: if_splits intro!: exI [of _ "bKeys refreshed_bundle"])
qed

theorem downloads_are_current_witness:
  "\<exists>r b. Select page_parser sample_state [''k''] = Inr r \<and> UnmarshalBundle page_codec ''attached'' = Inr b
     \<and> {i. map_of (bKeys b) i \<noteq> None} = kID ` set (Keys r)"
proof -
  have c: "utf8_clean (load sample_db)" by (simp add: load_sample sample_utf8)
  have u: "UnmarshalBundle page_codec (shPayload prepared_share) = Inr prepared_bundle" by code_simp
  have p: "downloadPayload page_parser (\<lambda>_. True) page_codec ''192.168.0.7:9877'' prepared_share sample_db = Inr ''attached''"
    by code_simp
  have ids: "filter (\<lambda>i. i \<in> kID ` set (Keys (load sample_db))) (map kID (Keys (bState prepared_bundle))) = [''k'']"
    by code_simp
  have "''attached'' \<noteq> []" by simp
  from downloads_are_current [OF page_codec_reads_back c u p this, of "[]", unfolded load_sample ids [unfolded load_sample]]
  show ?thesis by blast
qed

end
