(* ===== verification/Files_Correct.thy ===== *)
theory Files_Correct
  imports WebFiles Store_Correct
begin

text \<open>
  What changing files through the browser promises: an edit never overwrites what someone else
  wrote, a request that fails leaves no trace, and an upload is stored as it was sent.
\<close>

section \<open>The editor\<close>

text \<open>C8. The editor saves only over what the client has seen: when it answers that the file was
  saved, the path is the one in the settings, the file had the client's revision both at the start
  and right before the replacement, the new text is no private key and well-formed for its kind, and
  reading the file afterwards yields the text with the revision returned. Others leave the temporary
  file alone.\<close>

theorem editor_saves_over_what_was_read:
  assumes "settingsEditor q os ul can short sha kh between tmp action (Inr req) d fs = (EditSaved path new_rev, fs')"
    and "\<And>fs. between fs tmp = fs tmp" "tmp \<noteq> path"
  defines "fs2 \<equiv> between (fs(tmp \<mapsto> file_of (edContent req)))"
  shows "edPath req = path \<and> editor_path os (edKind req) (Settings (load d)) = Inr path
    \<and> (\<exists>old. readSettingsText True sha fs path = Inr (old, edRevision req))
    \<and> (\<exists>old. readSettingsText True sha fs2 path = Inr (old, edRevision req))
    \<and> settingsText (edContent req) \<and> (edKind req = ''ssh_config'' \<longrightarrow> ok (Parse ul (edContent req)))
    \<and> (edKind req = ''known_hosts'' \<longrightarrow> kh (edContent req))
    \<and> readSettingsText True sha fs' path = Inr (edContent req, new_rev)
    \<and> (\<forall>p. p \<noteq> path \<longrightarrow> p \<noteq> tmp \<longrightarrow> fs' p = fs2 p)"
proof -
  let ?b = "edContent req"
  obtain content where p: "editor_path os (edKind req) (Settings (load d)) = Inr path"
    and c: "readSettingsText (can (LookAt 0)) sha fs path = Inr (content, edRevision req)" "edPath req = path" "action = ''save''"
    and size: "length ?b \<le> max_text" "settingsText ?b" "edKind req = ''ssh_config'' \<longrightarrow> ok (Parse ul ?b)"
    and w: "editor_write can short sha kh between tmp path req (edRevision req) fs = (EditSaved path new_rev, fs')"
    using assms(1)
    by (auto simp: settingsEditor_def Snapshot_def rbind_eq_Inr rbind_eq_Inl editor_write_def Let_def
        split: sum.splits if_splits prod.splits)
  from w have can: "can (WriteNew 0)" "edKind req = ''known_hosts'' \<longrightarrow> kh ?b"
    by (auto simp: editor_write_def Let_def split: if_splits)
  from w can obtain old where r: "readSettingsText (can (LookAt 1)) sha fs2 path = Inr (old, edRevision req)"
    and e: "new_rev = EncodeToString (sha ?b)" "fs' = fs2(path := fs2 tmp, tmp := None)"
    by (auto simp: editor_write_def Let_def fs2_def split: if_splits sum.splits prod.splits)
  have "fs' path = Some (file_of ?b)" using e(2) assms(2,3) by (simp add: fs2_def)
  then have "readSettingsText True sha fs' path = Inr (?b, new_rev)"
    using size by (simp add: readSettingsText_def file_of_def e(1) Let_def)
  with p c(2) size can e(2) readSettingsText_seen [OF c(1)] readSettingsText_seen [OF r] show ?thesis by auto
qed

definition editor_db :: db where
  "editor_db = sample_db\<lparr>dSettings := [(''global'', \<lparr>KnownHosts = [], SSHConfig = ''/c''\<rparr>)]\<rparr>"

definition editor_fs :: fs where
  "editor_fs = (\<lambda>p. if p = ''/c'' then Some (file_of ''Host a'') else None)"

definition editor_save :: edit_request where
  "editor_save = \<lparr>edKind = ''ssh_config'', edPath = ''/c'', edRevision = EncodeToString ''Host a'',
     edContent = ''Host b''\<rparr>"

theorem editor_saves_over_what_was_read_witness:
  "readSettingsText True id (snd (settingsEditor (\<lambda>_. True) (unix_os None) id (\<lambda>_. True) 0 id (\<lambda>_. True) id ''/t'' ''save''
     (Inr editor_save) editor_db editor_fs)) ''/c'' = Inr (''Host b'', EncodeToString ''Host b'')"
proof -
  let ?run = "settingsEditor (\<lambda>_. True) (unix_os None) id (\<lambda>_. True) 0 id (\<lambda>_. True) id ''/t'' ''save''
     (Inr editor_save) editor_db editor_fs"
  have "fst ?run = EditSaved ''/c'' (EncodeToString ''Host b'')" by code_simp
  then have "?run = (EditSaved ''/c'' (EncodeToString ''Host b''), snd ?run)" by (simp add: prod_eq_iff)
  from editor_saves_over_what_was_read [OF this] show ?thesis by (simp add: editor_save_def)
qed

section \<open>Failures\<close>

text \<open>C38. A request that fails leaves no trace: an upload of a key or of settings that is refused
  at any point, by a check, the operating system or the database, leaves the database as it was, and
  so does every file; an edit that is not saved leaves every file as it was. The only exception are
  the new files of the request itself (those of the upload, and the temporary file of the editor, which is
  new) as far as the operating system refuses to remove them: the program tries once.\<close>

theorem failed_file_requests_leave_no_trace:
  shows "(\<forall>e d' fs'. uploadKey up q os pk can short new dir key_request d fs = (Inl e, d', fs') \<longrightarrow>
        d' = d \<and> undone can (uploaded os dir ''uploaded-keys'' new) fs fs')
    \<and> (\<forall>e d' fs'. uploadSettings up q os ul kh can short new dir settings_request d fs = (Inl e, d', fs') \<longrightarrow>
        d' = d \<and> undone can (uploaded os dir ''uploaded-settings'' new) fs fs')
    \<and> (\<forall>r fs'. fs tmp = None \<and> settingsEditor q os ul can short sha kh id tmp action edit_request d fs = (r, fs')
         \<and> (\<forall>p v. r \<noteq> EditSaved p v) \<longrightarrow> undone can (\<lambda>_. tmp) fs fs')"
  using uploadKey_failed uploadSettings_failed settingsEditor_failed by metis

text \<open>A key the parser refuses: its file is removed again, and stays only if that is refused.\<close>

definition refused_upload :: "(file_op \<Rightarrow> bool) \<Rightarrow> unit res \<times> db \<times> fs" where
  "refused_upload can = uploadKey (\<lambda>_. None) (\<lambda>_. True) (unix_os None) (\<lambda>_. NotAKey :: unit key_parse) can 0 (\<lambda>_. ''n'') ''/d''
     (Inr ([], ''mine'', ''secret'')) sample_db (\<lambda>_. None)"

theorem failed_file_requests_leave_no_trace_witness:
  "snd (refused_upload (\<lambda>_. True)) = (sample_db, \<lambda>_. None)
    \<and> snd (snd (refused_upload (\<lambda>c. c \<noteq> RemoveNew 0))) ''/d/uploaded-keys/n'' = Some (file_of ''secret'')"
proof -
  let ?run = "refused_upload (\<lambda>_. True)"
  have "fst ?run = Inl (KeyErr KeyFormat)" by code_simp
  then have e: "?run = (Inl (KeyErr KeyFormat), fst (snd ?run), snd (snd ?run))" by (simp add: prod_eq_iff)
  from failed_file_requests_leave_no_trace [where can = "\<lambda>_. True" and fs = "\<lambda>_. None",
      THEN conjunct1, rule_format, OF e [unfolded refused_upload_def]]
  have "snd ?run = (sample_db, \<lambda>_. None)"
    by (auto simp: undone_def refused_def refused_upload_def [symmetric] prod_eq_iff)
  moreover have "snd (snd (refused_upload (\<lambda>c. c \<noteq> RemoveNew 0))) ''/d/uploaded-keys/n'' = Some (file_of ''secret'')"
    by code_simp
  ultimately show ?thesis by simp
qed

section \<open>Uploads\<close>

text \<open>C39. An uploaded key is stored as it was sent: when the upload succeeds, a new file that was
  not there before holds exactly the bytes sent, it is a private key the program can use, and every
  other file is as before. The configuration is the old one but for one key record, which has the
  name and the path of the new file: without an identifier in the request it comes last, with a new
  identifier, and with one it takes the place of the record that has it. Strings go through JSON.\<close>

theorem uploaded_key_is_stored_as_sent:
  assumes "uploadKey up q os pk can short new dir (Inr (i, name, b)) d fs = (Inr (), d', fs')"
  defines "path \<equiv> uploaded os dir ''uploaded-keys'' new 0"
  shows "fs path = None \<and> fs' = fs(path \<mapsto> file_of b) \<and> key_Validate os fs' pk path = Inr ()
    \<and> (\<exists>ks. load d' = (json_state ((load d)\<lparr>Keys := ks\<rparr>))\<lparr>History := History (load d)\<rparr>
        \<and> (if i = [] then ks = Keys (load d) @ [\<lparr>kID = new 1, kName = name, kPath = path\<rparr>]
           else \<exists>before old after. Keys (load d) = before @ old # after \<and> kID old = i \<and> i \<notin> kID ` set before
             \<and> ks = before @ \<lparr>kID = i, kName = name, kPath = path\<rparr> # after))"
proof -
  let ?k = "\<lparr>kID = (if i = [] then new 1 else i), kName = name, kPath = path\<rparr>"
  obtain r created fs1 where c: "create_file can short 0 path b fs = (r, created, fs1)"
    by (cases "create_file can short 0 path b fs") auto
  have r: "r = Inr ()" "key_Validate os fs1 pk path = Inr ()"
    and u: "Update up q (new_key new i name path) d = (Inr (), d')" and fs': "fs' = fs1"
    using assms(1) c
    by (auto simp: uploadKey_def path_def uploaded_def Let_def rbind_eq_Inr rbind_eq_Inl split: sum.splits prod.splits)
  have f: "fs path = None" "fs1 = fs(path \<mapsto> file_of b)"
    using c r(1) by (auto simp: create_file_def check_eq_Inr split: if_splits)
  obtain s where s: "new_key new i name path (load d) = Inr s" "load d' = (json_state s)\<lparr>History := History (load d)\<rparr>"
    using Update_Inr [OF u] write_state_Inr(1) by blast
  then obtain ks where ks: "Replace (Keys (load d)) i ?k kID = Inr ks" "s = (load d)\<lparr>Keys := ks\<rparr>"
    by (auto simp: new_key_def rbind_eq_Inr)
  from ks(1) have "if i = [] then ks = Keys (load d) @ [?k]
      else \<exists>a x b. Keys (load d) = a @ x # b \<and> kID x = i \<and> i \<notin> kID ` set a \<and> ks = a @ ?k # b"
    by (simp only: Replace_Inr)
  with f fs' r(2) s(2) ks(2) show ?thesis by (cases "i = []") auto
qed

theorem uploaded_key_is_stored_as_sent_witness:
  "snd (snd (uploadKey (\<lambda>_. None) (\<lambda>_. True) (unix_os None) (\<lambda>_. ParsedKey ()) (\<lambda>_. True) 0 (\<lambda>_. ''n'') ''/d''
       (Inr ([], ''mine'', ''secret'')) sample_db (\<lambda>_. None))) = [''/d/uploaded-keys/n'' \<mapsto> file_of ''secret'']"
proof -
  let ?run = "uploadKey (\<lambda>_. None) (\<lambda>_. True) (unix_os None) (\<lambda>_. ParsedKey ()) (\<lambda>_. True) 0 (\<lambda>_. ''n'') ''/d''
       (Inr ([], ''mine'', ''secret'')) sample_db (\<lambda>_. None)"
  have "fst ?run = Inr ()" by code_simp
  then have e: "?run = (Inr (), fst (snd ?run), snd (snd ?run))" by (simp add: prod_eq_iff)
  have "uploaded (unix_os None) ''/d'' ''uploaded-keys'' (\<lambda>_. ''n'') 0 = ''/d/uploaded-keys/n''" by code_simp
  with uploaded_key_is_stored_as_sent [OF e] show ?thesis by simp
qed

end
