(* ===== verification/SshClient_Correct.thy ===== *)
theory SshClient_Correct
  imports SshClient Store_Correct
begin

text \<open>
  What connecting promises: the hops of the jump chain in order, each through the one before,
  every server's key verified, and nothing left open when a hop fails.
\<close>

section \<open>A sample network\<close>

text \<open>A network that checks host keys, reaches everything and lets hop \<open>bad\<close> fail its handshake.\<close>

definition sample_net :: "nat option \<Rightarrow> unit net" where
  "sample_net bad = \<lparr>nDial = (\<lambda>_ _ _. Inr ()), nServerKey = (\<lambda>_. ''server-key''),
     nHandshake = (\<lambda>i a _ _ cb. if bad = Some i then Inl (Ext ''refused'') else cb a ''server-key''),
     nExpired = (\<lambda>_. False), nRequest = (\<lambda>_. Inr ())\<rparr>"

definition sample_policy :: "string \<Rightarrow> string \<Rightarrow> callback res" where
  "sample_policy = HostKeyCallback (unix_os None) (\<lambda>_. Some \<lparr>fRegular = True, fSize = 0, fContent = [], fReadOk = True\<rparr>)
     id (\<lambda>_. Some (\<lambda>_ _. KeyKnown))"

definition sample_chain :: "host list" where
  "sample_chain = [sample_bastion, sample_server]"

definition sample_hosts :: state where
  "sample_hosts = sample_state\<lparr>Settings := \<lparr>KnownHosts = ''/home/u/.ssh/known_hosts'', SSHConfig = []\<rparr>\<rparr>"

section \<open>Properties\<close>

text \<open>A failed connection leaves nothing open: every client that was opened is closed, the last
  one first, and the raw connection of a hop whose handshake failed is closed as well.\<close>

theorem failed_connect_leaves_nothing_open:
  assumes "connect net t signer policy s chain = (Inl e, tr)"
  shows "closed tr = rev (opened tr) \<and> shaken tr = opened tr @ raw_closed tr \<and> length (opened tr) < length chain"
proof -
  have "\<exists>n < length chain. opened tr = [0..<n] \<and> closed tr = rev [0..<n] \<and> shaken tr = [0..<n] @ raw_closed tr"
    using connect_loop_trace [OF assms [unfolded connect_def]] by auto
  then show ?thesis by auto
qed

theorem failed_connect_leaves_nothing_open_witness:
  "closed (snd (connect (sample_net (Some 1)) 0 (\<lambda>_ _. Inr ()) sample_policy sample_hosts sample_chain)) = [0]"
proof -
  let ?c = "connect (sample_net (Some 1)) 0 (\<lambda>_ _. Inr ()) sample_policy sample_hosts sample_chain"
  have f: "fst ?c = Inl (Named ''app'' (Ext ''refused''))" and o: "opened (snd ?c) = [0]" by code_simp+
  then have e: "?c = (Inl (Named ''app'' (Ext ''refused'')), snd ?c)" by (metis prod.collapse)
  from failed_connect_leaves_nothing_open [OF e] o show ?thesis by simp
qed

text \<open>C28. A successful \<open>Connect\<close> dials exactly the hosts of the jump chain in order, the first one
  directly and each later one through the client before it, ends at the requested host with one
  client per hop, all open, and records one successful attempt; closing the connection closes
  them in reverse order, and closing it again does nothing.\<close>

theorem Connect_follows_chain:
  assumes "Connect net t signer policy q msg rowid at i d = (Inr c, tr, d')"
  shows "\<exists>hs. Chain (load d) i = Inr hs \<and> hs \<noteq> [] \<and> dialled tr = route_dials 0 hs
    \<and> opened tr = [0..<length hs] \<and> closed tr = [] \<and> raw_closed tr = []
    \<and> cClients c = length hs \<and> d' = Record q rowid at (last hs) ''ssh'' None d
    \<and> closed (snd (conn_Close c)) = rev [0..<length hs] \<and> snd (conn_Close (fst (conn_Close c))) = []"
proof -
  obtain s h hs where s: "Snapshot q d = Inr s" "Chain s i = Inr (h # hs)"
    and c: "connect net t signer policy s (h # hs) = (Inr c, tr)"
    and d': "d' = Record q rowid at (last (h # hs)) ''ssh'' None d"
    using assms by (auto simp: Connect_def Let_def split: sum.splits list.splits prod.splits)
  have "s = load d" using s(1) by (auto simp: Snapshot_def res_simps)
  moreover have "c = \<lparr>cClients = length (h # hs), cDone = False\<rparr> \<and> opened tr = [0..<length (h # hs)] \<and> closed tr = []
        \<and> raw_closed tr = [] \<and> dialled tr = route_dials 0 (h # hs)"
    using connect_loop_trace [OF c [unfolded connect_def]] by auto
  ultimately show ?thesis
    using s(2) d' by (intro exI [of _ "h # hs"]) (simp add: conn_Close_def del: upt_Suc)
qed

theorem Connect_follows_chain_witness:
  "\<exists>d'. Connect (sample_net None) 0 (\<lambda>_ _. Inr ()) sample_policy (\<lambda>_. True) (\<lambda>_. []) ''h1'' ''t0'' ''s''
     (sample_db\<lparr>dSettings := [(''global'', Settings sample_hosts)]\<rparr>) =
     (Inr \<lparr>cClients = 2, cDone = False\<rparr>,
      [Dial None ''192.0.2.1:22'', Handshake 0, OpenClient 0, Dial (Some 0) ''app.internal:22'', Handshake 1, OpenClient 1], d')
     \<and> dHistory d' = [(''h1'', json_history (history_entry ''h1'' ''t0'' sample_server ''ssh'' None))]"
proof -
  let ?d = "sample_db\<lparr>dSettings := [(''global'', Settings sample_hosts)]\<rparr>"
  let ?tr = "[Dial None ''192.0.2.1:22'', Handshake 0, OpenClient 0, Dial (Some 0) ''app.internal:22'', Handshake 1, OpenClient 1]"
  let ?c = "Connect (sample_net None) 0 (\<lambda>_ _. Inr ()) sample_policy (\<lambda>_. True) (\<lambda>_. []) ''h1'' ''t0'' ''s'' ?d"
  have "fst ?c = Inr \<lparr>cClients = 2, cDone = False\<rparr>" "fst (snd ?c) = ?tr" by code_simp+
  then have e: "?c = (Inr \<lparr>cClients = 2, cDone = False\<rparr>, ?tr, snd (snd ?c))" by (metis prod.collapse)
  have "Chain (load ?d) ''s'' = Inr sample_chain" by code_simp
  with Connect_follows_chain [OF e]
  have "snd (snd ?c) = Record (\<lambda>_. True) ''h1'' ''t0'' (last sample_chain) ''ssh'' None ?d" by auto
  moreover have "dHistory (Record (\<lambda>_. True) ''h1'' ''t0'' (last sample_chain) ''ssh'' None ?d) =
      [(''h1'', json_history (history_entry ''h1'' ''t0'' sample_server ''ssh'' None))]"
    by (simp add: Record_def sample_db_def fresh_db_def history_limit_def sample_chain_def)
  ultimately show ?thesis using e by metis
qed

text \<open>C10. There is no trust on first use: when a connection succeeds, the server of every hop has
  shown a key whose fingerprint is the one pinned for its host or, without a pin, a key that the
  known_hosts file lists for its address.\<close>

theorem host_keys_are_verified:
  assumes "connect net t signer (HostKeyCallback os fs fp kh) s chain = (Inr c, tr)" "checks_keys net"
    and "j < length chain"
  shows "trusted os fs fp kh (KnownHosts (Settings s)) (chain ! j) (nServerKey net j)"
proof -
  let ?prep = "prepare_hop signer (HostKeyCallback os fs fp kh) s"
  have "hop_ok net (hop_timeout t) ?prep (0 + j) (chain ! j)"
    by (rule connect_loop_ok [OF assms(1) [unfolded connect_def] assms(3)])
  then obtain sg cb where cb: "?prep (chain ! j) = Inr (sg, cb)"
    "nHandshake net j (hop_address (chain ! j)) (hUsername (chain ! j)) sg cb = Inr ()"
    by (auto simp: hop_ok_def)
  then have "HostKeyCallback os fs fp kh (KnownHosts (Settings s)) (hFingerprint (chain ! j)) = Inr cb"
    by (auto simp: prepare_hop_def res_simps)
  moreover have "cb (hop_address (chain ! j)) (nServerKey net j) = Inr ()"
    using assms(2) cb(2) by (simp add: checks_keys_def)
  ultimately show ?thesis by (rule HostKeyCallback_trusted)
qed

theorem host_keys_are_verified_witness:
  "trusted (unix_os None) (\<lambda>_. None) id (\<lambda>_. None) [] (sample_bastion\<lparr>hFingerprint := ''server-key''\<rparr>) ''server-key''"
proof -
  let ?h = "sample_bastion\<lparr>hFingerprint := ''server-key''\<rparr>"
  let ?c = "connect (sample_net None) 0 (\<lambda>_ _. Inr ()) (HostKeyCallback (unix_os None) (\<lambda>_. None) id (\<lambda>_. None)) sample_state [?h]"
  have "fst ?c = Inr \<lparr>cClients = 1, cDone = False\<rparr>" by code_simp
  then have e: "?c = (Inr \<lparr>cClients = 1, cDone = False\<rparr>, snd ?c)" by (metis prod.collapse)
  have "checks_keys (sample_net None)" by (simp add: checks_keys_def sample_net_def)
  from host_keys_are_verified [OF e this, of 0] show ?thesis by (simp add: sample_net_def sample_defs)
qed

end
