(* ===== verification/Server_Correct.thy ===== *)
theory Server_Correct
  imports WebServer Share_Correct Files_Correct SshClient_Correct Records_Correct
begin

text \<open>
  What the management interface promises as a whole: nothing changes without the session token,
  a browser is only ever sent to a service whose tunnel is up, and terminals are authenticated,
  bounded and released.
\<close>

section \<open>The session token\<close>

text \<open>C2. Nothing happens without the session token: if a request to the management interface
  changes anything (records, history, files, the download page, the terminals) or makes any call (a
  tunnel, a browser, an SSH connection), then it was addressed to the origin itself, no browser
  sent it from another origin or site, and it carries the token in its header with a method other
  than GET and HEAD, or it is a terminal whose first message carries the token, which changes
  nothing but the connection history.\<close>

theorem changes_need_the_session_token:
  assumes "serve E R J r sv = (a, cs, sv')" "sv' \<noteq> sv \<or> cs \<noteq> []" "wrNew R 1 \<notin> set (hbOpen (svHub sv))"
  shows "rHost r = TrimPrefix (weOrigin E) ''http://'' \<and> rHeader r ''Origin'' \<in> {[], weOrigin E}
    \<and> rHeader r ''Sec-Fetch-Site'' \<noteq> ''cross-site''
    \<and> (rMethod r \<notin> {''GET'', ''HEAD''} \<and> rHeader r ''X-CSRF-Token'' = weToken E
       \<or> (\<exists>i m d'. route (rMethod r) (rPath r) = Terminal i \<and> rHeader r ''Origin'' = weOrigin E
            \<and> tnFirst (wrTerm R) = Inr m \<and> inToken m = weToken E \<and> (\<forall>c \<in> set cs. \<exists>x. c = Ssh x)
            \<and> sv' = sv\<lparr>svDb := d'\<rparr> \<and> config (load d') = config (load (svDb sv)) \<and> dLocal d' = dLocal (svDb sv)))"
proof -
  have s: "security (weOrigin E) (weToken E) r = None"
    using assms(1,2) by (cases "security (weOrigin E) (weToken E) r") (auto simp: serve_def)
  show ?thesis
  proof (cases "safe_method (rMethod r)")
    case False
    with s show ?thesis by (auto simp: security_None safe_method_def)
  next
    case True
    let ?e = "route (rMethod r) (rPath r)"
    have r: "reads_only ?e" by (rule route_safe [OF True])
    have "look E R r ?e sv = (a, cs, sv')"
      using assms(1) s r by (auto simp: serve_def handle_def reads_only_def split: endpoint.splits)
    from look_terminal [OF this r assms(3)] assms(2) obtain i m d' where
      "?e = Terminal i" "rHeader r ''Origin'' = weOrigin E" "tnFirst (wrTerm R) = Inr m"
      "authenticated (weToken E) m" "sv' = sv\<lparr>svDb := d'\<rparr>" "config (load d') = config (load (svDb sv))"
      "dLocal d' = dLocal (svDb sv)" "\<forall>c \<in> set cs. \<exists>x. c = Ssh x" by blast
    with s show ?thesis by (auto simp: security_None authenticated_def)
  qed
qed

definition desk :: "unit web_env" where
  "desk = \<lparr>weOrigin = ''http://127.0.0.1:9876'', weToken = ''secret'', weParse = (\<lambda>_. None), weSQL = (\<lambda>_. True),
     weOS = unix_os None, weKey = (\<lambda>_. NotAKey), weFold = id, weCodec = unreadable, weEd = seEd lan_env,
     weGen = Inr [], weSha = id, weHosts = (\<lambda>_. True), weMsg = (\<lambda>_. []), weURL = (\<lambda>_ _. None), weDir = ''/d'',
     weStartup = startup_init ''/c''\<rparr>"

definition quiet_run :: "unit web_run" where
  "quiet_run = \<lparr>wrCan = (\<lambda>_. True), wrShort = 0, wrBetween = id, wrTmp = ''/t'', wrNew = (\<lambda>_. ''n''), wrNow = ''t0'',
     wrClock = 0, wrNet = sample_net None, wrSigner = (\<lambda>_ _. Inr ()), wrPolicy = sample_policy, wrStart = (\<lambda>_. Inr ()),
     wrReady = (\<lambda>_. Inr ()), wrBrowse = (\<lambda>_. Inr ()), wrPicker = (False, Inr []), wrPoll = (\<lambda>_ _. True), wrFetch = (\<lambda>_ _. Inl (ShareErr BadURL)),
     wrCtx = (\<lambda>_. (False, False)), wrListen = None, wrIfaces = [], wrLocal = None,
     wrTerm = \<lparr>tnAccept = True, tnFirst = Inr \<lparr>inType = ''auth'', inData = [], inCols = 1, inRows = 900, inToken = ''secret''\<rparr>,
       tnSession = None, tnPty = None, tnPipes = True, tnShell = None\<rparr>,
     wrMessages = [(Some \<lparr>inType = ''input'', inData = ''ls'', inCols = 0, inRows = 0, inToken = []\<rparr>, True)]\<rparr>"

definition no_json :: web_json where
  "no_json = \<lparr>wjRecord = (\<lambda>_. no_body), wjKey = (\<lambda>_. Inl (WebErr NotOneObject)), wjSettings = (\<lambda>_. Inl (WebErr NotOneObject)),
     wjEdit = (\<lambda>_. Inl (WebErr NotOneObject)), wjTeam = (\<lambda>_. Inl (WebErr NotOneObject)),
     wjShare = (\<lambda>_. Inl (WebErr NotOneObject)), wjImport = (\<lambda>_. Inl (WebErr NotOneObject)),
     wjBackup = (\<lambda>_. Inl (WebErr NotOneObject))\<rparr>"

definition idle_server :: server where
  "idle_server = \<lparr>svDb = sample_db, svFiles = (\<lambda>_. None), svShare = quiet_share,
     svHub = \<lparr>hbClosed = False, hbOpen = []\<rparr>, svTunnels = init_shared False\<rparr>"

definition stop_request :: request where
  "stop_request = \<lparr>rMethod = ''POST'', rHost = ''127.0.0.1:9876'', rPath = ''/api/tunnels/t/stop'',
     rHeader = (\<lambda>h. if h = ''X-CSRF-Token'' then ''secret'' else if h = ''Content-Type'' then ''application/json'' else []),
     rRemote = ''127.0.0.1:50000'', rBody = []\<rparr>"

theorem changes_need_the_session_token_witness:
  "serve desk quiet_run no_json stop_request idle_server = (TunnelList [], [Call (StopCall ''t'')], idle_server)
   \<and> rHeader stop_request ''X-CSRF-Token'' = weToken desk"
proof -
  let ?s = "serve desk quiet_run no_json stop_request idle_server"
  have "fst ?s = TunnelList []" "fst (snd ?s) = [Call (StopCall ''t'')]" by code_simp+
  moreover have "snd (snd ?s) = idle_server"
  proof -
    have "security (weOrigin desk) (weToken desk) stop_request = None" by code_simp
    moreover have "route (rMethod stop_request) (rPath stop_request) = TunnelAction ''t'' ''stop''" by code_simp
    ultimately show ?thesis by (simp add: serve_def handle_def use_network_def tunnelAction_def)
  qed
  ultimately have s: "?s = (TunnelList [], [Call (StopCall ''t'')], idle_server)" by (simp add: prod_eq_iff)
  have "rMethod stop_request \<noteq> ''GET''" by (simp add: stop_request_def)
  moreover have "wrNew quiet_run 1 \<notin> set (hbOpen (svHub idle_server))" by (simp add: idle_server_def)
  moreover have "route (rMethod stop_request) (rPath stop_request) = TunnelAction ''t'' ''stop''" by code_simp
  ultimately show ?thesis using changes_need_the_session_token [OF s] s by auto
qed

section \<open>Services\<close>

text \<open>C32. A browser is sent only to a service that is up: when opening a service opens a browser, the
  address is the one saved for the service, an HTTP address on 127.0.0.1 with the local port of the
  tunnel it belongs to; no other configuration of that tunnel was active; and the tunnel was started
  and found ready first, in this order.\<close>

theorem services_open_after_their_tunnel:
  assumes "openService up q (ConfigChanged sh) start ready browse i d = (x, cs)" "Browse u \<in> set cs"
  shows "\<exists>v t p. find_id sID i (Services (load d)) = Some v \<and> find_id tID (sTunnelID v) (Tunnels (load d)) = Some t
    \<and> u = sURL v \<and> up u = Some p \<and> (uScheme p = ''http'' \<or> uScheme p = ''https'') \<and> Hostname p = ''127.0.0.1''
    \<and> effective_port p = Itoa (tLocalPort t)
    \<and> (\<forall>n. Tunnel.lookup sh (tID t) = Some n \<and> Tunnel.active (sHeap sh ! n) \<longrightarrow> eConfig (sHeap sh ! n) = t)
    \<and> start t = Inr () \<and> ready (tID t) = Inr ()
    \<and> cs = [Call (StartCall t), Call (ReadyCall (tID t)), Browse u]"
proof -
  obtain v t where t: "service_target up q (ConfigChanged sh) i d = Inr (v, t)" "start t = Inr ()" "ready (tID t) = Inr ()"
    "cs = [Call (StartCall t), Call (ReadyCall (tID t)), Browse (sURL v)]"
    using assms by (auto simp: openService_def split: sum.splits prod.splits)
  moreover have "u = sURL v" using assms(2) t(4) by simp
  moreover from service_target_Inr(4) [OF t(1)] obtain p where "up (sURL v) = Some p" "service_url_ok up (sURL v)"
    "effective_port p = Itoa (tLocalPort t)" by (auto simp: ValidateService_ok)
  moreover have "Tunnel.lookup sh (tID t) = Some n \<and> Tunnel.active (sHeap sh ! n) \<longrightarrow> eConfig (sHeap sh ! n) = t" for n
    using service_target_Inr(3) [OF t(1)] by (auto simp: ConfigChanged_def)
  ultimately show ?thesis
    using service_target_Inr(1,2) [OF t(1)] by (auto simp: service_url_ok_def)
qed

definition linked_db :: db where
  "linked_db = sample_db\<lparr>dServices := [(''l'', sample_link)]\<rparr>"

theorem services_open_after_their_tunnel_witness:
  "openService link_parser (\<lambda>_. True) (ConfigChanged (init_shared False)) (\<lambda>_. Inr ()) (\<lambda>_. Inr ()) (\<lambda>_. Inr ()) ''l'' linked_db
     = (Inr ''http://127.0.0.1:15432/'',
        [Call (StartCall sample_tunnel), Call (ReadyCall ''t''), Browse ''http://127.0.0.1:15432/''])
   \<and> (\<exists>p. link_parser ''http://127.0.0.1:15432/'' = Some p \<and> Hostname p = ''127.0.0.1'')"
proof -
  let ?o = "openService link_parser (\<lambda>_. True) (ConfigChanged (init_shared False)) (\<lambda>_. Inr ()) (\<lambda>_. Inr ()) (\<lambda>_. Inr ()) ''l'' linked_db"
  have o: "?o = (Inr ''http://127.0.0.1:15432/'',
      [Call (StartCall sample_tunnel), Call (ReadyCall ''t''), Browse ''http://127.0.0.1:15432/''])" by code_simp
  from services_open_after_their_tunnel [OF o, of "''http://127.0.0.1:15432/''"] o show ?thesis by auto
qed

section \<open>Terminals\<close>

text \<open>C33. A terminal is authenticated, sane and released: it touches the network or the history only
  when there is room, the page of the origin asked for it and its first message carried the token;
  every size it asks the server for is between 2 and 500; and when it ends, however it ends, every
  client it opened is closed, the last one first, and its place in the table is free again.\<close>

theorem terminal_is_authenticated_and_released:
  assumes "terminal origin token (Connect net t signer policy q msg rowid at) tn i ms host r h d = (acts, tr, h', d')"
    and "i \<notin> set (hbOpen h)"
  shows "(tr \<noteq> [] \<or> d' \<noteq> d \<longrightarrow> rHeader r ''Origin'' = origin \<and> \<not> hbClosed h \<and> length (hbOpen h) < 16
      \<and> (\<exists>m. tnFirst tn = Inr m \<and> inType m = ''auth'' \<and> inToken m = token))
    \<and> list_all sane acts \<and> closed tr = rev (opened tr) \<and> h' = h"
proof -
  have h: "h' = h"
    using assms(1) leave_enter [OF _ assms(2)]
    by (auto simp: terminal_def split: if_splits option.splits sum.splits prod.splits)
  show ?thesis
  proof (cases "\<exists>h1 m. rHeader r ''Origin'' = origin \<and> tnAccept tn \<and> enter i h = Some h1 \<and> tnFirst tn = Inr m
      \<and> authenticated token m")
    case False
    with assms(1) have "tr = [] \<and> d' = d \<and> list_all sane acts"
      by (auto simp: terminal_def split: if_splits option.splits sum.splits)
    with h show ?thesis by auto
  next
    case True
    then obtain h1 m where m: "rHeader r ''Origin'' = origin" "tnAccept tn" "enter i h = Some h1" "tnFirst tn = Inr m"
      "authenticated token m" by blast
    obtain c tr0 d0 where c: "Connect net t signer policy q msg rowid at host d = (c, tr0, d0)"
      by (cases "Connect net t signer policy q msg rowid at host d") auto
    from Connect_released [OF c] assms(1) m c have "closed tr = rev (opened tr) \<and> list_all sane acts"
      by (cases c) (auto simp: terminal_def connected_acts_sane)
    with m h show ?thesis by (simp add: enter_Some authenticated_def max_terminals_def)
  qed
qed

theorem terminal_is_authenticated_and_released_witness:
  "let run = terminal ''o'' ''secret'' (Connect (sample_net None) 0 (\<lambda>_ _. Inr ()) sample_policy (\<lambda>_. True) (\<lambda>_. []) ''h1'' ''t0'')
       (wrTerm quiet_run) ''n'' (wrMessages quiet_run) ''b'' (stop_request\<lparr>rHeader := (\<lambda>_. ''o'')\<rparr>)
       \<lparr>hbClosed = False, hbOpen = []\<rparr> (sample_db\<lparr>dSettings := [(''global'', Settings sample_hosts)]\<rparr>)
   in fst run = [TryConnect ''b'', Pty 30 100, Shell, SendConnected, Stdin ''ls'', CloseSession]
      \<and> opened (fst (snd run)) = [0] \<and> closed (fst (snd run)) = [0]"
proof -
  let ?run = "terminal ''o'' ''secret'' (Connect (sample_net None) 0 (\<lambda>_ _. Inr ()) sample_policy (\<lambda>_. True) (\<lambda>_. []) ''h1'' ''t0'')
       (wrTerm quiet_run) ''n'' (wrMessages quiet_run) ''b'' (stop_request\<lparr>rHeader := (\<lambda>_. ''o'')\<rparr>)
       \<lparr>hbClosed = False, hbOpen = []\<rparr> (sample_db\<lparr>dSettings := [(''global'', Settings sample_hosts)]\<rparr>)"
  have a: "fst ?run = [TryConnect ''b'', Pty 30 100, Shell, SendConnected, Stdin ''ls'', CloseSession]" by code_simp
  have o: "opened (fst (snd ?run)) = [0]" by code_simp
  have "?run = (fst ?run, fst (snd ?run), fst (snd (snd ?run)), snd (snd (snd ?run)))" by simp
  from terminal_is_authenticated_and_released [OF this] o have "closed (fst (snd ?run)) = [0]" by simp
  with a o show ?thesis by (simp add: Let_def)
qed

text \<open>C34. At most sixteen terminals are open at any time, however terminals come and go, and once the
  server is closed no new one opens.\<close>

theorem terminals_are_bounded:
  "let h = fold hub_step before \<lparr>hbClosed = False, hbOpen = []\<rparr>; h2 = fold hub_step after (hub_step CloseHub h)
   in length (hbOpen h) \<le> 16 \<and> distinct (hbOpen h) \<and> hbClosed h2 \<and> set (hbOpen h2) \<subseteq> set (hbOpen h)"
proof -
  have "distinct (hbOpen h) \<and> length (hbOpen h) \<le> max_terminals \<Longrightarrow>
      distinct (hbOpen (fold hub_step ops h)) \<and> length (hbOpen (fold hub_step ops h)) \<le> max_terminals" for ops h
    by (induction ops arbitrary: h) (simp_all add: hub_step_bounded)
  note bounded = this [of "\<lparr>hbClosed = False, hbOpen = []\<rparr>" before]
  have "hbClosed h \<Longrightarrow> hbClosed (fold hub_step ops h) \<and> set (hbOpen (fold hub_step ops h)) \<subseteq> set (hbOpen h)" for ops h
    using hub_step_closed by (induction ops arbitrary: h) (simp, fastforce)
  from this [of "hub_step CloseHub (fold hub_step before \<lparr>hbClosed = False, hbOpen = []\<rparr>)" after] bounded show ?thesis
    by (simp add: Let_def close_hub_def max_terminals_def)
qed

end
