(* ===== verification/Mac_Correct.thy ===== *)
theory Mac_Correct
  imports MacExport Share_Correct
begin

text \<open>
  What the macOS export promises: the configuration it writes has one block per host and tunnel and
  nothing else, whatever the records contain, and what it quotes for the shell is one word.
\<close>

section \<open>Lines\<close>

abbreviation LF :: char where
  "LF \<equiv> CHR 0x0A"

lemma Split_line: "c \<notin> set l \<Longrightarrow> Split c (l @ c # s) = l # Split c s"
  by (induction l) auto

lemma Split_lines: "\<forall>l \<in> set ls. c \<notin> set l \<Longrightarrow> Split c (concat (map (\<lambda>l. l @ [c]) ls)) = ls @ [[]]"
  by (induction ls) (simp_all add: Split_line)

lemma rmap_map: "(\<And>x. x \<in> set xs \<Longrightarrow> f x = Inr (g x)) \<Longrightarrow> rmap f xs = Inr (map g xs)"
  by (induction xs) auto

section \<open>No field breaks a line\<close>

lemma second_lo_ge: "second_lo b \<le> n \<Longrightarrow> 128 \<le> n"
  by (auto simp: second_lo_def split: if_splits)

lemma decode_rune_high:
  assumes "c \<in> set (take (snd (decode_rune s)) s)" "code c < 128"
  shows "take (snd (decode_rune s)) s = [c] \<and> fst (decode_rune s) = code c"
proof (cases s)
  case (Cons c0 s1)
  show ?thesis
  proof (cases "code c0 < 128")
    case True
    with assms Cons show ?thesis by (simp add: decode_ascii)
  next
    case False
    have "128 \<le> code x" if "x \<in> set (take (snd (decode_rune s)) s)" for x
      using that False unfolding Cons decode_rune_def
      by (auto simp: Let_def cont_byte_def split: if_splits list.splits dest: second_lo_ge)
    with assms show ?thesis by fastforce
  qed
qed (use assms in simp)

lemma rune_chunks_low:
  assumes "(r, b) \<in> set (rune_chunks s)" "c \<in> set b" "code c < 128"
  shows "b = [c] \<and> r = code c"
  using assms
proof (induction s rule: rune_chunks.induct)
  case (1 s)
  show ?case
  proof (cases "(r, b) \<in> set (rune_chunks (drop (snd (decode_rune s)) s))")
    case True
    with 1 show ?thesis by (cases "s = []") (auto simp: rune_chunks.simps [of s])
  next
    case False
    with 1(2) have "r = fst (decode_rune s)" "b = take (snd (decode_rune s)) s"
      by (auto simp: rune_chunks.simps [of s] Let_def split: if_splits)
    with decode_rune_high [of c s] 1(3,4) show ?thesis by simp
  qed
qed

lemma digit_no_LF: "hex_digit n \<noteq> LF \<or> 16 \<le> n"
proof (rule ccontr)
  assume "\<not> ?thesis"
  then have "hex_digit n = LF" "n < 16" by auto
  from arg_cong [OF this(1), of code] this(2) show False by (auto simp: hex_digit_def split: if_splits)
qed

lemma hex_digit_mod_LF [simp]: "hex_digit (n mod 16) \<noteq> LF"
  using digit_no_LF [of "n mod 16"] by (meson mod_less_divisor not_le zero_less_numeral)

lemma hex_bytes_LF: "LF \<notin> set (hex_bytes n r)"
  by (auto simp: hex_bytes_def) (metis hex_digit_mod_LF)

lemma escape_rune_LF:
  assumes "(r, b) \<in> set (rune_chunks s)"
  shows "LF \<notin> set (escape_rune ip (r, b))"
proof -
  have "code LF = 10" by simp
  with rune_chunks_low [OF assms, of LF] have "LF \<in> set b \<Longrightarrow> r = 10" by simp
  then show ?thesis
    by (auto simp: escape_rune_def Let_def hex_bytes_LF is_print_def)
qed

lemma Quote_LF: "LF \<notin> set (Quote ip s)"
  using escape_rune_LF [of _ _ s ip] by (auto simp: Quote_def quoted_def)

lemma comment_LF: "LF \<notin> set (comment s)"
  by (auto simp: comment_def)

lemma not_digit_LF: "\<not> is_digit LF"
  by (simp add: is_digit_def)

lemma nat_digits_LF: "LF \<notin> set (nat_digits n)"
  using nat_digits_digits [of n] not_digit_LF by auto

lemma Itoa_LF: "LF \<notin> set (Itoa i)"
  by (auto simp: Itoa_def nat_digits_LF)

lemma two_digits_LF: "LF \<notin> set (two_digits n)"
  by (auto simp: two_digits_def nat_digits_LF)

lemma EncodeToString_LF: "LF \<notin> set (EncodeToString b)"
proof -
  have "code c div 16 mod 16 = code c div 16" for c
    using code_less [of c] by (intro mod_less) linarith
  then have "hex_digit (code c div 16) \<noteq> LF" for c using hex_digit_mod_LF [of "code c div 16"] by metis
  moreover have "hex_digit (code c mod 16) \<noteq> LF" for c by (rule hex_digit_mod_LF)
  ultimately have "LF \<notin> set [hex_digit (code c div 16), hex_digit (code c mod 16)]" for c by (metis empty_set empty_iff set_ConsD)
  then show ?thesis unfolding EncodeToString_def by (simp only: set_concat set_map) blast
qed

lemma Address_LF: "Address a \<Longrightarrow> LF \<notin> set a"
  using Address_chars [of a] by (auto simp: list_all_iff addr_char_def host_char_def Let_def)

lemma index_names_LF:
  assumes "\<And>n. LF \<notin> set (name n)"
  shows "LF \<notin> set (index_names name is i)"
proof -
  have "\<forall>i. LF \<notin> set (m i) \<Longrightarrow> LF \<notin> set (fold (\<lambda>(n, i) m. m(i := name (Suc n))) xs m i)" for xs m
    by (induction xs arbitrary: m) (auto simp: assms)
  then show ?thesis by (simp add: index_names_def)
qed

lemma Join_LF: "\<forall>w \<in> set ws. c \<notin> set w \<Longrightarrow> c \<notin> set sep \<Longrightarrow> c \<notin> set (Join sep ws)"
  by (induction sep ws rule: Join.induct) auto

lemma JoinHostPort_LF: "LF \<notin> set h \<Longrightarrow> LF \<notin> set p \<Longrightarrow> LF \<notin> set (JoinHostPort h p)"
  by (simp add: JoinHostPort_def)

lemmas no_LF = comment_LF Quote_LF Itoa_LF two_digits_LF EncodeToString_LF nat_digits_LF

section \<open>Blocks\<close>

text \<open>The lines a block may have besides its \<open>Host\<close> line: comments and these keywords.\<close>

definition exported_keywords :: "string list" where
  "exported_keywords = [''HostName'', ''Port'', ''User'', ''IdentityFile'', ''IdentitiesOnly'', ''ServerAliveInterval'',
     ''ServerAliveCountMax'', ''ProxyJump'', ''LocalForward'', ''ExitOnForwardFailure'']"

definition plain_line :: "string \<Rightarrow> bool" where
  "plain_line l \<longleftrightarrow> LF \<notin> set l
     \<and> (l = [] \<or> HasPrefix l ''# '' \<or> list_ex (\<lambda>k. HasPrefix l (''  '' @ k @ '' '')) exported_keywords)"

definition block_of :: "string \<Rightarrow> string list \<Rightarrow> bool" where
  "block_of alias b \<longleftrightarrow> (\<exists>pre post. b = pre @ [''Host '' @ alias] @ post \<and> list_all plain_line (pre @ post)) \<and> LF \<notin> set alias"

lemma plain_no_host: "plain_line l \<Longrightarrow> \<not> HasPrefix l ''Host ''"
  by (auto simp: plain_line_def exported_keywords_def HasPrefix_iff)

lemma block_filter: "block_of alias b \<Longrightarrow> filter (\<lambda>l. HasPrefix l ''Host '') b = [''Host '' @ alias]"
proof -
  have "list_all plain_line ls \<Longrightarrow> filter (\<lambda>l. HasPrefix l ''Host '') ls = []" for ls
    by (induction ls) (simp_all add: plain_no_host)
  then show "block_of alias b \<Longrightarrow> ?thesis" by (auto simp: block_of_def HasPrefix_def)
qed

lemma block_append: "block_of alias b \<Longrightarrow> list_all plain_line ls \<Longrightarrow> block_of alias (b @ ls)"
proof -
  assume "block_of alias b" "list_all plain_line ls"
  then obtain pre post where "b @ ls = pre @ [''Host '' @ alias] @ (post @ ls)" "list_all plain_line (pre @ (post @ ls))"
    "LF \<notin> set alias" by (auto simp: block_of_def)
  then show "block_of alias (b @ ls)" unfolding block_of_def by blast
qed

lemma blocks_filter:
  "list_all2 block_of as bs \<Longrightarrow> filter (\<lambda>l. HasPrefix l ''Host '') (concat bs) = map (\<lambda>a. ''Host '' @ a) as"
  by (induction rule: list_all2_induct) (simp_all add: block_filter)

lemma blocks_lines:
  "list_all2 block_of as bs \<Longrightarrow> l \<in> set (concat bs) \<Longrightarrow> LF \<notin> set l \<and> (plain_line l \<or> (\<exists>a \<in> set as. l = ''Host '' @ a))"
proof (induction rule: list_all2_induct)
  case (Cons a as b bs)
  then show ?case by (auto simp: block_of_def list_all_iff plain_line_def)
qed simp

lemma host_aliases_LF: "LF \<notin> set tag \<Longrightarrow> LF \<notin> set (host_aliases tag s i)"
  unfolding host_aliases_def by (rule index_names_LF) (simp add: no_LF)

lemma key_names_LF: "LF \<notin> set (key_names s i)"
  unfolding key_names_def by (rule index_names_LF) (simp add: no_LF)

lemma tunnel_alias_LF: "LF \<notin> set tag \<Longrightarrow> LF \<notin> set (tunnel_alias tag i)"
  by (simp add: tunnel_alias_def no_LF)

lemma host_lines_block:
  assumes "Address (hAddress h)" "LF \<notin> set alias"
  shows "block_of alias (host_lines ip tag s h alias)"
proof -
  let ?ls = "host_lines ip tag s h alias" and ?pre = "[''# '' @ comment (hName h)]"
  have "?ls = ?pre @ [''Host '' @ alias] @ tl (tl ?ls)" by (simp add: host_lines_def)
  moreover have "list_all plain_line (?pre @ tl (tl ?ls))"
    using assms(1) by (simp add: host_lines_def plain_line_def exported_keywords_def HasPrefix_def no_LF Address_LF)
  ultimately show ?thesis using assms(2) unfolding block_of_def by blast
qed

lemma jump_lines_plain:
  assumes "LF \<notin> set tag"
  shows "list_all plain_line (jump_lines (host_aliases tag s) hs)"
proof -
  have "LF \<notin> set (Join '','' (map (\<lambda>h. host_aliases tag s (hID h)) (butlast hs)))"
    by (rule Join_LF) (simp_all add: host_aliases_LF [OF assms])
  then show ?thesis by (simp add: jump_lines_def Let_def plain_line_def exported_keywords_def HasPrefix_def)
qed

lemma host_block_ok:
  assumes "Chain s (hID h) = Inr hs" "hs \<noteq> []"
  shows "host_block ip tag s h alias = Inr (host_lines ip tag s h alias @ jump_lines (host_aliases tag s) hs)"
  using assms by (simp add: host_block_def)

section \<open>The configuration\<close>

text \<open>The lines of the fixed introduction.\<close>

definition intro_lines :: "string list" where
  "intro_lines = butlast (Split LF config_intro)"

lemma intro_lines: "config_intro = concat (map line intro_lines)" "list_all plain_line intro_lines"
  by code_simp+

definition exported_aliases :: "string \<Rightarrow> state \<Rightarrow> string list" where
  "exported_aliases tag s =
     map (\<lambda>h. host_aliases tag s (hID h)) (Hosts s) @ map (tunnel_alias tag) [0..<length (Tunnels s)]"

lemma well_formed_parts:
  assumes "well_formed up s"
  shows "h \<in> set (Hosts s) \<Longrightarrow> \<exists>hs. Chain s (hID h) = Inr hs" "h \<in> set (Hosts s) \<Longrightarrow> ok (ValidateHost h)"
    "t \<in> set (Tunnels s) \<Longrightarrow> ok (ValidateTunnel t)" "t \<in> set (Tunnels s) \<Longrightarrow> tHostID t \<in> hID ` set (Hosts s)"
  using assms by (simp_all add: well_formed_checks Chain_iff_route)

lemma config_lines_blocks:
  assumes "well_formed up s" "\<forall>h \<in> set (Hosts s). hID h \<noteq> []" "LF \<notin> set tag"
  shows "\<exists>bs. config_lines ip tag s = Inr (concat bs) \<and> list_all2 block_of (exported_aliases tag s) bs"
proof -
  define hops where "hops = (\<lambda>h :: host. projr (Chain s (hID h)))"
  define host where "host = (\<lambda>t :: tunnel. projr (State_Host s (tHostID t)))"
  define block where "block = (\<lambda>h alias. host_lines ip tag s h alias @ jump_lines (host_aliases tag s) (hops h))"
  have chain: "Chain s (hID h) = Inr (hops h)" "hops h \<noteq> []" if "h \<in> set (Hosts s)" for h
  proof -
    from well_formed_parts(1) [OF assms(1) that] obtain hs where "Chain s (hID h) = Inr hs" by blast
    with Chain_last [OF this] assms(2) that show "Chain s (hID h) = Inr (hops h)" "hops h \<noteq> []"
      by (simp_all add: hops_def)
  qed
  have addr: "Address (hAddress h)" if "h \<in> set (Hosts s)" for h
    using well_formed_parts(2) [OF assms(1) that] by (simp add: ok_unit ValidateHost_ok)
  have host: "State_Host s (tHostID t) = Inr (host t) \<and> host t \<in> set (Hosts s)" if "t \<in> set (Tunnels s)" for t
  proof -
    have "ok (State_Host s (tHostID t))" using well_formed_parts(4) [OF assms(1) that] by (simp add: ok_State_Host)
    then obtain h where "State_Host s (tHostID t) = Inr h" by (auto simp: ok_iff)
    with State_HostD [OF this] show ?thesis by (simp add: host_def)
  qed
  have remote: "Address (tRemoteHost t)" if "t \<in> set (Tunnels s)" for t
    using well_formed_parts(3) [OF assms(1) that] by (simp add: ok_unit ValidateTunnel_def check_eq_Inr)
  have b: "block_of nm (block h nm)" if "h \<in> set (Hosts s)" "LF \<notin> set nm" for h nm
    unfolding block_def by (intro block_append host_lines_block jump_lines_plain addr that assms(3))
  define hblock where "hblock = (\<lambda>h. block h (host_aliases tag s (hID h)) @ [[]])"
  define tend where "tend = (\<lambda>t :: tunnel. [''  LocalForward 127.0.0.1:'' @ Itoa (tLocalPort t) @ '' ''
      @ JoinHostPort (tRemoteHost t) (Itoa (tRemotePort t)), ''  ExitOnForwardFailure yes'', []])"
  define tblock where "tblock = (\<lambda>(i, t). block (host t) (tunnel_alias tag i) @ tend t)"
  have hs: "rmap (host_section ip tag s) (Hosts s) = Inr (map hblock (Hosts s))"
    by (rule rmap_map) (simp add: host_section_def host_block_ok [OF chain] hblock_def block_def)
  have ts: "rmap (tunnel_section ip tag s) (enumerate 0 (Tunnels s)) = Inr (map tblock (enumerate 0 (Tunnels s)))"
  proof (rule rmap_map)
    fix x
    assume x: "x \<in> set (enumerate 0 (Tunnels s))"
    obtain i t where it: "x = (i, t)" by (cases x)
    have "t \<in> set (Tunnels s)" using x it by (auto simp: in_set_enumerate_eq)
    from host [OF this] show "tunnel_section ip tag s x = Inr (tblock x)"
      by (simp add: it tunnel_section_def host_block_ok [OF chain] tblock_def block_def tend_def)
  qed
  have empty: "plain_line []" by (simp add: plain_line_def)
  have "list_all2 block_of (map (\<lambda>h. host_aliases tag s (hID h)) (Hosts s)) (map hblock (Hosts s))"
    by (auto simp: list_all2_map1 list_all2_map2 list_all2_same hblock_def empty host_aliases_LF [OF assms(3)]
        intro!: block_append b)
  moreover have "list_all2 block_of (map (tunnel_alias tag) [0..<length (Tunnels s)]) (map tblock (enumerate 0 (Tunnels s)))"
  proof (rule list_all2_all_nthI)
    fix i
    assume "i < length (map (tunnel_alias tag) [0..<length (Tunnels s)])"
    then have i: "i < length (Tunnels s)" by simp
    then have "Tunnels s ! i \<in> set (Tunnels s)" by simp
    from remote [OF this] host [OF this] have "list_all plain_line (tend (Tunnels s ! i))" "host (Tunnels s ! i) \<in> set (Hosts s)"
      by (simp_all add: tend_def plain_line_def exported_keywords_def HasPrefix_def no_LF JoinHostPort_LF Address_LF)
    then have "block_of (tunnel_alias tag i) (block (host (Tunnels s ! i)) (tunnel_alias tag i) @ tend (Tunnels s ! i))"
      by (intro block_append b tunnel_alias_LF [OF assms(3)])
    with i show "block_of (map (tunnel_alias tag) [0..<length (Tunnels s)] ! i) (map tblock (enumerate 0 (Tunnels s)) ! i)"
      by (simp add: tblock_def nth_enumerate_eq)
  qed simp
  ultimately show ?thesis
    by (intro exI [of _ "map hblock (Hosts s) @ map tblock (enumerate 0 (Tunnels s))"])
      (simp add: config_lines_def hs ts exported_aliases_def list_all2_appendI)
qed

lemma exported_aliases_mac_state: "exported_aliases tag (mac_state s) = exported_aliases tag s"
  by (simp add: exported_aliases_def host_aliases_def mac_state_def set_paths_def)

text \<open>C15. Nothing can be injected into the exported configuration: a valid selection is exported, and
  the lines of its configuration are exactly one \<open>Host\<close> line per host and per tunnel, in their order
  and with the generated alias, and otherwise empty lines, comments and options of the ten keywords
  the export uses, whatever names, users and addresses the records have.\<close>

theorem exported_config_is_injection_free:
  assumes "mac_source c s payload = Inr (s1, keys)" "Validate up (mac_state s1) = Inr ()" "\<forall>h \<in> set (Hosts s1). hID h \<noteq> []"
  shows "\<exists>p tag. MacExport up c js sha pack ip s payload = Inr p
    \<and> filter (\<lambda>l. HasPrefix l ''Host '') (Split LF (macConfig p)) = map (\<lambda>a. ''Host '' @ a) (exported_aliases tag s1)
    \<and> (\<forall>l \<in> set (Split LF (macConfig p)). l \<in> {''Host '' @ a | a. a \<in> set (exported_aliases tag s1)}
        \<or> l = [] \<or> HasPrefix l ''# '' \<or> (\<exists>k \<in> set exported_keywords. HasPrefix l (''  '' @ k @ '' '')))"
proof -
  let ?s = "mac_state s1"
  define tag where "tag = EncodeToString (take 6 (sha (js ?s @ payload)))"
  have "well_formed up ?s" using assms(2) by (simp add: Validate_iff)
  moreover have "\<forall>h \<in> set (Hosts ?s). hID h \<noteq> []" using assms(3) by (simp add: mac_state_def set_paths_def)
  ultimately obtain bs where b: "config_lines ip tag ?s = Inr (concat bs)" "list_all2 block_of (exported_aliases tag s1) bs"
    using config_lines_blocks [of up ?s tag ip] by (auto simp: tag_def EncodeToString_LF exported_aliases_mac_state)
  let ?lines = "intro_lines @ concat bs"
  define p where "p = projr (MacExport up c js sha pack ip s payload)"
  have p: "MacExport up c js sha pack ip s payload = Inr p" "macConfig p = concat (map line ?lines)"
    by (simp_all add: p_def MacExport_def assms(1,2) mac_config_def b(1) tag_def [symmetric] Let_def intro_lines(1))
  have intro: "LF \<notin> set l \<and> plain_line l" if "l \<in> set intro_lines" for l
    using intro_lines(2) that by (auto simp: list_all_iff plain_line_def)
  have "Split LF (macConfig p) = ?lines @ [[]]"
    unfolding p(2) line_def by (rule Split_lines) (use intro blocks_lines [OF b(2)] in auto)
  moreover have "filter (\<lambda>l. HasPrefix l ''Host '') ?lines = map (\<lambda>a. ''Host '' @ a) (exported_aliases tag s1)"
    using intro plain_no_host blocks_filter [OF b(2)] by (simp add: filter_empty_conv)
  moreover have "plain_line l \<or> (\<exists>a \<in> set (exported_aliases tag s1). l = ''Host '' @ a)" if "l \<in> set ?lines" for l
    using that intro blocks_lines [OF b(2), of l] by auto
  ultimately show ?thesis
    using p(1) by (intro exI [of _ p] exI [of _ tag]) (auto simp: plain_line_def list_ex_iff HasPrefix_def)
qed

theorem exported_config_is_injection_free_witness:
  "\<exists>p. MacExport (\<lambda>_. None) unreadable (\<lambda>_. []) (\<lambda>_. ''digest'') (\<lambda>_. []) (\<lambda>_. False) sample_state [] = Inr p
     \<and> length (filter (\<lambda>l. HasPrefix l ''Host '') (Split LF (macConfig p))) = 3"
proof -
  have v: "Validate (\<lambda>_. None) (mac_state sample_state) = Inr ()" by code_simp
  have "\<forall>h \<in> set (Hosts sample_state). hID h \<noteq> []" by code_simp
  from exported_config_is_injection_free [OF _ v this, of unreadable sample_state "[]" "[]" "\<lambda>_. []" "\<lambda>_. ''digest''" "\<lambda>_. []" "\<lambda>_. False"]
  obtain p tag where p: "MacExport (\<lambda>_. None) unreadable (\<lambda>_. []) (\<lambda>_. ''digest'') (\<lambda>_. []) (\<lambda>_. False) sample_state [] = Inr p"
    "filter (\<lambda>l. HasPrefix l ''Host '') (Split LF (macConfig p)) = map (\<lambda>a. ''Host '' @ a) (exported_aliases tag sample_state)"
    by (auto simp: mac_source_def)
  moreover have "length (exported_aliases tag sample_state) = 3" by (simp add: exported_aliases_def sample_state_def empty_state_def)
  ultimately show ?thesis by auto
qed

text \<open>The exported package holds nothing of the sender's machine: two configurations that differ
  only in their settings, their history and the paths of their keys export the same package, and a
  package built from a prepared team bundle does not depend on the configuration at all. (No file is
  read: the export has no argument for one.)\<close>

theorem package_holds_nothing_local:
  "MacExport up c js sha pack ip (s\<lparr>Settings := g, History := hist, Keys := map (\<lambda>k. k\<lparr>kPath := f k\<rparr>) (Keys s)\<rparr>) []
     = MacExport up c js sha pack ip s []
   \<and> (payload \<noteq> [] \<longrightarrow> MacExport up c js sha pack ip s payload = MacExport up c js sha pack ip s' payload)"
proof -
  have "mac_state (s\<lparr>Settings := g, History := hist, Keys := map (\<lambda>k. k\<lparr>kPath := f k\<rparr>) (Keys s)\<rparr>) = mac_state s"
    by (simp add: mac_state_def set_paths_def)
  then show ?thesis by (simp add: MacExport_def mac_source_def)
qed

theorem package_holds_nothing_local_witness:
  "MacExport (\<lambda>_. None) unreadable (\<lambda>_. []) (\<lambda>_. ''digest'') (\<lambda>_. []) (\<lambda>_. False) sample_state ''bundle''
     = MacExport (\<lambda>_. None) unreadable (\<lambda>_. []) (\<lambda>_. ''digest'') (\<lambda>_. []) (\<lambda>_. False) empty_state ''bundle''"
  using package_holds_nothing_local [where s = sample_state and payload = "''bundle''" and s' = empty_state] by blast

section \<open>The shell\<close>

text \<open>How a POSIX shell reads a word made of quoted parts: between single quotes everything is taken
  as it is; between double quotes too, as long as no expansion is written there.\<close>

datatype quoting = Bare | Single | Double

fun shell_word :: "quoting \<Rightarrow> string \<Rightarrow> string option" where
  "shell_word Bare [] = Some []"
| "shell_word _ [] = None"
| "shell_word Single (c # s) =
     (if c = CHR 0x27 then shell_word Bare s else map_option ((#) c) (shell_word Single s))"
| "shell_word Double (c # s) =
     (if c = CHR 0x22 then shell_word Bare s
      else if c \<in> {CHR ''$'', CHR 0x60, CHR 0x5C} then None else map_option ((#) c) (shell_word Double s))"
| "shell_word Bare (c # s) =
     (if c = CHR 0x27 then shell_word Single s else if c = CHR 0x22 then shell_word Double s else None)"

lemma shell_word_Single:
  "shell_word Single (ReplaceByte (CHR 0x27) [CHR 0x27, CHR 0x22, CHR 0x27, CHR 0x22, CHR 0x27] s @ [CHR 0x27]) = Some s"
  by (induction s) (simp_all add: ReplaceByte_def)

text \<open>C40. The argument that \<open>shellQuote\<close> writes is read by a shell as one word that is the original
  string, whatever it contains, and nothing in it is expanded.\<close>

theorem shell_quote_roundtrip: "shell_word Bare (shellQuote s) = Some s"
  using shell_word_Single by (simp add: shellQuote_def)

text \<open>One field is not safe in the guide: a fingerprint may hold a line break, which validation accepts
  and the guide prints as it is.\<close>

lemma fingerprint_breaks_guide_line:
  "let h = sample_bastion\<lparr>hFingerprint := ''SHA256:'' @ [LF] @ replicate 42 CHR ''x''\<rparr> in
     ValidateHost h = Inr () \<and> replicate 42 CHR ''x'' \<in> set (Split LF (guide_host ''t'' sample_state h))"
  by code_simp

end
