(* ===== verification/AppMain.thy ===== *)
theory AppMain
  imports SshImport TeamInstall WebShare "HOL-Library.Sublist"
begin

text \<open>
  The program from start to end (cmd/sshdesk/main.go, internal/platform/platform.go): the flags, the
  port, the store, the team package of the executable, the import at startup, the web server and
  what the deferred calls undo. The environment, the flags given, the listeners and the end of the
  server are parameters.
\<close>

section \<open>Places\<close>

definition DataDir :: "os \<Rightarrow> bool \<Rightarrow> string \<Rightarrow> string res \<Rightarrow> string res" where
  "DataDir os windows local_app_data config_dir =
     (let base = (if windows then local_app_data else []) in
      rbind (if base = [] then config_dir else Inr base) (\<lambda>b. Inr (os_Join os b ''SSHDesk'')))"

definition SSHFile :: "os \<Rightarrow> string \<Rightarrow> string" where
  "SSHFile os name =
     os_Join os (os_Join os (case HomeDir os of None \<Rightarrow> [] | Some h \<Rightarrow> h) ''.ssh'') name"

definition browser_command :: "bool \<Rightarrow> bool \<Rightarrow> string \<Rightarrow> string list" where
  "browser_command windows darwin url =
     (if windows then [''rundll32.exe'', ''url.dll,FileProtocolHandler'', url]
      else if darwin then [''open'', url] else [''xdg-open'', url])"

section \<open>Flags\<close>

record flags =
  flData :: string
  flPort :: int
  flNoBrowser :: bool
  flNoImport :: bool
  flShare :: bool
  flContainer :: bool

definition check_flags :: "os \<Rightarrow> bool \<Rightarrow> flags \<Rightarrow> unit res" where
  "check_flags os linux fl =
     rbind (check (flContainer fl \<longrightarrow> linux) (AppErr ContainerOnly))
     (\<lambda>_. rbind (check (Port (flPort fl)) (AppErr BadHTTPPort))
     (\<lambda>_. check (os_IsAbs os (flData fl)) (AppErr BadDataDir)))"

definition app_address :: "flags \<Rightarrow> string" where
  "app_address fl = ''127.0.0.1:'' @ Itoa (flPort fl)"

definition listen_address :: "flags \<Rightarrow> string" where
  "listen_address fl = (if flContainer fl then ''0.0.0.0:'' @ Itoa (flPort fl) else app_address fl)"

definition app_origin :: "flags \<Rightarrow> string" where
  "app_origin fl = ''http://'' @ app_address fl"

section \<open>The run\<close>

datatype app_act =
    BindPort string | OpenStore | InstallTeam | ImportHosts | StartWeb | StartPage | ServeWeb
  | CheckHealth string | ShowBrowser string | ServeReturns | CloseServer | CloseWeb | Shutdown | CloseStore | ClosePort

text \<open>net/http closes the listener when \<open>Serve\<close> returns and in \<open>Close\<close> and \<open>Shutdown\<close>; the deferred
  \<open>listener.Close\<close> of \<open>run\<close> then finds it closed. The port is free from the first of these on.\<close>

definition releases_port :: "app_act \<Rightarrow> bool" where
  "releases_port a \<longleftrightarrow> a \<in> {ServeReturns, CloseServer, Shutdown, ClosePort}"

definition while_held :: "app_act list \<Rightarrow> app_act list" where
  "while_held acts = takeWhile (\<lambda>a. \<not> releases_port a) acts"

text \<open>\<open>aeServe\<close> is how serving ends: \<open>None\<close> by an interrupt, \<open>Some None\<close> by closing the server,
  \<open>Some (Some e)\<close> with an error. \<open>aeFlags\<close> gets the default data directory. The statements of
  opening the store, of the installation and of the import have outcomes of their own (\<open>aeSQL\<close>).\<close>

record 's app_env =
  aeOS :: os
  aeWindows :: bool
  aeLinux :: bool
  aeLocalAppData :: string
  aeConfigDir :: "string res"
  aeFlags :: "string \<Rightarrow> flags"
  aeListen :: "string \<Rightarrow> err option"
  aeSQL :: "nat \<Rightarrow> stmt \<Rightarrow> bool"
  aeParse :: "string \<Rightarrow> url option"
  aeURL :: "string \<Rightarrow> string \<Rightarrow> string option"
  aeCodec :: codec
  aeEd :: ed25519
  aeIO :: disk_io
  aeKey :: "string \<Rightarrow> 's key_parse"
  aeSha :: "string \<Rightarrow> string"
  aeFold :: "nat \<Rightarrow> nat"
  aeIds :: "nat \<Rightarrow> nat \<Rightarrow> string"
  aeNow :: string
  aeExe :: "string res"
  aeFiles :: "string \<Rightarrow> exe option"
  aeNew :: "err option"
  aePage :: "err option"
  aeHealth :: "int res"
  aeServe :: "err option option"
  aeStop :: "err option"

definition done_or :: "err option \<Rightarrow> unit res" where
  "done_or e = (case e of None \<Rightarrow> Inr () | Some x \<Rightarrow> Inl x)"

text \<open>After the health check.\<close>

definition run_ready :: "'s app_env \<Rightarrow> flags \<Rightarrow> app_act list \<times> unit res" where
  "run_ready E fl =
     (let shown = (if flNoBrowser fl then [] else [ShowBrowser (app_origin fl)]) in
      case aeServe E of
        Some e \<Rightarrow> (shown @ [ServeReturns], done_or e)
      | None \<Rightarrow> (shown @ [CloseWeb, Shutdown], done_or (aeStop E)))"

definition run_serve :: "'s app_env \<Rightarrow> flags \<Rightarrow> app_act list \<times> unit res" where
  "run_serve E fl =
     (let page = (if flShare fl then [StartPage] else []); probe = [ServeWeb, CheckHealth (app_origin fl @ ''/health'')] in
      if flShare fl \<and> aePage E \<noteq> None then (page, done_or (aePage E))
      else case aeHealth E of
          Inl e \<Rightarrow> (page @ probe @ [CloseServer], Inl e)
        | Inr status \<Rightarrow>
            if status \<noteq> 200 then (page @ probe @ [CloseServer], Inl (AppErr HealthFailed))
            else (case run_ready E fl of (acts, r) \<Rightarrow> (page @ probe @ acts, r)))"

definition run_web :: "'s app_env \<Rightarrow> flags \<Rightarrow> app_act list \<times> unit res" where
  "run_web E fl =
     (case aeNew E of
        Some e \<Rightarrow> ([], Inl e)
      | None \<Rightarrow> (case run_serve E fl of (acts, r) \<Rightarrow> (StartWeb # acts @ [CloseWeb], r)))"

text \<open>The import, with its result for the browser.\<close>

definition run_import :: "'s app_env \<Rightarrow> flags \<Rightarrow> fs \<Rightarrow> db \<Rightarrow> (startup_result \<times> db) res" where
  "run_import E fl fs d =
     (if flNoImport fl then Inr ((startup_init [])\<lparr>rDisabled := True\<rparr>, d)
      else rbind (Snapshot (aeSQL E 2) d)
        (\<lambda>s. Inr (AutoImport (aeOS E) fs (aeKey E) (aeFold E) (aeParse E) (\<lambda>k. aeSQL E (3 + k)) (aeIds E) (SSHConfig (Settings s)) d)))"

definition run_open :: "'s app_env \<Rightarrow> flags \<Rightarrow> db \<Rightarrow> fs \<Rightarrow> app_act list \<times> unit res \<times> db \<times> fs" where
  "run_open E fl d fs =
     (case rbind (aeExe E) (ReadExecutable (aeFiles E)) of
        Inl e \<Rightarrow> ([], Inl e, d, fs)
      | Inr payload \<Rightarrow>
          (case Install (aeParse E) (aeURL E) (aeSQL E 1) (aeCodec E) (aeEd E) (aeIO E) (aeOS E) (aeKey E) (aeSha E) (aeNow E)
              (flData fl) payload d fs of
             ((_, Some e), d1, fs1) \<Rightarrow> ([InstallTeam], Inl e, d1, fs1)
           | ((_, None), d1, fs1) \<Rightarrow>
               (case run_import E fl fs1 d1 of
                  Inl e \<Rightarrow> ([InstallTeam], Inl e, d1, fs1)
                | Inr (_, d2) \<Rightarrow>
                    (case run_web E fl of
                       (acts, r) \<Rightarrow> (InstallTeam # (if flNoImport fl then [] else [ImportHosts]) @ acts, r, d2, fs1)))))"

text \<open>What an \<open>Open\<close> that fails leaves behind: the migrations that were committed.\<close>

definition Open_leaves :: "(stmt \<Rightarrow> bool) \<Rightarrow> db \<Rightarrow> db" where
  "Open_leaves q d =
     (if \<not> q Pragma \<or> dbVersion d > 2 then d
      else case (if dbVersion d < 1 then migrate q 1 migration_001 d else Inr d) of
          Inl _ \<Rightarrow> d
        | Inr d1 \<Rightarrow>
            (case (if dbVersion d < 2 then migrate q 2 migration_002 d1 else Inr d1) of Inl _ \<Rightarrow> d1 | Inr d2 \<Rightarrow> d2))"

definition run_bound :: "'s app_env \<Rightarrow> flags \<Rightarrow> db \<Rightarrow> fs \<Rightarrow> app_act list \<times> unit res \<times> db \<times> fs" where
  "run_bound E fl d fs =
     (case Database.Open (aeSQL E 0) \<lparr>KnownHosts = SSHFile (aeOS E) ''known_hosts'', SSHConfig = SSHFile (aeOS E) ''config''\<rparr> d of
        Inl e \<Rightarrow> ([OpenStore], Inl e, Open_leaves (aeSQL E 0) d, fs)
      | Inr d1 \<Rightarrow>
          (case run_open E fl d1 fs of (acts, r, d2, fs1) \<Rightarrow> (OpenStore # acts @ [CloseStore], r, d2, fs1)))"

definition app_run :: "'s app_env \<Rightarrow> db \<Rightarrow> fs \<Rightarrow> app_act list \<times> unit res \<times> db \<times> fs" where
  "app_run E d fs =
     (case DataDir (aeOS E) (aeWindows E) (aeLocalAppData E) (aeConfigDir E) of
        Inl e \<Rightarrow> ([], Inl e, d, fs)
      | Inr dir \<Rightarrow>
          let fl = aeFlags E dir; a = listen_address fl in
          (case check_flags (aeOS E) (aeLinux E) fl of
             Inl e \<Rightarrow> ([], Inl e, d, fs)
           | Inr _ \<Rightarrow>
               (case aeListen E a of
                  Some e \<Rightarrow> ([BindPort a], Inl (AppErr PortInUse), d, fs)
                | None \<Rightarrow>
                    (case run_bound E fl d fs of
                       (acts, r, d1, fs1) \<Rightarrow> (BindPort a # acts @ [ClosePort], r, d1, fs1)))))"

section \<open>Facts\<close>

text \<open>Everything a run can do, in the only order in which it does it.\<close>

definition serve_order :: "flags \<Rightarrow> app_act list" where
  "serve_order fl = [StartPage, ServeWeb, CheckHealth (app_origin fl @ ''/health''), CloseServer,
     ShowBrowser (app_origin fl), ServeReturns, CloseWeb, Shutdown]"

definition run_order :: "flags \<Rightarrow> app_act list" where
  "run_order fl = [BindPort (listen_address fl), OpenStore, InstallTeam, ImportHosts, StartWeb] @ serve_order fl
     @ [CloseWeb, CloseStore, ClosePort]"

lemma run_serve_order: "subseq (fst (run_serve E fl)) (serve_order fl) \<and> StartWeb \<notin> set (fst (run_serve E fl))"
  by (auto simp: run_serve_def run_ready_def serve_order_def Let_def split: sum.splits option.splits prod.splits)

text \<open>Serving ends with the listener closed, and does nothing to store and files on the way.\<close>

lemma run_serve_port:
  "ServeWeb \<in> set (fst (run_serve E fl)) \<Longrightarrow> \<exists>a \<in> set (fst (run_serve E fl)). releases_port a"
  "set (fst (run_serve E fl)) \<inter> {OpenStore, InstallTeam, ImportHosts, StartWeb, CloseStore} = {}"
  by (cases "aePage E"; cases "flShare fl"; cases "aeHealth E"; cases "aeServe E";
      auto simp: run_serve_def run_ready_def releases_port_def Let_def split: if_splits)+

lemma while_held_append:
  "\<not> list_ex releases_port xs \<Longrightarrow> while_held (xs @ ys) = xs @ while_held ys"
  by (induction xs) (simp_all add: while_held_def)

lemma while_held_Cons: "\<not> releases_port a \<Longrightarrow> while_held (a # xs) = a # while_held xs"
  by (simp add: while_held_def)

lemma run_web_cases:
  assumes "run_web E fl = (acts, r)"
  obtains "acts = []" | "acts = StartWeb # fst (run_serve E fl) @ [CloseWeb]"
  using assms by (auto simp: run_web_def split: option.splits prod.splits)

lemma run_open_cases:
  assumes "run_open E fl d fs = (acts, r, d', fs')"
  obtains (failed) "acts = [] \<or> acts = [InstallTeam]" | (quiet) "acts = InstallTeam # (if flNoImport fl then [] else [ImportHosts])"
  | (web) "acts = InstallTeam # (if flNoImport fl then [] else [ImportHosts]) @ StartWeb # fst (run_serve E fl) @ [CloseWeb]"
proof -
  obtain x y where w: "run_web E fl = (x, y)" by fastforce
  with assms have "acts = [] \<or> acts = [InstallTeam] \<or> acts = InstallTeam # (if flNoImport fl then [] else [ImportHosts]) @ x"
    by (auto simp: run_open_def split: sum.splits prod.splits option.splits)
  with w that show ?thesis by (cases rule: run_web_cases) auto
qed

lemma run_order_subseq:
  assumes "subseq xs [OpenStore, InstallTeam, ImportHosts, StartWeb]" "subseq ys (serve_order fl @ [CloseWeb])"
    and "subseq zs [CloseStore, ClosePort]"
  shows "subseq (BindPort (listen_address fl) # xs @ ys @ zs) (run_order fl)"
proof -
  have "run_order fl = [BindPort (listen_address fl)] @ [OpenStore, InstallTeam, ImportHosts, StartWeb]
      @ (serve_order fl @ [CloseWeb]) @ [CloseStore, ClosePort]" by (simp add: run_order_def)
  moreover have "subseq ([BindPort (listen_address fl)] @ xs @ ys @ zs) \<dots>"
    by (intro list_emb_append_mono assms) simp_all
  ultimately show ?thesis by simp
qed

text \<open>What happens between taking the port and giving it back.\<close>

definition port_discipline :: "app_act list \<Rightarrow> bool" where
  "port_discipline acts \<longleftrightarrow> set acts \<inter> {OpenStore, InstallTeam, ImportHosts, StartWeb} \<subseteq> set (while_held acts)
     \<and> (ServeWeb \<in> set acts \<longrightarrow> CloseStore \<notin> set (while_held acts))"

lemma port_discipline_startup:
  assumes "set xs \<subseteq> {OpenStore, InstallTeam, ImportHosts, StartWeb}" "set zs \<subseteq> {CloseStore, ClosePort}"
  shows "port_discipline (BindPort a # xs @ zs)"
proof -
  have "\<not> list_ex releases_port (BindPort a # xs)" using assms(1) by (auto simp: list_ex_iff releases_port_def)
  from while_held_append [OF this, of zs] assms show ?thesis by (auto simp: port_discipline_def)
qed

lemma port_discipline_serving:
  assumes "set xs \<subseteq> {OpenStore, InstallTeam, ImportHosts, StartWeb}"
  shows "port_discipline (BindPort a # xs @ fst (run_serve E fl) @ [CloseWeb, CloseStore, ClosePort])"
proof -
  let ?s = "fst (run_serve E fl)"
  have "\<not> list_ex releases_port (BindPort a # xs)" using assms by (auto simp: list_ex_iff releases_port_def)
  note w = while_held_append [OF this, of "?s @ [CloseWeb, CloseStore, ClosePort]", simplified]
  have "CloseStore \<notin> set (while_held (?s @ [CloseWeb, CloseStore, ClosePort]))" if served: "ServeWeb \<in> set ?s"
  proof -
    obtain a where a: "a \<in> set ?s" "releases_port a" using run_serve_port(1) [OF served] by blast
    then have "while_held (?s @ [CloseWeb, CloseStore, ClosePort]) = while_held ?s"
      by (simp add: while_held_def takeWhile_append1 [of a])
    moreover have "set (while_held ?s) \<subseteq> set ?s" by (auto simp: while_held_def dest: set_takeWhileD)
    ultimately show ?thesis using run_serve_port(2) [of E fl] by auto
  qed
  with assms run_serve_port(2) [of E fl] w show ?thesis by (auto simp: port_discipline_def)
qed

lemma run_bound_sequence:
  assumes "run_bound E fl d fs = (bacts, r, d', fs')"
  defines "acts \<equiv> BindPort (listen_address fl) # bacts @ [ClosePort]"
  shows "subseq acts (run_order fl) \<and> port_discipline acts
    \<and> (InstallTeam \<in> set acts \<longrightarrow> (\<exists>mid. acts = mid @ [CloseStore, ClosePort]))
    \<and> (StartWeb \<in> set acts \<longrightarrow> (\<exists>mid. acts = mid @ [CloseWeb, CloseStore, ClosePort]))"
proof (cases "bacts = [OpenStore]")
  case True
  with run_order_subseq [of "[OpenStore]" "[]" fl "[ClosePort]"] port_discipline_startup [of "[OpenStore]" "[ClosePort]"]
  show ?thesis by (simp add: acts_def)
next
  case False
  with assms(1) obtain d1 oacts where o: "run_open E fl d1 fs = (oacts, r, d', fs')" "bacts = OpenStore # oacts @ [CloseStore]"
    by (auto simp: run_bound_def split: sum.splits prod.splits)
  let ?import = "if flNoImport fl then [] else [ImportHosts]"
  have serve: "subseq (fst (run_serve E fl)) (serve_order fl)" "StartWeb \<notin> set (fst (run_serve E fl))"
    using run_serve_order by auto
  show ?thesis
  proof (cases "oacts \<in> {[], [InstallTeam], InstallTeam # ?import}")
    case True
    with o(2) run_order_subseq [of "OpenStore # oacts" "[]" fl "[CloseStore, ClosePort]"]
      port_discipline_startup [of "OpenStore # oacts" "[CloseStore, ClosePort]" "listen_address fl"]
    show ?thesis by (auto simp: acts_def split: if_splits)
  next
    case False
    with o(1) have web: "oacts = InstallTeam # ?import @ StartWeb # fst (run_serve E fl) @ [CloseWeb]"
      by (cases rule: run_open_cases) auto
    let ?xs = "OpenStore # InstallTeam # ?import @ [StartWeb]"
    have a: "acts = BindPort (listen_address fl) # ?xs @ (fst (run_serve E fl) @ [CloseWeb]) @ [CloseStore, ClosePort]"
      using web o(2) by (simp add: acts_def)
    have "subseq (fst (run_serve E fl) @ [CloseWeb]) (serve_order fl @ [CloseWeb])"
      by (intro list_emb_append_mono serve(1)) simp
    then have "subseq acts (run_order fl)" unfolding a by (intro run_order_subseq) auto
    moreover have "port_discipline acts" using port_discipline_serving [of ?xs "listen_address fl" E fl] by (simp add: a)
    ultimately show ?thesis by (simp add: a)
  qed
qed

end
