(* ===== verification/App_Correct.thy ===== *)
theory App_Correct
  imports AppMain Share_Correct
begin

text \<open>What a run of the program promises: its order, and that it undoes what it did.\<close>

text \<open>C14. A run acquires its port first: whatever fails, what it does is part of one fixed sequence
  (port, store, team package, import, web server, download page, serving, health check, browser,
  then closing). Opening the store, installing the team package and importing happen only while the
  port is held, so an instance that starts while another one serves touches neither store nor files.
  The port is on 127.0.0.1 unless container mode was asked for, which only Linux accepts. A web
  server that was started, the store and the listener are closed at the end, in this order, but
  net/http has then freed the port already: a run that served gives up its port before it closes
  the store.\<close>

theorem run_is_ordered_and_released:
  assumes "app_run E d fs = (acts, r, d', fs')" "acts \<noteq> []"
  shows "\<exists>fl. subseq acts (run_order fl) \<and> hd acts = BindPort (listen_address fl)
    \<and> (listen_address fl = ''127.0.0.1:'' @ Itoa (flPort fl) \<or> flContainer fl \<and> aeLinux E)
    \<and> (OpenStore \<in> set acts \<or> d' \<noteq> d \<or> fs' \<noteq> fs \<longrightarrow> aeListen E (listen_address fl) = None \<and> last acts = ClosePort)
    \<and> set acts \<inter> {OpenStore, InstallTeam, ImportHosts, StartWeb} \<subseteq> set (while_held acts)
    \<and> (InstallTeam \<in> set acts \<longrightarrow> (\<exists>mid. acts = mid @ [CloseStore, ClosePort]))
    \<and> (StartWeb \<in> set acts \<longrightarrow> (\<exists>mid. acts = mid @ [CloseWeb, CloseStore, ClosePort]))
    \<and> (ServeWeb \<in> set acts \<longrightarrow> CloseStore \<notin> set (while_held acts))"
proof -
  obtain dir where dir: "DataDir (aeOS E) (aeWindows E) (aeLocalAppData E) (aeConfigDir E) = Inr dir"
    using assms by (auto simp: app_run_def split: sum.splits)
  define fl where "fl = aeFlags E dir"
  have flags: "check_flags (aeOS E) (aeLinux E) fl = Inr ()"
    using assms dir by (auto simp: app_run_def fl_def Let_def split: sum.splits)
  then have addr: "listen_address fl = ''127.0.0.1:'' @ Itoa (flPort fl) \<or> flContainer fl \<and> aeLinux E"
    by (auto simp: check_flags_def listen_address_def app_address_def res_simps)
  show ?thesis
  proof (cases "aeListen E (listen_address fl)")
    case (Some e)
    with assms dir flags have "acts = [BindPort (listen_address fl)] \<and> d' = d \<and> fs' = fs"
      by (simp add: app_run_def fl_def Let_def)
    with addr run_order_subseq [of "[]" "[]" fl "[]"] show ?thesis by (intro exI [of _ fl]) simp
  next
    case None
    with assms dir flags obtain bacts where b: "run_bound E fl d fs = (bacts, r, d', fs')"
      "acts = BindPort (listen_address fl) # bacts @ [ClosePort]"
      by (auto simp: app_run_def fl_def Let_def split: prod.splits)
    from run_bound_sequence [OF b(1)] b(2) addr None show ?thesis by (intro exI [of _ fl]) (simp add: port_discipline_def)
  qed
qed

definition sample_flags :: "string \<Rightarrow> flags" where
  "sample_flags dir = \<lparr>flData = dir, flPort = 9876, flNoBrowser = False, flNoImport = True, flShare = False,
     flContainer = False\<rparr>"

definition sample_app :: "unit app_env" where
  "sample_app = \<lparr>aeOS = unix_os (Some ''/home/u''), aeWindows = False, aeLinux = True, aeLocalAppData = [],
     aeConfigDir = Inr ''/home/u/.config'', aeFlags = sample_flags, aeListen = (\<lambda>_. None), aeSQL = (\<lambda>_ _. True),
     aeParse = (\<lambda>_. None), aeURL = (\<lambda>_ _. None), aeCodec = unreadable, aeEd = seEd lan_env,
     aeIO = \<lparr>ioOk = (\<lambda>_. True), ioShort = (\<lambda>_. 0)\<rparr>, aeKey = (\<lambda>_. NotAKey), aeSha = id, aeFold = id, aeIds = (\<lambda>_ _. []), aeNow = [],
     aeExe = Inr ''/bin/sshdesk'', aeFiles = (\<lambda>_. Some \<lparr>xBytes = ''program'', xStat = True, xRead = True\<rparr>),
     aeNew = None, aePage = None, aeHealth = Inr 200, aeServe = None, aeStop = None\<rparr>"

theorem run_is_ordered_and_released_witness:
  "let acts = fst (app_run sample_app sample_db (\<lambda>_. None)) in
     acts = [BindPort ''127.0.0.1:9876'', OpenStore, InstallTeam, StartWeb, ServeWeb,
       CheckHealth ''http://127.0.0.1:9876/health'', ShowBrowser ''http://127.0.0.1:9876'', CloseWeb, Shutdown,
       CloseWeb, CloseStore, ClosePort]
     \<and> (\<exists>fl. subseq acts (run_order fl) \<and> listen_address fl = ''127.0.0.1:9876'')
     \<and> {OpenStore, InstallTeam} \<subseteq> set (while_held acts) \<and> CloseStore \<notin> set (while_held acts)"
proof -
  let ?run = "app_run sample_app sample_db (\<lambda>_. None)"
  have a: "fst ?run = [BindPort ''127.0.0.1:9876'', OpenStore, InstallTeam, StartWeb, ServeWeb,
       CheckHealth ''http://127.0.0.1:9876/health'', ShowBrowser ''http://127.0.0.1:9876'', CloseWeb, Shutdown,
       CloseWeb, CloseStore, ClosePort]" by code_simp
  have "?run = (fst ?run, fst (snd ?run), fst (snd (snd ?run)), snd (snd (snd ?run)))" by simp
  from run_is_ordered_and_released [OF this] a show ?thesis by auto
qed

end
