(* ===== verification/Spec2Isabelle.thy ===== *)
theory Spec2Isabelle
  imports Config_Correct Tunnel_Correct Team_Correct Records_Correct Server_Correct Mac_Correct App_Correct
begin

text \<open>
  A verification development of SSHDesk (Go), a local web application that manages SSH hosts, keys,
  tunnels and web links, opens tunnels and terminals through chains of jump hosts, and shares a
  configuration with a team.

  \<^bold>\<open>The program\<close>

  One process runs on the user's machine (cmd/sshdesk/main.go). It keeps its configuration in one
  SQLite store (internal/database) whose records and checks are in internal/model. At startup it
  installs a team package attached to its executable (internal/provision) and imports hosts of the
  user's SSH configuration (internal/sshconfig). A management interface (internal/web/server.go and
  the handlers beside it) on 127.0.0.1 edits the store, asks the tunnel manager (internal/tunnel)
  for tunnels, and opens terminals; both connect hop by hop with internal/sshclient, which reads keys
  through internal/key and paths through internal/platform. A second listener on port 9877, the
  download page (internal/web/sharing.go), hands out team packages; their members poll the signed
  feed of their source (internal/web/team_sync.go, internal/provision/sync.go).

  \<^bold>\<open>The theories\<close>

  \<^item> Prelude: errors as sums (\<open>rbind\<close>, \<open>check\<close>), loops over slices (\<open>rall\<close>, \<open>rfold\<close>, \<open>rmap\<close>),
    lookup by identifier, the collections of simplification rules. Errors: one datatype per package.
  \<^item> GoUtf8, GoStrings, GoPath: what the code uses of Go's unicode/utf8, strings, strconv, net and
    path/filepath (Unix). Strings are byte lists. WebGuard adds SplitHostPort and IP networks.
  \<^item> Model (model.go): records, validation of a record, lookups, \<open>Chain\<close>; what valid records are
    (\<open>valid_host\<close>, \<open>valid_tunnel\<close>, \<open>valid_service\<close>), said without the checks. Database (store.go and
    migrations): the tables as lists of rows, \<open>Open\<close>, \<open>Snapshot\<close>, \<open>Validate\<close>, \<open>Update\<close>, local values,
    history; \<open>json_*\<close> is what encoding and decoding a column does to a record, \<open>updates\<close> a sequence of
    transactions, each with outcomes of its own. The interface the
    clients use is the locale \<open>txn_store\<close>, interpreted as \<open>sqlite\<close>. Store_Correct: their properties.
  \<^item> PlatformKey (platform.go, key.go): paths over an operating system (\<open>os\<close>, locale \<open>file_paths\<close>,
    interpreted as \<open>unix_paths\<close>), files (\<open>fs\<close>, a partial function of paths), keys and signers.
  \<^item> SshParse, SshImport (sshconfig/*.go): tokens, directives, candidates; importing selected hosts
    and the grouped import at startup, each group a transaction. Config_Correct: their properties.
  \<^item> Tunnel (tunnel/manager.go): the manager's table and heap of entries, each goroutine as a program
    point, each section between lock operations as a step; \<open>reachable\<close> is the set of all interleavings,
    in which the answers of the network and the order of map iteration (\<open>MapOrder\<close>) come with events.
    TunnelSafety and TunnelLive hold its invariants, TunnelSpec the life cycle of a tunnel
    (\<open>life_step\<close>) and, by the locale \<open>simulation\<close>, the refinement; Tunnel_Correct the properties.
  \<^item> SshClient (sshclient/client.go): connecting along a chain as a trace of network events, the host
    key policy, closing. SshClient_Correct: its properties.
  \<^item> TeamBundle, TeamInstall, TeamSync (provision/bundle.go, sync.go): selecting, packing, attaching
    to an executable, installing, signing, fetching, verifying and applying feeds; \<open>wire_*\<close> is what
    encoding/json keeps of a package or message (no subscriptions); merging is the locale
    \<open>record_merge\<close>, interpreted for packages and, in WebRecords, for backups. Team_Correct.
  \<^item> MacExport (provision/macos.go): the files of the macOS package, byte by byte. Mac_Correct.
  \<^item> WebRecords (server.go, tunnel_links.go, backup.go): saving and deleting records, backups.
    Records_Correct. WebFiles (settingseditor.go, settingsupload.go, keyupload.go, filepicker.go).
    Files_Correct. WebShare and TeamPoll (sharing.go, team_sync.go). Share_Correct. Terminal
    (terminal.go). WebGuard (the guards and routers of both listeners). WebServer: the remaining
    handlers, and \<open>serve\<close>, which takes a request through guard and router to its handler on the state
    the server keeps (store, files, download page, terminals, the manager's tables). Server_Correct.
  \<^item> AppMain (main.go, platform.go): a run of the program as a sequence of actions; the port is free
    from the first action by which net/http closes the listener (\<open>releases_port\<close>). App_Correct.

  \<^bold>\<open>What the properties show\<close>

  The store: updates are atomic and keep a valid configuration valid, as long as names are valid
  UTF-8 (\<open>invalid_names_collide\<close> shows why); \<open>Validate\<close> and \<open>Chain\<close> accept
  exactly what an independent specification (\<open>well_formed\<close>, \<open>route\<close>) says; following jump hosts ends.
  Import: hosts are only added, links realise ProxyJump, every alias is accounted for. Tunnels: in
  every interleaving entries are consistent, sockets bounded, nothing leaks or revives, Stop ends.
  SSH: routes are followed, failures leave nothing open, no trust on first use. Teams: packages and
  feeds survive their journey, are authenticated, refine an override of partial functions and never
  touch personal records. The web: nothing changes without the session token, edits and uploads are
  all or nothing (but for new files the operating system will not remove), what is running is not edited, the download page is local and read-only, exports
  cannot be injected into. The program: ordered start, released resources.

  \<^bold>\<open>Parameters, bounds and fuel\<close>

  Code outside the repository is an argument: net/url.Parse (\<open>up\<close>), SQL statements that may fail
  (\<open>q\<close>; where a function runs several transactions, \<open>q\<close> has an index for each), encoding/json (\<open>codec\<close>, \<open>body\<close>, decoders), crypto/ed25519, SHA-256, the SSH key and
  known_hosts parsers, the network, listeners, the clock, random identifiers, which operating system
  call succeeds (\<open>can\<close>, \<open>disk_io\<close>), Unicode tables above ASCII. Hypotheses on them state their
  documented behaviour (a signature verifies what was signed, a decoder reads back what was encoded)
  and are instantiated by the witnesses. Integers are unbounded where the code only compares them
  within validated ranges (ports, counts); sizes and byte layouts are exact. No definition needs fuel
  to be total: loops are structural or have a measure; \<open>chain_rounds\<close> counts rounds only to state
  that 17 suffice. Bounds of the code (16 hops, 16 terminals, 128 sockets and peers, 200 history rows,
  1 and 2 MiB) appear with their values.

  \<^bold>\<open>Not modelled\<close>

  The native file dialogs and access control lists (Windows calls), the browser front end and
  templates, the SSH server of the test suite, HTTP response headers and rendering, file permissions,
  clearing of key bytes in memory, the passing of time except as failing calls or given clocks, the
  concurrency inside one terminal session, and the interleaving of web handlers, which run one at a
  time here (the code serialises transactions in the store and most handlers with \<open>ops\<close>).
\<close>

end
